(* ===== verification/Prelude.thy ===== *)
theory Prelude
  imports Complex_Main "HOL-Library.Monad_Syntax"
begin

text \<open>
  Shared material of the development: the proof-rule collections, the statement sequences that
  stand for the body of a JavaScript callback (run until the first exception), the string
  operations of the JavaScript library that the sources use, and decimal printing.

  Strings are HOL strings; a JavaScript string is represented by its UTF-8 bytes, so every ASCII
  literal is itself, and \<open>js_length\<close> recovers the number of UTF-16 code units.
\<close>

named_theorems frame_simps \<open>effect of a state update on the fields it does not write\<close>
named_theorems node_simps \<open>reading a container node after an update\<close>
named_theorems view_defs \<open>definitions of the view builders\<close>

section \<open>Callback bodies\<close>

text \<open>
  A callback body is a list of statements over a state. A statement that evaluates without an
  exception is \<open>Some\<close> of its effect; a statement whose expression throws is \<open>None\<close>. Effects
  before the first exception are kept, as in JavaScript.
\<close>

type_synonym 's stmt = "('s \<Rightarrow> 's) option"

fun run_stmts :: "'s stmt list \<Rightarrow> 's \<Rightarrow> 's \<times> bool" where
  "run_stmts [] s = (s, True)"
| "run_stmts (None # ss) s = (s, False)"
| "run_stmts (Some f # ss) s = run_stmts ss (f s)"

text \<open>\<open>promise.then(body).catch(handler)\<close> for a promise that was fulfilled.\<close>

definition then_catch :: "'s stmt list \<Rightarrow> ('s \<Rightarrow> 's) \<Rightarrow> 's \<Rightarrow> 's" where
  "then_catch body handler s =
     (case run_stmts body s of (s', ok) \<Rightarrow> if ok then s' else handler s')"

lemma run_stmts_append:
  "run_stmts (xs @ ys) s =
     (case run_stmts xs s of (s', ok) \<Rightarrow> if ok then run_stmts ys s' else (s', False))"
  by (induction xs s rule: run_stmts.induct) auto

lemma run_stmts_inv:
  assumes "\<And>f s. Some f \<in> set ss \<Longrightarrow> I s \<Longrightarrow> I (f s)" and "I s"
  shows "I (fst (run_stmts ss s))"
  using assms by (induction ss s rule: run_stmts.induct) auto

text \<open>An invariant that every effect of the body and the handler keep is kept by the callback.\<close>

lemma then_catch_inv:
  assumes "\<And>f s. Some f \<in> set ss \<Longrightarrow> I s \<Longrightarrow> I (f s)" and "\<And>s. I s \<Longrightarrow> I (h s)" and "I s"
  shows "I (then_catch ss h s)"
proof -
  have "I (fst (run_stmts ss s))" using assms(1,3) by (rule run_stmts_inv)
  then show ?thesis using assms(2) by (auto simp: then_catch_def split: prod.split)
qed

lemma run_stmts_no_throw: "(None \<notin> set ss) = snd (run_stmts ss s)"
  by (induction ss s rule: run_stmts.induct) auto

lemma then_catch_no_throw:
  "None \<notin> set ss \<Longrightarrow> then_catch ss h s = fst (run_stmts ss s)"
  using run_stmts_no_throw [of ss s] by (auto simp: then_catch_def split: prod.split)

section \<open>Strings\<close>

definition js_length :: "string \<Rightarrow> nat" where
  "js_length s = sum_list (map (\<lambda>c. let b = of_char c :: nat in
     if 128 \<le> b \<and> b < 192 then 0 else if 240 \<le> b then 2 else 1) s)"

fun js_join :: "string \<Rightarrow> string list \<Rightarrow> string" where
  "js_join sep [] = []"
| "js_join sep [x] = x"
| "js_join sep (x # y # xs) = x @ sep @ js_join sep (y # xs)"

text \<open>\<open>s.split(c)\<close> for a one-character separator.\<close>

fun split_on :: "char \<Rightarrow> string \<Rightarrow> string list" where
  "split_on c [] = [[]]"
| "split_on c (x # xs) =
     (if x = c then [] # split_on c xs
      else case split_on c xs of [] \<Rightarrow> [[x]] | y # ys \<Rightarrow> (x # y) # ys)"

fun is_prefix :: "string \<Rightarrow> string \<Rightarrow> bool" where
  "is_prefix [] ys = True"
| "is_prefix (x # xs) [] = False"
| "is_prefix (x # xs) (y # ys) = (x = y \<and> is_prefix xs ys)"

text \<open>\<open>s.indexOf(sub)\<close>: the first position of \<open>sub\<close>, or -1.\<close>

fun index_from :: "nat \<Rightarrow> string \<Rightarrow> string \<Rightarrow> int" where
  "index_from i sub s =
     (if is_prefix sub s then int i
      else case s of [] \<Rightarrow> -1 | _ # s' \<Rightarrow> index_from (Suc i) sub s')"

definition indexOf :: "string \<Rightarrow> string \<Rightarrow> int" where
  "indexOf s sub = index_from 0 sub s"

declare index_from.simps [simp del]

lemma is_prefix_iff: "is_prefix xs ys \<longleftrightarrow> (\<exists>zs. ys = xs @ zs)"
  by (induction xs ys rule: is_prefix.induct) auto

lemma index_from_bounds: "index_from i sub s = -1 \<or> int i \<le> index_from i sub s"
proof (induction i sub s rule: index_from.induct)
  case (1 i sub s)
  then show ?case
    by (subst (1 2) index_from.simps) (fastforce split: list.split)
qed

text \<open>\<open>s.indexOf(sub) >= 0\<close> is the substring test.\<close>

lemma index_from_nonneg: "0 \<le> index_from i sub s \<longleftrightarrow> (\<exists>us vs. s = us @ sub @ vs)"
proof (induction i sub s rule: index_from.induct)
  case (1 i sub s)
  show ?case
  proof (cases "is_prefix sub s")
    case True
    then have "\<exists>us vs. s = us @ sub @ vs"
      by (metis append_Nil is_prefix_iff)
    with True show ?thesis by (subst index_from.simps) simp
  next
    case False
    show ?thesis
    proof (cases s)
      case Nil
      with False show ?thesis by (subst index_from.simps) auto
    next
      case (Cons c s')
      have "(\<exists>us vs. s = us @ sub @ vs) \<longleftrightarrow> (\<exists>us vs. s' = us @ sub @ vs)"
        using False unfolding Cons is_prefix_iff by (metis append_Cons append_Nil list.exhaust list.inject)
      with "1.IH" [OF False Cons] False Cons show ?thesis
        by (subst index_from.simps) simp
    qed
  qed
qed

lemma indexOf_nonneg: "0 \<le> indexOf s sub \<longleftrightarrow> (\<exists>us vs. s = us @ sub @ vs)"
  by (simp add: indexOf_def index_from_nonneg)

definition to_lower :: "string \<Rightarrow> string" where
  "to_lower s = map (\<lambda>c. let b = of_char c :: nat in
     if 65 \<le> b \<and> b \<le> 90 then char_of (b + 32) else c) s"

section \<open>Decimal printing\<close>

definition digit :: "nat \<Rightarrow> char" where
  "digit n = char_of (48 + n)"

fun nat_str :: "nat \<Rightarrow> string" where
  "nat_str n = (if n < 10 then [digit n] else nat_str (n div 10) @ [digit (n mod 10)])"

declare nat_str.simps [simp del]

definition int_str :: "int \<Rightarrow> string" where
  "int_str i = (if i < 0 then CHR ''-'' # nat_str (nat (- i)) else nat_str (nat i))"

definition is_digit :: "char \<Rightarrow> bool" where
  "is_digit c = (let b = of_char c :: nat in 48 \<le> b \<and> b \<le> 57)"

definition digit_val :: "char \<Rightarrow> nat" where
  "digit_val c = of_char c - 48"

definition nat_of_digits :: "nat \<Rightarrow> string \<Rightarrow> nat" where
  "nat_of_digits a s = foldl (\<lambda>n c. 10 * n + digit_val c) a s"

lemma of_char_digit [simp]: "n < 10 \<Longrightarrow> of_char (digit n) = (48 + n :: nat)"
  by (simp add: digit_def)

lemma is_digit_digit [simp]: "n < 10 \<Longrightarrow> is_digit (digit n)"
  by (simp add: is_digit_def)

lemma digit_val_digit [simp]: "n < 10 \<Longrightarrow> digit_val (digit n) = n"
  by (simp add: digit_val_def)

lemma nat_str_digits: "\<forall>c \<in> set (nat_str n). is_digit c"
proof (induction n rule: nat_str.induct)
  case (1 n)
  then show ?case by (subst nat_str.simps) auto
qed

lemma nat_str_nonempty [simp]: "nat_str n \<noteq> []"
  by (subst nat_str.simps) simp

lemma nat_of_digits_append:
  "nat_of_digits a (s @ t) = nat_of_digits (nat_of_digits a s) t"
  by (simp add: nat_of_digits_def)

text \<open>Printing and reading back a natural number.\<close>

lemma nat_of_digits_nat_str: "nat_of_digits 0 (nat_str n) = n"
proof (induction n rule: nat_str.induct)
  case (1 n)
  show ?case
  proof (cases "n < 10")
    case True
    then show ?thesis by (subst nat_str.simps) (simp add: nat_of_digits_def)
  next
    case False
    with 1 show ?thesis
      by (subst nat_str.simps) (simp add: nat_of_digits_append, simp add: nat_of_digits_def)
  qed
qed

lemma nat_str_inj: "nat_str m = nat_str n \<Longrightarrow> m = n"
  by (metis nat_of_digits_nat_str)

end
