(* ===== verification/Js_Values.thy ===== *)
theory Js_Values
  imports Prelude
begin

text \<open>
  JavaScript values as the sources use them: the results of \<open>JSON.parse\<close> and of property reads.
  An object is the list of its own enumerable properties in the order \<open>Object.keys\<close> gives
  (integer keys ascending, then the other keys in insertion order). A finite number is a rational:
  the value of the shortest decimal that identifies the double, so printing is exact; arithmetic
  is that of the rationals. A read through the prototype chain yields a built-in function,
  represented by its name.
\<close>

section \<open>Values\<close>

datatype jnum = Fin rat | NaN | PInf | NInf

datatype jv =
    JUndef
  | JNull
  | JBool bool
  | JNum jnum
  | JStr string
  | JArr "jv list"
  | JObj "(string \<times> jv) list"
  | JFun string

abbreviation jint :: "int \<Rightarrow> jv" where
  "jint i \<equiv> JNum (Fin (of_int i))"

abbreviation jnat :: "nat \<Rightarrow> jv" where
  "jnat n \<equiv> JNum (Fin (of_nat n))"

fun truthy :: "jv \<Rightarrow> bool" where
  "truthy JUndef = False"
| "truthy JNull = False"
| "truthy (JBool b) = b"
| "truthy (JNum (Fin r)) = (r \<noteq> 0)"
| "truthy (JNum NaN) = False"
| "truthy (JNum _) = True"
| "truthy (JStr s) = (s \<noteq> [])"
| "truthy (JArr _) = True"
| "truthy (JObj _) = True"
| "truthy (JFun _) = True"

definition js_or :: "jv \<Rightarrow> jv \<Rightarrow> jv" where
  "js_or a b = (if truthy a then a else b)"

fun js_typeof :: "jv \<Rightarrow> string" where
  "js_typeof JUndef = ''undefined''"
| "js_typeof JNull = ''object''"
| "js_typeof (JBool _) = ''boolean''"
| "js_typeof (JNum _) = ''number''"
| "js_typeof (JStr _) = ''string''"
| "js_typeof (JArr _) = ''object''"
| "js_typeof (JObj _) = ''object''"
| "js_typeof (JFun _) = ''function''"

definition nullish :: "jv \<Rightarrow> bool" where
  "nullish v = (v = JUndef \<or> v = JNull)"

fun is_array :: "jv \<Rightarrow> bool" where
  "is_array (JArr _) = True"
| "is_array _ = False"

section \<open>Objects as ordered dictionaries\<close>

text \<open>Keys that are array indices come first, in numeric order.\<close>

definition is_index_key :: "string \<Rightarrow> bool" where
  "is_index_key k = (k \<noteq> [] \<and> list_all is_digit k \<and> nat_str (nat_of_digits 0 k) = k
     \<and> int (nat_of_digits 0 k) < 4294967295)"

definition key_before :: "string \<Rightarrow> string \<Rightarrow> bool" where
  "key_before k k' = (is_index_key k \<and> (\<not> is_index_key k' \<or> nat_of_digits 0 k < nat_of_digits 0 k'))"

fun obj_insert :: "string \<Rightarrow> 'v \<Rightarrow> (string \<times> 'v) list \<Rightarrow> (string \<times> 'v) list" where
  "obj_insert k v [] = [(k, v)]"
| "obj_insert k v ((k', v') # kvs) =
     (if key_before k k' then (k, v) # (k', v') # kvs else (k', v') # obj_insert k v kvs)"

fun obj_replace :: "string \<Rightarrow> 'v \<Rightarrow> (string \<times> 'v) list \<Rightarrow> (string \<times> 'v) list" where
  "obj_replace k v [] = []"
| "obj_replace k v ((k', v') # kvs) =
     (if k = k' then (k', v) # kvs else (k', v') # obj_replace k v kvs)"

definition obj_set :: "string \<Rightarrow> 'v \<Rightarrow> (string \<times> 'v) list \<Rightarrow> (string \<times> 'v) list" where
  "obj_set k v kvs = (if k \<in> fst ` set kvs then obj_replace k v kvs else obj_insert k v kvs)"

definition obj_del :: "string \<Rightarrow> (string \<times> 'v) list \<Rightarrow> (string \<times> 'v) list" where
  "obj_del k kvs = filter (\<lambda>p. fst p \<noteq> k) kvs"

text \<open>Property order: no key twice, and no later key that would have to come earlier.\<close>

definition obj_ok :: "(string \<times> 'v) list \<Rightarrow> bool" where
  "obj_ok kvs = (distinct (map fst kvs) \<and> sorted_wrt (\<lambda>k k'. \<not> key_before k' k) (map fst kvs))"

section \<open>Property reads\<close>

definition object_proto :: "string list" where
  "object_proto = [''constructor'', ''__defineGetter__'', ''__defineSetter__'', ''hasOwnProperty'',
     ''__lookupGetter__'', ''__lookupSetter__'', ''isPrototypeOf'', ''propertyIsEnumerable'',
     ''toString'', ''valueOf'', ''__proto__'', ''toLocaleString'']"

definition array_proto :: "string list" where
  "array_proto = [''at'', ''concat'', ''copyWithin'', ''fill'', ''find'', ''findIndex'', ''findLast'',
     ''findLastIndex'', ''lastIndexOf'', ''pop'', ''push'', ''reverse'', ''shift'', ''unshift'',
     ''slice'', ''sort'', ''splice'', ''includes'', ''indexOf'', ''join'', ''keys'', ''entries'',
     ''values'', ''forEach'', ''filter'', ''flat'', ''flatMap'', ''map'', ''every'', ''some'',
     ''reduce'', ''reduceRight'', ''toReversed'', ''toSorted'', ''toSpliced'', ''with'']"

definition string_proto :: "string list" where
  "string_proto = [''anchor'', ''at'', ''big'', ''blink'', ''bold'', ''charAt'', ''charCodeAt'',
     ''codePointAt'', ''concat'', ''endsWith'', ''fontcolor'', ''fontsize'', ''fixed'', ''includes'',
     ''indexOf'', ''italics'', ''lastIndexOf'', ''link'', ''localeCompare'', ''match'', ''matchAll'',
     ''normalize'', ''padEnd'', ''padStart'', ''repeat'', ''replace'', ''replaceAll'', ''search'',
     ''slice'', ''small'', ''split'', ''strike'', ''sub'', ''substr'', ''substring'', ''sup'',
     ''startsWith'', ''trim'', ''trimStart'', ''trimLeft'', ''trimEnd'', ''trimRight'',
     ''toLocaleLowerCase'', ''toLocaleUpperCase'', ''toLowerCase'', ''toUpperCase'',
     ''isWellFormed'', ''toWellFormed'']"

definition number_proto :: "string list" where
  "number_proto = [''toExponential'', ''toFixed'', ''toPrecision'']"

definition function_proto :: "string list" where
  "function_proto = [''apply'', ''bind'', ''call'']"

definition proto_read :: "string list \<Rightarrow> string \<Rightarrow> jv" where
  "proto_read names k = (if k \<in> set names \<or> k \<in> set object_proto then JFun k else JUndef)"

text \<open>\<open>v[k]\<close> and \<open>v.k\<close>: \<open>None\<close> is the TypeError of a read from null or undefined.\<close>

fun js_get :: "jv \<Rightarrow> string \<Rightarrow> jv option" where
  "js_get JUndef k = None"
| "js_get JNull k = None"
| "js_get (JObj kvs) k = Some (case map_of kvs k of Some v \<Rightarrow> v | None \<Rightarrow> proto_read [] k)"
| "js_get (JArr vs) k = Some
     (if k = ''length'' then jnat (length vs)
      else if is_index_key k
        then (if nat_of_digits 0 k < length vs then vs ! nat_of_digits 0 k else JUndef)
      else proto_read array_proto k)"
| "js_get (JStr s) k = Some
     (if k = ''length'' then jnat (js_length s)
      else if is_index_key k
        then (if nat_of_digits 0 k < length s then JStr [s ! nat_of_digits 0 k] else JUndef)
      else proto_read string_proto k)"
| "js_get (JNum _) k = Some (proto_read number_proto k)"
| "js_get (JBool _) k = Some (proto_read [] k)"
| "js_get (JFun f) k = Some (if k = ''name'' then JStr f else proto_read function_proto k)"

text \<open>\<open>v && v.k\<close>: the guarded read.\<close>

definition js_and_get :: "jv \<Rightarrow> string \<Rightarrow> jv option" where
  "js_and_get v k = (if truthy v then js_get v k else Some v)"

text \<open>\<open>v.forEach\<close> and \<open>v.join\<close> exist on arrays only; a call on anything else throws.\<close>

fun js_elems :: "jv \<Rightarrow> jv list option" where
  "js_elems (JArr vs) = Some vs"
| "js_elems _ = None"

text \<open>\<open>Object.keys(v)\<close>.\<close>

fun object_keys :: "jv \<Rightarrow> string list option" where
  "object_keys JUndef = None"
| "object_keys JNull = None"
| "object_keys (JObj kvs) = Some (map fst kvs)"
| "object_keys (JArr vs) = Some (map nat_str [0..<length vs])"
| "object_keys (JStr s) = Some (map nat_str [0..<js_length s])"
| "object_keys _ = Some []"

section \<open>Conversion to strings\<close>

text \<open>
  \<open>dec_scale q\<close>: the digits \<open>s\<close> and the number \<open>j\<close> of decimals of a positive terminating decimal.
\<close>

fun find_scale :: "nat \<Rightarrow> nat \<Rightarrow> int \<Rightarrow> nat" where
  "find_scale 0 j d = j"
| "find_scale (Suc fuel) j d = (if d dvd 10 ^ j then j else find_scale fuel (Suc j) d)"

function strip_zeros :: "int \<Rightarrow> int \<Rightarrow> int \<times> int" where
  "strip_zeros s j = (if 0 < s \<and> s mod 10 = 0 then strip_zeros (s div 10) (j - 1) else (s, j))"
  by pat_completeness auto
termination
  by (relation "measure (\<lambda>(s, j). nat s)") auto

declare strip_zeros.simps [simp del]

definition dec_scale :: "rat \<Rightarrow> int \<times> int" where
  "dec_scale q = (case quotient_of q of (p, d) \<Rightarrow>
     let j = find_scale 400 0 d in strip_zeros (p * 10 ^ j div d) (int j))"

text \<open>\<open>Number::toString\<close> for a positive number with digits \<open>s\<close> and exponent \<open>n\<close>.\<close>

definition pos_num_str :: "rat \<Rightarrow> string" where
  "pos_num_str q = (case dec_scale q of (s, j) \<Rightarrow>
     let ds = nat_str (nat s); k = int (length ds); n = k - j in
     if k \<le> n \<and> n \<le> 21 then ds @ replicate (nat (n - k)) (CHR ''0'')
     else if 0 < n \<and> n \<le> 21 then take (nat n) ds @ ''.'' @ drop (nat n) ds
     else if -6 < n \<and> n \<le> 0 then ''0.'' @ replicate (nat (- n)) (CHR ''0'') @ ds
     else take 1 ds @ (if k = 1 then [] else ''.'' @ drop 1 ds) @ ''e'' @
          (if n - 1 < 0 then ''-'' else ''+'') @ nat_str (nat \<bar>n - 1\<bar>))"

fun num_str :: "jnum \<Rightarrow> string" where
  "num_str NaN = ''NaN''"
| "num_str PInf = ''Infinity''"
| "num_str NInf = ''-Infinity''"
| "num_str (Fin r) =
     (if of_int \<lfloor>r\<rfloor> = r \<and> \<bar>r\<bar> < 10 ^ 21 then int_str \<lfloor>r\<rfloor>
      else if r < 0 then ''-'' @ pos_num_str (- r) else pos_num_str r)"

text \<open>\<open>String(v)\<close>, which is also what \<open>'' + v\<close> appends.\<close>

fun js_string :: "jv \<Rightarrow> string" where
  "js_string JUndef = ''undefined''"
| "js_string JNull = ''null''"
| "js_string (JBool b) = (if b then ''true'' else ''false'')"
| "js_string (JNum n) = num_str n"
| "js_string (JStr s) = s"
| "js_string (JArr vs) = js_join '','' (map (\<lambda>v. if nullish v then [] else js_string v) vs)"
| "js_string (JObj _) = ''[object Object]''"
| "js_string (JFun f) = ''function '' @ f @ ''() { [native code] }''"

text \<open>What assigning \<open>v\<close> to \<open>textContent\<close> shows: null and undefined clear the text.\<close>

definition text_of :: "jv \<Rightarrow> string" where
  "text_of v = (if nullish v then [] else js_string v)"

text \<open>\<open>arr.join(sep)\<close>.\<close>

definition arr_join :: "string \<Rightarrow> jv list \<Rightarrow> string" where
  "arr_join sep vs = js_join sep (map text_of vs)"

text \<open>\<open>x.toFixed(2)\<close> for a finite number below \<open>10^21\<close>: the nearest hundredth, ties upwards.\<close>

definition to_fixed2 :: "rat \<Rightarrow> string" where
  "to_fixed2 r = (let n = nat \<lfloor>\<bar>r\<bar> * 100 + 1 / 2\<rfloor> in
     (if r < 0 then ''-'' else []) @ nat_str (n div 100) @ ''.'' @
     [digit (n div 10 mod 10), digit (n mod 10)])"

text \<open>\<open>v.toFixed(2)\<close>: a method of numbers only.\<close>

fun js_toFixed2 :: "jv \<Rightarrow> string option" where
  "js_toFixed2 (JNum (Fin r)) = Some (if \<bar>r\<bar> < 10 ^ 21 then to_fixed2 r else num_str (Fin r))"
| "js_toFixed2 (JNum n) = Some (num_str n)"
| "js_toFixed2 _ = None"

section \<open>Numbers\<close>

text \<open>The arithmetic the chart uses: division, scaling by and subtraction from a finite number.\<close>

fun num_div :: "jnum \<Rightarrow> jnum \<Rightarrow> jnum" where
  "num_div (Fin a) (Fin b) =
     (if b \<noteq> 0 then Fin (a / b) else if a = 0 then NaN else if 0 < a then PInf else NInf)"
| "num_div (Fin a) NaN = NaN"
| "num_div (Fin a) _ = Fin 0"
| "num_div PInf (Fin b) = (if 0 \<le> b then PInf else NInf)"
| "num_div NInf (Fin b) = (if 0 \<le> b then NInf else PInf)"
| "num_div _ _ = NaN"

text \<open>\<open>n * h\<close> for a finite positive \<open>h\<close>, and \<open>a - n\<close> for a finite \<open>a\<close>.\<close>

fun num_scale :: "jnum \<Rightarrow> rat \<Rightarrow> jnum" where
  "num_scale (Fin a) h = Fin (a * h)"
| "num_scale n h = n"

fun num_sub_from :: "rat \<Rightarrow> jnum \<Rightarrow> jnum" where
  "num_sub_from a (Fin b) = Fin (a - b)"
| "num_sub_from a PInf = NInf"
| "num_sub_from a NInf = PInf"
| "num_sub_from a NaN = NaN"

text \<open>\<open>Math.max(a, b)\<close>.\<close>

fun num_max :: "jnum \<Rightarrow> jnum \<Rightarrow> jnum" where
  "num_max NaN b = NaN"
| "num_max a NaN = NaN"
| "num_max PInf b = PInf"
| "num_max a PInf = PInf"
| "num_max NInf b = b"
| "num_max a NInf = a"
| "num_max (Fin a) (Fin b) = Fin (max a b)"

fun num_pos :: "jnum \<Rightarrow> bool" where
  "num_pos (Fin r) = (0 < r)"
| "num_pos PInf = True"
| "num_pos _ = False"

section \<open>Laws\<close>

lemma js_or_truthy [simp]: "truthy a \<Longrightarrow> js_or a b = a"
  and js_or_falsy [simp]: "\<not> truthy a \<Longrightarrow> js_or a b = b"
  by (simp_all add: js_or_def)

lemma not_truthy_nullish: "nullish v \<Longrightarrow> \<not> truthy v"
  by (auto simp: nullish_def)

lemma js_get_None: "js_get v k = None \<longleftrightarrow> nullish v"
  by (cases v) (auto simp: nullish_def)

text \<open>The guarded read \<open>v && v.k\<close> never throws.\<close>

lemma js_and_get_total: "\<exists>r. js_and_get v k = Some r"
  by (cases "js_get v k") (auto simp: js_and_get_def js_get_None dest: not_truthy_nullish)

text \<open>Text of integers: the decimal digits.\<close>

lemma num_str_int [simp]: "\<bar>i\<bar> < 10 ^ 21 \<Longrightarrow> num_str (Fin (of_int i)) = int_str i"
proof -
  assume "\<bar>i\<bar> < 10 ^ 21"
  then have "(of_int \<bar>i\<bar> :: rat) < of_int (10 ^ 21)" by (simp only: of_int_less_iff)
  then show ?thesis by simp
qed

lemma num_str_nat [simp]: "n < 10 ^ 21 \<Longrightarrow> num_str (Fin (of_nat n)) = nat_str n"
  using num_str_int [of "int n"] by (simp add: int_str_def)

lemma obj_replace_keys [simp]: "map fst (obj_replace k v kvs) = map fst kvs"
  by (induction k v kvs rule: obj_replace.induct) auto

lemma map_of_obj_replace:
  "k \<in> fst ` set kvs \<Longrightarrow> map_of (obj_replace k v kvs) = (map_of kvs)(k \<mapsto> v)"
proof (induction k v kvs rule: obj_replace.induct)
  case (2 k v k' v' kvs)
  then show ?case by (cases "k = k'") (auto simp: fun_eq_iff simp del: image_iff)
qed simp

lemma set_obj_insert [simp]: "set (obj_insert k v kvs) = insert (k, v) (set kvs)"
  by (induction k v kvs rule: obj_insert.induct) auto

lemma map_of_obj_insert:
  "k \<notin> fst ` set kvs \<Longrightarrow> map_of (obj_insert k v kvs) = (map_of kvs)(k \<mapsto> v)"
  by (induction k v kvs rule: obj_insert.induct) (auto simp: fun_eq_iff)

lemma distinct_obj_insert:
  "k \<notin> fst ` set kvs \<Longrightarrow> distinct (map fst kvs) \<Longrightarrow> distinct (map fst (obj_insert k v kvs))"
  by (induction k v kvs rule: obj_insert.induct) (auto simp: image_iff)

lemma key_before_trans: "key_before a b \<Longrightarrow> key_before b c \<Longrightarrow> key_before a c"
  by (auto simp: key_before_def)

lemma key_before_asym: "key_before a b \<Longrightarrow> \<not> key_before b a"
  by (auto simp: key_before_def)

lemma key_before_neg_trans: "key_before a b \<Longrightarrow> \<not> key_before c b \<Longrightarrow> key_before a c"
  by (auto simp: key_before_def)

lemma sorted_obj_insert:
  "sorted_wrt (\<lambda>a b. \<not> key_before b a) (map fst kvs) \<Longrightarrow>
   sorted_wrt (\<lambda>a b. \<not> key_before b a) (map fst (obj_insert k v kvs))"
proof (induction k v kvs rule: obj_insert.induct)
  case (2 k v k' v' kvs)
  then show ?case
    by (auto simp: key_before_asym dest: key_before_neg_trans)
qed simp

lemma obj_ok_set: "obj_ok kvs \<Longrightarrow> obj_ok (obj_set k v kvs)"
  by (auto simp: obj_ok_def obj_set_def distinct_obj_insert sorted_obj_insert)

lemma map_fst_obj_del: "map fst (obj_del k kvs) = filter (\<lambda>x. x \<noteq> k) (map fst kvs)"
  by (simp add: obj_del_def filter_map o_def)

lemma obj_ok_del: "obj_ok kvs \<Longrightarrow> obj_ok (obj_del k kvs)"
  by (auto simp: obj_ok_def map_fst_obj_del sorted_wrt_filter)

lemma map_of_obj_set: "map_of (obj_set k v kvs) = (map_of kvs)(k \<mapsto> v)"
  by (simp add: obj_set_def map_of_obj_replace map_of_obj_insert)

lemma map_of_obj_del: "map_of (obj_del k kvs) = (map_of kvs)(k := None)"
  by (induction kvs) (auto simp: obj_del_def fun_eq_iff)

text \<open>The dictionary contract the clients of objects rely on.\<close>

locale js_dict =
  fixes lookup :: "'d \<Rightarrow> string \<Rightarrow> 'v option"
    and store :: "string \<Rightarrow> 'v \<Rightarrow> 'd \<Rightarrow> 'd"
    and remove :: "string \<Rightarrow> 'd \<Rightarrow> 'd"
    and ok :: "'d \<Rightarrow> bool"
  assumes lookup_store: "lookup (store k v d) k' = (if k' = k then Some v else lookup d k')"
    and lookup_remove: "lookup (remove k d) k' = (if k' = k then None else lookup d k')"
    and ok_store: "ok d \<Longrightarrow> ok (store k v d)"
    and ok_remove: "ok d \<Longrightarrow> ok (remove k d)"
begin

lemma lookup_store_same: "lookup (store k v d) k = Some v"
  by (simp add: lookup_store)

lemma lookup_store_other: "k' \<noteq> k \<Longrightarrow> lookup (store k v d) k' = lookup d k'"
  by (simp add: lookup_store)

lemma lookup_rename:
  "k \<noteq> k' \<Longrightarrow> lookup (store k' v (remove k d)) k = None"
  by (simp add: lookup_store lookup_remove)

lemma store_all:
  "lookup (foldl (\<lambda>d (k, v). store k v d) d kvs) k =
     (case map_of (rev kvs) k of Some v \<Rightarrow> Some v | None \<Rightarrow> lookup d k)"
proof (induction kvs arbitrary: d)
  case Nil
  show ?case by simp
next
  case (Cons p kvs)
  obtain k' v' where p: "p = (k', v')" by (cases p)
  show ?case
    by (simp add: p Cons.IH map_of_append lookup_store map_add_def split: option.split)
qed

end

interpretation obj: js_dict map_of obj_set obj_del obj_ok
  by unfold_locales (simp_all add: map_of_obj_set map_of_obj_del obj_ok_set obj_ok_del)

lemma js_get_obj_set [simp]:
  "js_get (JObj (obj_set k v kvs)) k' = (if k' = k then Some v else js_get (JObj kvs) k')"
  by (simp add: obj.lookup_store)

end
