(* ===== verification/Json.thy ===== *)
theory Json
  imports Js_Values
begin

text \<open>
  \<open>JSON.stringify\<close> (compact, and with an indentation) and \<open>JSON.parse\<close> as the consoles call them,
  and the round trip between them. The parser is a recursive descent over the text with a fuel that
  bounds its calls; \<open>json_parse\<close> gives it two calls per character, which \<open>json_roundtrip\<close> shows to
  be enough on every text the printer writes.
\<close>

section \<open>Printing\<close>

definition hex_digit :: "nat \<Rightarrow> char" where
  "hex_digit n = (if n < 10 then char_of (48 + n) else char_of (87 + n))"

definition json_esc_char :: "char \<Rightarrow> string" where
  "json_esc_char c = (let b = of_char c :: nat in
     if b = 34 then [CHR 0x5C, CHR 0x22]
     else if b = 92 then [CHR 0x5C, CHR 0x5C]
     else if b = 8 then [CHR 0x5C, CHR ''b'']
     else if b = 12 then [CHR 0x5C, CHR ''f'']
     else if b = 10 then [CHR 0x5C, CHR ''n'']
     else if b = 13 then [CHR 0x5C, CHR ''r'']
     else if b = 9 then [CHR 0x5C, CHR ''t'']
     else if b < 32 then [CHR 0x5C, CHR ''u'', CHR ''0'', CHR ''0'', hex_digit (b div 16), hex_digit (b mod 16)]
     else [c])"

definition json_quote :: "string \<Rightarrow> string" where
  "json_quote s = CHR 0x22 # concat (map json_esc_char s) @ [CHR 0x22]"

text \<open>
  The bracketed body: \<open>gap\<close> is the unit of indentation (empty for the compact form), \<open>ind\<close> the
  indentation of the enclosing line.
\<close>

definition json_wrap :: "char \<Rightarrow> char \<Rightarrow> string \<Rightarrow> string \<Rightarrow> string list \<Rightarrow> string" where
  "json_wrap l r gap ind parts =
     (if parts = [] then [l, r]
      else if gap = [] then l # js_join '','' parts @ [r]
      else l # CHR 0x0A # (ind @ gap) @ js_join (CHR '','' # CHR 0x0A # ind @ gap) parts @ CHR 0x0A # ind @ [r])"

text \<open>\<open>None\<close> is the undefined that stringify yields for undefined and functions.\<close>

fun json_enc :: "string \<Rightarrow> string \<Rightarrow> jv \<Rightarrow> string option" where
  "json_enc gap ind JUndef = None"
| "json_enc gap ind (JFun f) = None"
| "json_enc gap ind JNull = Some ''null''"
| "json_enc gap ind (JBool b) = Some (if b then ''true'' else ''false'')"
| "json_enc gap ind (JNum (Fin r)) = Some (num_str (Fin r))"
| "json_enc gap ind (JNum _) = Some ''null''"
| "json_enc gap ind (JStr s) = Some (json_quote s)"
| "json_enc gap ind (JArr vs) = Some (json_wrap (CHR ''['') (CHR '']'') gap ind
     (map (\<lambda>v. case json_enc gap (ind @ gap) v of None \<Rightarrow> ''null'' | Some t \<Rightarrow> t) vs))"
| "json_enc gap ind (JObj kvs) = Some (json_wrap (CHR ''{'') (CHR ''}'') gap ind
     (concat (map (\<lambda>(k, v). case json_enc gap (ind @ gap) v of None \<Rightarrow> []
        | Some t \<Rightarrow> [json_quote k @ (if gap = [] then '':'' else '': '') @ t]) kvs)))"

text \<open>\<open>JSON.stringify(v)\<close> and \<open>JSON.stringify(v, null, 2)\<close>.\<close>

definition json_compact :: "jv \<Rightarrow> string option" where
  "json_compact v = json_enc [] [] v"

definition json_pretty :: "jv \<Rightarrow> string option" where
  "json_pretty v = json_enc ''  '' [] v"

text \<open>Used as text, undefined is the empty text of a node, or the word when appended.\<close>

definition opt_text :: "string option \<Rightarrow> jv" where
  "opt_text t = (case t of None \<Rightarrow> JUndef | Some s \<Rightarrow> JStr s)"

section \<open>Parsing\<close>

definition is_ws :: "char \<Rightarrow> bool" where
  "is_ws c = (let b = of_char c :: nat in b = 32 \<or> b = 9 \<or> b = 10 \<or> b = 13)"

definition skip_ws :: "string \<Rightarrow> string" where
  "skip_ws s = dropWhile is_ws s"

definition starts :: "char \<Rightarrow> string \<Rightarrow> bool" where
  "starts c s = (skip_ws s \<noteq> [] \<and> hd (skip_ws s) = c)"

definition hex_val :: "char \<Rightarrow> nat option" where
  "hex_val c = (let b = of_char c :: nat in
     if 48 \<le> b \<and> b \<le> 57 then Some (b - 48)
     else if 97 \<le> b \<and> b \<le> 102 then Some (b - 87)
     else if 65 \<le> b \<and> b \<le> 70 then Some (b - 55) else None)"

definition hex4 :: "char \<Rightarrow> char \<Rightarrow> char \<Rightarrow> char \<Rightarrow> nat option" where
  "hex4 a b c d = (case (hex_val a, hex_val b, hex_val c, hex_val d) of
     (Some w, Some x, Some y, Some z) \<Rightarrow> Some (((w * 16 + x) * 16 + y) * 16 + z) | _ \<Rightarrow> None)"

definition utf8 :: "nat \<Rightarrow> string" where
  "utf8 n = (if n < 128 then [char_of n]
     else if n < 2048 then [char_of (192 + n div 64), char_of (128 + n mod 64)]
     else if n < 65536 then [char_of (224 + n div 4096), char_of (128 + n div 64 mod 64), char_of (128 + n mod 64)]
     else [char_of (240 + n div 262144), char_of (128 + n div 4096 mod 64),
           char_of (128 + n div 64 mod 64), char_of (128 + n mod 64)])"

text \<open>
  The four digits of a Unicode escape, with the second half of a surrogate pair when it follows.
\<close>

fun p_unicode :: "string \<Rightarrow> (string \<times> string) option" where
  "p_unicode (a # b # c # d # r) = (case hex4 a b c d of None \<Rightarrow> None
     | Some hi \<Rightarrow>
        (case r of
           x # y # a' # b' # c' # d' # r' \<Rightarrow>
             (case hex4 a' b' c' d' of
                Some lo \<Rightarrow> if x = CHR 0x5C \<and> y = CHR ''u'' \<and> 55296 \<le> hi \<and> hi < 56320 \<and> 56320 \<le> lo \<and> lo < 57344
                   then Some (utf8 (65536 + (hi - 55296) * 1024 + (lo - 56320)), r')
                   else Some (utf8 hi, r)
              | None \<Rightarrow> Some (utf8 hi, r))
         | _ \<Rightarrow> Some (utf8 hi, r)))"
| "p_unicode _ = None"

text \<open>One escape after the backslash: the bytes it denotes and the rest.\<close>

fun p_escape :: "string \<Rightarrow> (string \<times> string) option" where
  "p_escape (c # r) =
     (if c = CHR ''u'' then p_unicode r
      else if c = CHR 0x22 then Some ([CHR 0x22], r)
      else if c = CHR 0x5C then Some ([CHR 0x5C], r)
      else if c = CHR ''/'' then Some (''/'', r)
      else if c = CHR ''b'' then Some ([CHR 0x08], r)
      else if c = CHR ''f'' then Some ([CHR 0x0C], r)
      else if c = CHR ''n'' then Some ([CHR 0x0A], r)
      else if c = CHR ''r'' then Some ([CHR 0x0D], r)
      else if c = CHR ''t'' then Some ([CHR 0x09], r)
      else None)"
| "p_escape [] = None"

lemma p_unicode_shorter: "p_unicode s = Some (b, r) \<Longrightarrow> length r < length s"
  by (induction s rule: p_unicode.induct) (auto split: option.splits list.splits if_splits)

lemma p_escape_shorter: "p_escape s = Some (b, r) \<Longrightarrow> length r < length s"
  by (cases s) (auto split: if_splits dest: p_unicode_shorter)

function p_str :: "string \<Rightarrow> (string \<times> string) option" where
  "p_str [] = None"
| "p_str (c # r) =
     (if c = CHR 0x22 then Some ([], r)
      else if c = CHR 0x5C then
        (case p_escape r of None \<Rightarrow> None
         | Some (b, r') \<Rightarrow> map_option (\<lambda>(s, t). (b @ s, t)) (p_str r'))
      else if (of_char c :: nat) < 32 then None
      else map_option (\<lambda>(s, t). (c # s, t)) (p_str r))"
  by pat_completeness auto
termination
  by (relation "measure length") (auto dest: p_escape_shorter)

definition p_digits :: "string \<Rightarrow> string \<times> string" where
  "p_digits s = (takeWhile is_digit s, dropWhile is_digit s)"

text \<open>The exponent part: its value and the rest, \<open>None\<close> when it is malformed.\<close>

definition p_exp :: "string \<Rightarrow> (int \<times> string) option" where
  "p_exp s = (case s of
     e # r \<Rightarrow> if e = CHR ''e'' \<or> e = CHR ''E'' then
       (let (ds, r2) = p_digits (if r \<noteq> [] \<and> (hd r = CHR ''-'' \<or> hd r = CHR ''+'') then tl r else r);
            neg = (r \<noteq> [] \<and> hd r = CHR ''-'')
        in if ds = [] then None
           else Some ((if neg then - int (nat_of_digits 0 ds) else int (nat_of_digits 0 ds)), r2))
       else Some (0, s)
   | [] \<Rightarrow> Some (0, s))"

definition p_frac :: "string \<Rightarrow> (string \<times> string) option" where
  "p_frac s = (case s of
     c # r \<Rightarrow> if c = CHR ''.''
       then (let (ds, r') = p_digits r in if ds = [] then None else Some (ds, r'))
       else Some ([], s)
   | [] \<Rightarrow> Some ([], s))"

definition pow10 :: "int \<Rightarrow> rat" where
  "pow10 e = (if 0 \<le> e then 10 ^ nat e else 1 / 10 ^ nat (- e))"

definition p_num :: "string \<Rightarrow> (jv \<times> string) option" where
  "p_num s = (let neg = (s \<noteq> [] \<and> hd s = CHR ''-'');
                  (ds, r1) = p_digits (if neg then tl s else s)
     in if ds = [] \<or> (hd ds = CHR ''0'' \<and> length ds > 1) then None
        else case p_frac r1 of None \<Rightarrow> None
        | Some (fs, r2) \<Rightarrow> (case p_exp r2 of None \<Rightarrow> None
          | Some (e, r3) \<Rightarrow>
             let m = of_nat (nat_of_digits 0 (ds @ fs)) * pow10 (e - int (length fs))
             in Some (JNum (Fin (if neg then - m else m)), r3)))"

section \<open>Conversion to numbers\<close>

text \<open>The value of a literal after \<open>0x\<close>, \<open>0o\<close> or \<open>0b\<close>.\<close>

definition radix_num :: "nat \<Rightarrow> string \<Rightarrow> jnum" where
  "radix_num b s = (if s = [] \<or> list_ex (\<lambda>c. case hex_val c of None \<Rightarrow> True | Some d \<Rightarrow> b \<le> d) s then NaN
     else Fin (of_nat (foldl (\<lambda>n c. b * n + the (hex_val c)) 0 s)))"

text \<open>\<open>ToNumber\<close> of a string: the surrounding blanks are dropped, the empty string is 0.\<close>

definition str_to_num :: "string \<Rightarrow> jnum" where
  "str_to_num s0 =
     (let s = rev (skip_ws (rev (skip_ws s0)));
          neg = (s \<noteq> [] \<and> hd s = CHR ''-'');
          r = (if s \<noteq> [] \<and> (hd s = CHR ''-'' \<or> hd s = CHR ''+'') then tl s else s)
      in if s = [] then Fin 0
         else if r = ''Infinity'' then (if neg then NInf else PInf)
         else if is_prefix ''0x'' s \<or> is_prefix ''0X'' s then radix_num 16 (drop 2 s)
         else if is_prefix ''0o'' s \<or> is_prefix ''0O'' s then radix_num 8 (drop 2 s)
         else if is_prefix ''0b'' s \<or> is_prefix ''0B'' s then radix_num 2 (drop 2 s)
         else (case p_digits r of (ds, r1) \<Rightarrow>
           case (if r1 \<noteq> [] \<and> hd r1 = CHR ''.'' then p_digits (tl r1) else ([], r1)) of (fs, r2) \<Rightarrow>
           if ds = [] \<and> fs = [] then NaN
           else case p_exp r2 of
             Some (e, []) \<Rightarrow>
               (let m = of_nat (nat_of_digits 0 (ds @ fs)) * pow10 (e - int (length fs))
                in Fin (if neg then - m else m))
           | _ \<Rightarrow> NaN))"

fun to_number :: "jv \<Rightarrow> jnum" where
  "to_number JUndef = NaN"
| "to_number JNull = Fin 0"
| "to_number (JBool b) = Fin (if b then 1 else 0)"
| "to_number (JNum n) = n"
| "to_number (JStr s) = str_to_num s"
| "to_number (JArr vs) = str_to_num (js_string (JArr vs))"
| "to_number (JObj _) = NaN"
| "to_number (JFun _) = NaN"

section \<open>Values of a text\<close>

definition obj_of_members :: "(string \<times> jv) list \<Rightarrow> (string \<times> jv) list" where
  "obj_of_members ms = foldl (\<lambda>d (k, v). obj_set k v d) [] ms"

fun p_val :: "nat \<Rightarrow> string \<Rightarrow> (jv \<times> string) option"
and p_elems :: "nat \<Rightarrow> string \<Rightarrow> (jv list \<times> string) option"
and p_members :: "nat \<Rightarrow> string \<Rightarrow> ((string \<times> jv) list \<times> string) option" where
  "p_val 0 s = None"
| "p_val (Suc n) s = (case skip_ws s of [] \<Rightarrow> None
     | c # r \<Rightarrow>
        if c = CHR ''{'' then
          (if starts (CHR ''}'') r then Some (JObj [], tl (skip_ws r))
           else map_option (\<lambda>(ms, t). (JObj (obj_of_members ms), t)) (p_members n r))
        else if c = CHR ''['' then
          (if starts (CHR '']'') r then Some (JArr [], tl (skip_ws r))
           else map_option (\<lambda>(vs, t). (JArr vs, t)) (p_elems n r))
        else if c = CHR 0x22 then map_option (\<lambda>(s, t). (JStr s, t)) (p_str r)
        else if is_prefix ''true'' (c # r) then Some (JBool True, drop 4 (c # r))
        else if is_prefix ''false'' (c # r) then Some (JBool False, drop 5 (c # r))
        else if is_prefix ''null'' (c # r) then Some (JNull, drop 4 (c # r))
        else p_num (c # r))"
| "p_elems 0 s = None"
| "p_elems (Suc n) s = (case p_val n s of None \<Rightarrow> None
     | Some (v, r) \<Rightarrow>
         if starts (CHR '','') r then map_option (\<lambda>(vs, t). (v # vs, t)) (p_elems n (tl (skip_ws r)))
         else if starts (CHR '']'') r then Some ([v], tl (skip_ws r))
         else None)"
| "p_members 0 s = None"
| "p_members (Suc n) s =
     (if \<not> starts (CHR 0x22) s then None
      else case p_str (tl (skip_ws s)) of None \<Rightarrow> None
      | Some (k, r1) \<Rightarrow>
         if \<not> starts (CHR '':'') r1 then None
         else case p_val n (tl (skip_ws r1)) of None \<Rightarrow> None
         | Some (v, r) \<Rightarrow>
            if starts (CHR '','') r then map_option (\<lambda>(ms, t). ((k, v) # ms, t)) (p_members n (tl (skip_ws r)))
            else if starts (CHR ''}'') r then Some ([(k, v)], tl (skip_ws r))
            else None)"

definition json_parse :: "string \<Rightarrow> jv option" where
  "json_parse s = (case p_val (2 * length s + 2) s of
     None \<Rightarrow> None | Some (v, r) \<Rightarrow> if skip_ws r = [] then Some v else None)"

section \<open>Round trip\<close>

text \<open>
  The values of a configuration as \<open>JSON.parse\<close> yields them: no undefined or function, integral
  numbers that print without an exponent, objects in property order.
\<close>

fun json_ok :: "jv \<Rightarrow> bool" where
  "json_ok JNull = True"
| "json_ok (JBool _) = True"
| "json_ok (JNum (Fin r)) = (of_int \<lfloor>r\<rfloor> = r \<and> \<bar>r\<bar> < 10 ^ 21)"
| "json_ok (JStr _) = True"
| "json_ok (JArr vs) = list_all json_ok vs"
| "json_ok (JObj kvs) = (obj_ok kvs \<and> list_all (\<lambda>(k, v). json_ok v) kvs)"
| "json_ok _ = False"

definition ws_str :: "string \<Rightarrow> bool" where
  "ws_str w = list_all is_ws w"

text \<open>What may follow a number: not a character that would extend it.\<close>

definition ends_num :: "string \<Rightarrow> bool" where
  "ends_num r = (case r of [] \<Rightarrow> True
     | c # _ \<Rightarrow> \<not> is_digit c \<and> c \<noteq> CHR ''.'' \<and> c \<noteq> CHR ''e'' \<and> c \<noteq> CHR ''E'')"

text \<open>A text that the parser reads as \<open>v\<close>, in any whitespace and with twice its length as fuel.\<close>

definition reads_as :: "string \<Rightarrow> jv \<Rightarrow> bool" where
  "reads_as t v = (t \<noteq> [] \<and> \<not> is_ws (hd t) \<and> hd t \<notin> {CHR '']'', CHR ''}''} \<and>
     (\<forall>w rest n. ws_str w \<longrightarrow> ends_num rest \<longrightarrow> 2 * length t \<le> n \<longrightarrow>
        p_val n (w @ t @ rest) = Some (v, rest)))"

lemma is_ws_simps [simp]:
  "\<not> is_ws (CHR '','')" "\<not> is_ws (CHR '']'')" "\<not> is_ws (CHR ''}'')" "\<not> is_ws (CHR '':'')"
  "\<not> is_ws (CHR ''['')" "\<not> is_ws (CHR ''{'')" "\<not> is_ws (CHR 0x22)" "is_ws (CHR 0x0A)" "is_ws (CHR 0x20)"
  "\<not> is_ws (CHR ''t'')" "\<not> is_ws (CHR ''f'')" "\<not> is_ws (CHR ''n'')" "\<not> is_ws (CHR ''-'')"
  by (simp_all add: is_ws_def)

lemma ws_str_simps [simp]:
  "ws_str []" "ws_str (c # w) \<longleftrightarrow> is_ws c \<and> ws_str w" "ws_str (v @ w) \<longleftrightarrow> ws_str v \<and> ws_str w"
  by (auto simp: ws_str_def)

lemma skip_ws_simps [simp]:
  "skip_ws [] = []" "\<not> is_ws c \<Longrightarrow> skip_ws (c # s) = c # s" "is_ws c \<Longrightarrow> skip_ws (c # s) = skip_ws s"
  by (auto simp: skip_ws_def)

lemma skip_ws_app [simp]: "ws_str w \<Longrightarrow> skip_ws (w @ s) = skip_ws s"
  by (simp add: ws_str_def skip_ws_def dropWhile_append2 list_all_iff)

lemma skip_ws_hd: "t \<noteq> [] \<Longrightarrow> \<not> is_ws (hd t) \<Longrightarrow> skip_ws (t @ s) = t @ s"
  by (cases t) auto

lemma ends_num_simps [simp]:
  "ends_num []" "ends_num (CHR '','' # r)" "ends_num (CHR '']'' # r)" "ends_num (CHR ''}'' # r)"
  "ends_num (CHR 0x0A # r)"
  by (simp_all add: ends_num_def is_digit_def)

lemma ends_num_ws: "ws_str w \<Longrightarrow> ends_num r \<Longrightarrow> ends_num (w @ r)"
  by (cases w) (auto simp: ends_num_def is_ws_def is_digit_def Let_def)

subsection \<open>Strings\<close>

lemma hex_val_digit [simp]: "n < 16 \<Longrightarrow> hex_val (hex_digit n) = Some n"
  by (auto simp: hex_val_def hex_digit_def)

lemma p_unicode_control:
  assumes "b < 32"
  shows "p_unicode (CHR ''0'' # CHR ''0'' # hex_digit (b div 16) # hex_digit (b mod 16) # r)
    = Some ([char_of b], r)"
proof -
  have zero: "hex_val (CHR ''0'') = Some 0" by (simp add: hex_val_def)
  have "b div 16 < 16" using assms by simp
  then have "hex4 (CHR ''0'') (CHR ''0'') (hex_digit (b div 16)) (hex_digit (b mod 16)) = Some b"
    using assms by (simp add: hex4_def zero)
  then show ?thesis using assms by (simp add: utf8_def split: list.split option.split)
qed

lemma char_of_controls:
  "char_of (34 :: nat) = CHR 0x22" "char_of (92 :: nat) = CHR 0x5C" "char_of (8 :: nat) = CHR 0x08"
  "char_of (12 :: nat) = CHR 0x0C" "char_of (10 :: nat) = CHR 0x0A" "char_of (13 :: nat) = CHR 0x0D"
  "char_of (9 :: nat) = CHR 0x09"
  by code_simp+

lemma p_str_esc_char:
  "p_str (json_esc_char c @ t) = map_option (\<lambda>(s, r). (c # s, r)) (p_str t)"
proof -
  define b where "b = (of_char c :: nat)"
  have c: "c = char_of b" by (simp add: b_def)
  consider "b = 34" | "b = 92" | "b = 8" | "b = 12" | "b = 10" | "b = 13" | "b = 9"
    | "b < 32" "b \<notin> {8, 9, 10, 12, 13}" | "32 \<le> b" "b \<noteq> 34" "b \<noteq> 92" by force
  then show ?thesis
  proof cases
    case 8
    then have "json_esc_char c = [CHR 0x5C, CHR ''u'', CHR ''0'', CHR ''0'', hex_digit (b div 16), hex_digit (b mod 16)]"
      by (simp add: json_esc_char_def b_def Let_def)
    then show ?thesis using 8 by (simp add: p_unicode_control c del: p_unicode.simps)
  next
    case 9
    then have "json_esc_char c = [c]" by (simp add: json_esc_char_def b_def)
    moreover have "c \<noteq> CHR 0x22" "c \<noteq> CHR 0x5C" using 9 by (auto simp: b_def)
    moreover have "\<not> (of_char c :: nat) < 32" using 9 by (simp add: b_def)
    ultimately show ?thesis by simp
  qed (simp_all add: json_esc_char_def c char_of_controls)
qed

lemma p_str_quote: "p_str (concat (map json_esc_char s) @ CHR 0x22 # r) = Some (s, r)"
  by (induction s) (simp_all add: p_str_esc_char)

subsection \<open>Numbers\<close>

lemma p_digits_app:
  "\<forall>c \<in> set ds. is_digit c \<Longrightarrow> ends_num r \<Longrightarrow> p_digits (ds @ r) = (ds, r)"
  by (cases r) (auto simp: p_digits_def ends_num_def takeWhile_append2 dropWhile_append2)

lemma p_tail [simp]: "ends_num r \<Longrightarrow> p_frac r = Some ([], r)" "ends_num r \<Longrightarrow> p_exp r = Some (0, r)"
  by (auto simp: p_frac_def p_exp_def ends_num_def split: list.split)

lemma hd_nat_str: "hd (nat_str n) = CHR ''0'' \<Longrightarrow> n = 0"
proof (induction n rule: nat_str.induct)
  case (1 n)
  show ?case
  proof (cases "n < 10")
    case True
    with "1.prems" have "digit n = CHR ''0''" by (subst (asm) nat_str.simps) simp
    then have "of_char (digit n) = (48 :: nat)" by simp
    with True show ?thesis by simp
  next
    case False
    with "1.prems" have "hd (nat_str (n div 10)) = CHR ''0''" by (subst (asm) nat_str.simps) simp
    with False "1.IH" show ?thesis by simp
  qed
qed

lemma length_nat_str_0: "nat_str 0 = ''0''"
  by code_simp

lemma hd_nat_str_digit: "is_digit (hd (nat_str n))"
  using nat_str_digits [of n] hd_in_set [OF nat_str_nonempty] by blast

lemma p_num_nat:
  assumes "ends_num r"
  shows "p_num (nat_str n @ r) = Some (jnat n, r)"
proof -
  obtain c t where t: "nat_str n = c # t" by (cases "nat_str n") (use nat_str_nonempty in blast)+
  have "c \<noteq> CHR ''-''" using hd_nat_str_digit [of n] by (auto simp: t is_digit_def)
  moreover have "p_digits (nat_str n @ r) = (nat_str n, r)"
    using assms nat_str_digits by (intro p_digits_app) auto
  moreover have "\<not> (hd (nat_str n) = CHR ''0'' \<and> length (nat_str n) > 1)"
    using hd_nat_str [of n] by (auto simp: length_nat_str_0)
  ultimately show ?thesis
    using assms nat_of_digits_nat_str [of n]
    by (simp add: p_num_def t pow10_def Let_def)
qed

lemma p_num_int:
  assumes "ends_num r"
  shows "p_num (int_str i @ r) = Some (jint i, r)"
proof (cases "i < 0")
  case True
  have "p_digits (nat_str (nat (- i)) @ r) = (nat_str (nat (- i)), r)"
    using assms nat_str_digits by (intro p_digits_app) auto
  moreover have "\<not> (hd (nat_str (nat (- i))) = CHR ''0'' \<and> length (nat_str (nat (- i))) > 1)"
    using hd_nat_str [of "nat (- i)"] True by auto
  ultimately show ?thesis using True assms
    by (simp add: int_str_def p_num_def nat_of_digits_nat_str pow10_def Let_def)
next
  case False
  then show ?thesis using p_num_nat [OF assms, of "nat i"] by (simp add: int_str_def)
qed

subsection \<open>Values\<close>

lemma starts_simps [simp]:
  "ws_str w \<Longrightarrow> starts c (w @ s) = starts c s"
  "\<not> is_ws d \<Longrightarrow> starts c (d # s) = (d = c)"
  "is_ws d \<Longrightarrow> starts c (d # s) = starts c s"
  by (auto simp: starts_def)

lemma starts_hd: "t \<noteq> [] \<Longrightarrow> \<not> is_ws (hd t) \<Longrightarrow> starts c (t @ s) = (hd t = c)"
  by (cases t) auto

lemma reads_asI:
  assumes "t \<noteq> []" "\<not> is_ws (hd t)" "hd t \<notin> {CHR '']'', CHR ''}''}"
    and "\<And>rest n. ends_num rest \<Longrightarrow> 2 * length t \<le> Suc n \<Longrightarrow> p_val (Suc n) (t @ rest) = Some (v, rest)"
  shows "reads_as t v"
proof -
  have "p_val n (w @ t @ rest) = Some (v, rest)"
    if w: "ws_str w" and r: "ends_num rest" and le: "2 * length t \<le> n" for w rest n
  proof -
    obtain m where n: "n = Suc m" using le assms(1) by (cases n) auto
    have "p_val n (w @ t @ rest) = p_val n (t @ rest)" using w by (simp add: n)
    with assms(4) [of rest m] r le n show ?thesis by simp
  qed
  with assms(1-3) show ?thesis by (simp add: reads_as_def)
qed

lemma reads_asD:
  "reads_as t v \<Longrightarrow> ws_str w \<Longrightarrow> ends_num rest \<Longrightarrow> 2 * length t \<le> n \<Longrightarrow>
   p_val n (w @ t @ rest) = Some (v, rest)"
  by (simp add: reads_as_def)

lemma reads_as_pos: "reads_as t v \<Longrightarrow> 0 < length t"
  by (simp add: reads_as_def)

lemma reads_as_literal:
  "reads_as ''null'' JNull" "reads_as (if b then ''true'' else ''false'') (JBool b)"
  by (rule reads_asI; simp)+

lemma reads_as_string: "reads_as (json_quote s) (JStr s)"
  by (rule reads_asI) (simp_all add: json_quote_def p_str_quote)

lemma int_str_hd:
  "int_str i \<noteq> []" "hd (int_str i) = CHR ''-'' \<or> is_digit (hd (int_str i))"
  by (auto simp: int_str_def hd_nat_str_digit)

lemma digit_not_special:
  "is_digit c \<Longrightarrow> \<not> is_ws c \<and> c \<notin> {CHR '']'', CHR ''}'', CHR ''['', CHR ''{'', CHR 0x22, CHR ''t'', CHR ''f'', CHR ''n''}"
  by (auto simp: is_digit_def is_ws_def Let_def)

lemma reads_as_int: "reads_as (int_str i) (jint i)"
proof -
  obtain c t where t: "int_str i = c # t" using int_str_hd(1) [of i] by (cases "int_str i") auto
  have c: "\<not> is_ws c \<and> c \<notin> {CHR '']'', CHR ''}'', CHR ''['', CHR ''{'', CHR 0x22, CHR ''t'', CHR ''f'', CHR ''n''}"
    using int_str_hd(2) [of i] digit_not_special [of c] by (auto simp: t)
  show ?thesis
    by (rule reads_asI) (use c p_num_int [of _ i] in \<open>auto simp: t\<close>)
qed

lemma p_elems_join:
  assumes "list_all2 reads_as ts vs" "vs \<noteq> []" "ws_str w" "ws_str sep" "ws_str w'"
    and "2 * sum_list (map length ts) + 1 \<le> n"
  shows "p_elems n (w @ js_join (CHR '','' # sep) ts @ w' @ CHR '']'' # rest) = Some (vs, rest)"
  using assms
proof (induction ts arbitrary: vs w n)
  case Nil
  then show ?case by simp
next
  case (Cons t ts)
  obtain v vs' where vs: "vs = v # vs'" and tv: "reads_as t v" and tsv: "list_all2 reads_as ts vs'"
    using Cons.prems(1) by (auto simp: list_all2_Cons1)
  obtain m where n: "n = Suc m" using Cons.prems(6) by (cases n) auto
  have pos: "0 < length t" using tv by (rule reads_as_pos)
  show ?case
  proof (cases ts)
    case Nil
    with tsv have "vs' = []" by simp
    moreover have "p_val m (w @ t @ w' @ CHR '']'' # rest) = Some (v, w' @ CHR '']'' # rest)"
      using Cons.prems n Nil by (intro reads_asD [OF tv]) (auto intro: ends_num_ws)
    ultimately show ?thesis using Nil Cons.prems(5) by (simp add: n vs)
  next
    case (Cons t' ts')
    let ?r = "sep @ js_join (CHR '','' # sep) ts @ w' @ CHR '']'' # rest"
    have "p_val m (w @ t @ CHR '','' # ?r) = Some (v, CHR '','' # ?r)"
      using Cons.prems n by (intro reads_asD [OF tv]) auto
    moreover have "2 * sum_list (map length ts) + 1 \<le> m"
      using Cons.prems(6) n pos by (cases t) auto
    then have "p_elems m ?r = Some (vs', rest)"
      using Cons.prems tsv Cons by (intro Cons.IH) auto
    ultimately show ?thesis using Cons by (simp add: n vs)
  qed
qed

lemma p_members_join:
  assumes "list_all2 (\<lambda>p (k, v). \<exists>t. p = json_quote k @ CHR '':'' # cw @ t \<and> reads_as t v) ps ms"
    "ms \<noteq> []" "ws_str cw" "ws_str w" "ws_str sep" "ws_str w'"
    and "2 * sum_list (map length ps) + 1 \<le> n"
  shows "p_members n (w @ js_join (CHR '','' # sep) ps @ w' @ CHR ''}'' # rest) = Some (ms, rest)"
  using assms
proof (induction ps arbitrary: ms w n)
  case Nil
  then show ?case by simp
next
  case (Cons p ps)
  obtain k v ms' t where ms: "ms = (k, v) # ms'" and p: "p = json_quote k @ CHR '':'' # cw @ t"
    and tv: "reads_as t v"
    and psms: "list_all2 (\<lambda>p (k, v). \<exists>t. p = json_quote k @ CHR '':'' # cw @ t \<and> reads_as t v) ps ms'"
    using Cons.prems(1) by (auto simp: list_all2_Cons1)
  obtain m where n: "n = Suc m" using Cons.prems(7) by (cases n) auto
  have len: "2 * length t \<le> m" using Cons.prems(7) n by (simp add: p)
  show ?case
  proof (cases ps)
    case Nil
    with psms have "ms' = []" by simp
    moreover have "p_val m (cw @ t @ w' @ CHR ''}'' # rest) = Some (v, w' @ CHR ''}'' # rest)"
      using Cons.prems len by (intro reads_asD [OF tv]) (auto intro: ends_num_ws)
    ultimately show ?thesis using Nil Cons.prems(4,6)
      by (simp add: n ms p json_quote_def p_str_quote)
  next
    case (Cons p' ps')
    let ?r = "sep @ js_join (CHR '','' # sep) ps @ w' @ CHR ''}'' # rest"
    have "p_val m (cw @ t @ CHR '','' # ?r) = Some (v, CHR '','' # ?r)"
      using Cons.prems len by (intro reads_asD [OF tv]) auto
    moreover have "2 * sum_list (map length ps) + 1 \<le> m"
      using Cons.prems(7) n by (simp add: p)
    then have "p_members m ?r = Some (ms', rest)"
      using Cons.prems psms Cons by (intro Cons.IH) auto
    ultimately show ?thesis using Cons Cons.prems(4)
      by (simp add: n ms p json_quote_def p_str_quote)
  qed
qed

lemma sum_length_join: "sum_list (map length ts) \<le> length (js_join sep ts)"
  by (induction sep ts rule: js_join.induct) auto

lemma js_join_nonempty: "ts \<noteq> [] \<Longrightarrow> hd ts \<noteq> [] \<Longrightarrow> js_join sep ts \<noteq> [] \<and> hd (js_join sep ts) = hd (hd ts)"
  by (induction sep ts rule: js_join.induct) auto

lemma obj_insert_last:
  "\<forall>k' \<in> fst ` set kvs. \<not> key_before k k' \<Longrightarrow> obj_insert k v kvs = kvs @ [(k, v)]"
  by (induction k v kvs rule: obj_insert.induct) auto

lemma obj_of_members_ok: "obj_ok kvs \<Longrightarrow> obj_of_members kvs = kvs"
proof (induction kvs rule: rev_induct)
  case Nil
  show ?case by (simp add: obj_of_members_def)
next
  case (snoc p kvs)
  obtain k v where p: "p = (k, v)" by (cases p)
  have "obj_ok kvs" "k \<notin> fst ` set kvs" "\<forall>k' \<in> fst ` set kvs. \<not> key_before k k'"
    using snoc.prems by (auto simp: obj_ok_def p sorted_wrt_append)
  with snoc.IH show ?case
    by (simp add: obj_of_members_def p obj_set_def obj_insert_last)
qed

lemma reads_as_arr:
  assumes "list_all2 reads_as ts vs" "ws_str gap" "ws_str ind"
  shows "reads_as (json_wrap (CHR ''['') (CHR '']'') gap ind ts) (JArr vs)"
proof (cases ts)
  case Nil
  with assms(1) have "vs = []" by simp
  with Nil show ?thesis by (intro reads_asI) (auto simp: json_wrap_def)
next
  case (Cons t ts')
  let ?sep = "if gap = [] then [] else CHR 0x0A # ind @ gap"
  let ?w' = "if gap = [] then [] else CHR 0x0A # ind"
  have vs: "vs \<noteq> []" using Cons assms(1) by auto
  have wrap: "json_wrap (CHR ''['') (CHR '']'') gap ind ts =
     CHR ''['' # ?sep @ js_join (CHR '','' # ?sep) ts @ ?w' @ [CHR '']'']"
    by (simp add: json_wrap_def Cons)
  have hd: "t \<noteq> []" "\<not> is_ws (hd t)" "hd t \<noteq> CHR '']''"
    using assms(1) Cons by (auto simp: list_all2_Cons1 reads_as_def)
  then have nostart: "\<not> starts (CHR '']'') (?sep @ js_join (CHR '','' # ?sep) ts @ s)" for s
    using js_join_nonempty [of ts "CHR '','' # ?sep"] assms(2,3) by (simp add: Cons starts_hd)
  show ?thesis
  proof (rule reads_asI)
    fix rest n
    assume le: "2 * length (json_wrap (CHR ''['') (CHR '']'') gap ind ts) \<le> Suc n"
    have "2 * sum_list (map length ts) + 1 \<le> n"
      using le sum_length_join [of ts "CHR '','' # ?sep"] by (simp add: wrap)
    then have "p_elems n (?sep @ js_join (CHR '','' # ?sep) ts @ ?w' @ CHR '']'' # rest) = Some (vs, rest)"
      using assms vs by (intro p_elems_join) auto
    then show "p_val (Suc n) (json_wrap (CHR ''['') (CHR '']'') gap ind ts @ rest) = Some (JArr vs, rest)"
      using nostart [of "?w' @ CHR '']'' # rest"] by (simp add: wrap)
  qed (simp_all add: wrap)
qed

lemma reads_as_obj:
  assumes "list_all2 (\<lambda>p (k, v). \<exists>t. p = json_quote k @ CHR '':'' # cw @ t \<and> reads_as t v) ps kvs"
    and "ws_str cw" "ws_str gap" "ws_str ind" "obj_ok kvs"
  shows "reads_as (json_wrap (CHR ''{'') (CHR ''}'') gap ind ps) (JObj kvs)"
proof (cases ps)
  case Nil
  with assms(1) have "kvs = []" by simp
  with Nil show ?thesis by (intro reads_asI) (auto simp: json_wrap_def)
next
  case (Cons p ps')
  let ?sep = "if gap = [] then [] else CHR 0x0A # ind @ gap"
  let ?w' = "if gap = [] then [] else CHR 0x0A # ind"
  have kvs: "kvs \<noteq> []" using Cons assms(1) by auto
  have wrap: "json_wrap (CHR ''{'') (CHR ''}'') gap ind ps =
     CHR ''{'' # ?sep @ js_join (CHR '','' # ?sep) ps @ ?w' @ [CHR ''}'']"
    by (simp add: json_wrap_def Cons)
  have "p \<noteq> [] \<and> hd p = CHR 0x22"
    using assms(1) Cons by (auto simp: list_all2_Cons1 json_quote_def)
  then have nostart: "\<not> starts (CHR ''}'') (?sep @ js_join (CHR '','' # ?sep) ps @ s)" for s
    using js_join_nonempty [of ps "CHR '','' # ?sep"] assms(3,4) by (simp add: Cons starts_hd)
  show ?thesis
  proof (rule reads_asI)
    fix rest n
    assume le: "2 * length (json_wrap (CHR ''{'') (CHR ''}'') gap ind ps) \<le> Suc n"
    have "2 * sum_list (map length ps) + 1 \<le> n"
      using le sum_length_join [of ps "CHR '','' # ?sep"] by (simp add: wrap)
    then have "p_members n (?sep @ js_join (CHR '','' # ?sep) ps @ ?w' @ CHR ''}'' # rest) = Some (kvs, rest)"
      using assms kvs by (intro p_members_join [where cw = cw]) auto
    then show "p_val (Suc n) (json_wrap (CHR ''{'') (CHR ''}'') gap ind ps @ rest) = Some (JObj kvs, rest)"
      using nostart [of "?w' @ CHR ''}'' # rest"] obj_of_members_ok [OF assms(5)] by (simp add: wrap)
  qed (simp_all add: wrap)
qed

text \<open>Every configuration value is printed as a text that is read as that value.\<close>

lemma json_enc_reads_as:
  "json_ok v \<Longrightarrow> ws_str gap \<Longrightarrow> ws_str ind \<Longrightarrow> \<exists>t. json_enc gap ind v = Some t \<and> reads_as t v"
proof (induction gap ind v rule: json_enc.induct)
  case (5 gap ind r)
  then obtain i where "r = of_int i" by auto
  with reads_as_int [of i] 5 show ?case by simp
next
  case (8 gap ind vs)
  let ?f = "\<lambda>v. case json_enc gap (ind @ gap) v of None \<Rightarrow> ''null'' | Some t \<Rightarrow> t"
  have "reads_as (?f v) v" if "v \<in> set vs" for v
    using 8(1) [OF that] 8(2-4) that by (auto simp: list_all_iff)
  then have "list_all2 reads_as (map ?f vs) vs"
    by (simp add: list_all2_map1 list.rel_refl_strong)
  with 8 show ?case by (auto intro: reads_as_arr)
next
  case (9 gap ind kvs)
  let ?cw = "if gap = [] then [] else '' ''"
  let ?f = "\<lambda>(k, v). case json_enc gap (ind @ gap) v of None \<Rightarrow> []
        | Some t \<Rightarrow> [json_quote k @ (if gap = [] then '':'' else '': '') @ t]"
  let ?g = "\<lambda>(k, v). json_quote k @ CHR '':'' # ?cw @ the (json_enc gap (ind @ gap) v)"
  have enc: "\<exists>t. json_enc gap (ind @ gap) v = Some t \<and> reads_as t v" if "(k, v) \<in> set kvs" for k v
    using 9(1) [OF that refl] 9(2-4) that by (auto simp: list_all_iff)
  have fg: "concat (map ?f kvs) = map ?g kvs"
    using enc by (induction kvs) fastforce+
  have "list_all2 (\<lambda>p (k, v). \<exists>t. p = json_quote k @ CHR '':'' # ?cw @ t \<and> reads_as t v) (map ?g kvs) kvs"
    unfolding list_all2_map1 by (rule list.rel_refl_strong) (use enc in fastforce)
  with 9 have "reads_as (json_wrap (CHR ''{'') (CHR ''}'') gap ind (map ?g kvs)) (JObj kvs)"
    by (intro reads_as_obj [where cw = ?cw]) auto
  then show ?case by (simp only: json_enc.simps fg) blast
qed (simp_all add: reads_as_literal reads_as_string del: p_val.simps)

lemma json_parse_reads_as: "reads_as t v \<Longrightarrow> json_parse t = Some v"
  using reads_asD [of t v "[]" "[]" "2 * length t + 2"] by (simp add: json_parse_def)

text \<open>\<open>JSON.parse(JSON.stringify(v))\<close> and \<open>JSON.parse(JSON.stringify(v, null, 2))\<close> are \<open>v\<close>.\<close>

lemma json_compact_parse: "json_ok v \<Longrightarrow> \<exists>t. json_compact v = Some t \<and> json_parse t = Some v"
  using json_enc_reads_as [of v "[]" "[]"] json_parse_reads_as by (auto simp: json_compact_def)

lemma json_pretty_parse: "json_ok v \<Longrightarrow> \<exists>t. json_pretty v = Some t \<and> json_parse t = Some v"
  using json_enc_reads_as [of v "''  ''" "[]"] json_parse_reads_as by (auto simp: json_pretty_def)

end
