(* ===== verification/Console_Chart.thy ===== *)
theory Console_Chart
  imports Json
begin

text \<open>
  The live-latency sparkline of the console: the rolling window \<open>liveState.history\<close> and
  \<open>drawLatencyChart\<close>, which is modelled by the list of canvas calls it makes, in order.
\<close>

section \<open>The window of samples\<close>

record point =
  p50 :: jv
  p95 :: jv
  p99 :: jv
  ts :: int

definition maxPoints :: nat where
  "maxPoints = 60"

definition push_point :: "point \<Rightarrow> point list \<Rightarrow> point list" where
  "push_point p history =
     (let h = history @ [p] in if length h > maxPoints then tl h else h)"

section \<open>Canvas calls\<close>

datatype cmd =
    ClearRect rat rat rat rat
  | FillStyle string
  | Font string
  | FillText string rat rat
  | StrokeStyle string
  | LineWidth rat
  | BeginPath
  | MoveTo jnum jnum
  | LineTo jnum jnum
  | Stroke
  | FillRect rat rat rat rat

definition series :: "(string \<times> string \<times> string) list" where
  "series = [(''p50'', ''#3fb950'', ''p50''), (''p95'', ''#d29922'', ''p95''), (''p99'', ''#f85149'', ''p99'')]"

text \<open>\<open>p[s.key]\<close>.\<close>

definition sample :: "string \<Rightarrow> point \<Rightarrow> jv" where
  "sample key p = (if key = ''p50'' then p50 p else if key = ''p95'' then p95 p
     else if key = ''p99'' then p99 p else JUndef)"

definition max_val :: "point list \<Rightarrow> jnum" where
  "max_val history =
     (let m = foldl (\<lambda>m p. num_max (num_max (num_max m (to_number (p99 p))) (to_number (p95 p))) (to_number (p50 p)))
              (Fin 0) history
      in if m = Fin 0 then Fin 1 else m)"

definition chart_padding :: rat where
  "chart_padding = 10"

definition chart_x :: "rat \<Rightarrow> nat \<Rightarrow> nat \<Rightarrow> rat" where
  "chart_x w n i = chart_padding + ((w - chart_padding * 2) / of_nat (n - 1)) * of_nat i"

definition chart_y :: "rat \<Rightarrow> jnum \<Rightarrow> jv \<Rightarrow> jnum" where
  "chart_y h m v = (let chartH = h - chart_padding * 2 in
     num_sub_from (chart_padding + chartH) (num_scale (num_div (to_number v) m) chartH))"

definition grid_lines :: "rat \<Rightarrow> rat \<Rightarrow> cmd list" where
  "grid_lines w h = [StrokeStyle ''#30363d'', LineWidth 1] @
     concat (map (\<lambda>i. let y = chart_padding + ((h - chart_padding * 2) / 4) * of_nat i in
       [BeginPath, MoveTo (Fin chart_padding) (Fin y), LineTo (Fin (w - chart_padding)) (Fin y), Stroke]) [0..<5])"

definition polyline :: "rat \<Rightarrow> rat \<Rightarrow> jnum \<Rightarrow> string \<Rightarrow> point list \<Rightarrow> cmd list" where
  "polyline w h m key history =
     map (\<lambda>(i, p). let x = Fin (chart_x w (length history) i); y = chart_y h m (sample key p) in
       if i = 0 then MoveTo x y else LineTo x y) (enumerate 0 history)"

definition legend :: "rat \<Rightarrow> cmd list" where
  "legend w = Font ''12px sans-serif'' #
     concat (map (\<lambda>(i, (key, color, label)).
       [FillStyle color, FillRect (w - 120) (5 + of_nat i * 18) 12 12,
        FillStyle ''#c9d1d9'', FillText label (w - 120 + 18) (14 + of_nat i * 18)]) (enumerate 0 series))"

definition drawLatencyChart :: "rat \<Rightarrow> rat \<Rightarrow> point list \<Rightarrow> cmd list" where
  "drawLatencyChart w h history =
     (if length history < 2
      then [ClearRect 0 0 w h, FillStyle ''#8b949e'', Font ''14px sans-serif'',
            FillText ''Collecting data...'' 10 (h / 2)]
      else [ClearRect 0 0 w h] @ grid_lines w h @
           concat (map (\<lambda>(key, color, label).
             [StrokeStyle color, LineWidth 2, BeginPath] @ polyline w h (max_val history) key history @ [Stroke]) series) @
           legend w)"

section \<open>The window keeps the most recent samples\<close>

text \<open>
  A bounded window: \<open>push\<close> appends and drops the oldest entry when the capacity is exceeded. Whatever
  is pushed, the window holds the last \<open>cap\<close> entries in order.
\<close>

locale bounded_window =
  fixes push :: "'p \<Rightarrow> 'p list \<Rightarrow> 'p list" and cap :: nat
  assumes push_small: "length h < cap \<Longrightarrow> push p h = h @ [p]"
    and push_full: "length h = cap \<Longrightarrow> push p h = tl h @ [p]"
    and cap_pos: "0 < cap"
begin

lemma push_length: "length h \<le> cap \<Longrightarrow> length (push p h) = min cap (Suc (length h))"
  using cap_pos by (cases "length h = cap") (auto simp: push_small push_full)

lemma push_suffix:
  assumes "h = drop (length ps - cap) ps"
  shows "push p h = drop (length (ps @ [p]) - cap) (ps @ [p])"
proof (cases "length ps < cap")
  case True
  with assms show ?thesis by (simp add: push_small)
next
  case False
  then have "length h = cap" using assms by simp
  then have "push p h = tl h @ [p]" by (rule push_full)
  also have "tl h = drop (Suc (length ps) - cap) ps"
    using assms False by (simp add: drop_Suc tl_drop Suc_diff_le)
  finally show ?thesis using False cap_pos by simp
qed

lemma pushes_suffix: "foldl (\<lambda>h p. push p h) [] ps = drop (length ps - cap) ps"
  by (induction ps rule: rev_induct) (simp_all only: foldl_append foldl.simps push_suffix, simp)

end

interpretation live: bounded_window push_point maxPoints
  by unfold_locales (auto simp: push_point_def maxPoints_def Let_def tl_append split: list.split)

section \<open>The curve stays inside the plot\<close>

definition plottable :: "point \<Rightarrow> bool" where
  "plottable p = (\<forall>v \<in> {p50 p, p95 p, p99 p}. \<exists>r. to_number v = Fin r \<and> 0 \<le> r)"

lemma num_max_nonneg:
  "0 \<le> a \<Longrightarrow> 0 \<le> b \<Longrightarrow> num_max (Fin a) (Fin b) = Fin (max a b)"
  by simp

lemma max_fold_bound:
  assumes "\<forall>p \<in> set ps. plottable p" "0 \<le> a"
  shows "\<exists>m. foldl (\<lambda>m p. num_max (num_max (num_max m (to_number (p99 p))) (to_number (p95 p))) (to_number (p50 p)))
            (Fin a) ps = Fin m \<and> a \<le> m \<and>
         (\<forall>p \<in> set ps. \<forall>key \<in> {''p50'', ''p95'', ''p99''}. \<forall>r. to_number (sample key p) = Fin r \<longrightarrow> r \<le> m)"
  using assms
proof (induction ps arbitrary: a)
  case Nil
  then show ?case by simp
next
  case (Cons p ps)
  obtain x y z where v: "to_number (p50 p) = Fin x" "to_number (p95 p) = Fin y" "to_number (p99 p) = Fin z"
    using Cons.prems(1) by (auto simp: plottable_def)
  let ?a = "max (max (max a z) y) x"
  have "0 \<le> ?a" using Cons.prems(2) by simp
  then obtain m where "foldl (\<lambda>m p. num_max (num_max (num_max m (to_number (p99 p))) (to_number (p95 p))) (to_number (p50 p)))
            (Fin ?a) ps = Fin m" "?a \<le> m"
     "\<forall>p \<in> set ps. \<forall>key \<in> {''p50'', ''p95'', ''p99''}. \<forall>r. to_number (sample key p) = Fin r \<longrightarrow> r \<le> m"
    using Cons.IH [of ?a] Cons.prems(1) by auto
  then show ?case by (intro exI [of _ m]) (auto simp: v sample_def)
qed

text \<open>The scale is positive and bounds every sample.\<close>

lemma max_val_bound:
  assumes "\<forall>p \<in> set ps. plottable p"
  obtains m where "max_val ps = Fin m" "0 < m"
    "\<And>p key r. p \<in> set ps \<Longrightarrow> key \<in> {''p50'', ''p95'', ''p99''} \<Longrightarrow> to_number (sample key p) = Fin r \<Longrightarrow> r \<le> m"
proof -
  from max_fold_bound [OF assms, of 0] obtain m where
    m: "foldl (\<lambda>m p. num_max (num_max (num_max m (to_number (p99 p))) (to_number (p95 p))) (to_number (p50 p)))
            (Fin 0) ps = Fin m" "0 \<le> m"
    and b: "\<forall>p \<in> set ps. \<forall>key \<in> {''p50'', ''p95'', ''p99''}. \<forall>r. to_number (sample key p) = Fin r \<longrightarrow> r \<le> m"
    by auto
  show ?thesis
  proof (cases "m = 0")
    case True
    show ?thesis by (rule that [of 1]) (use m b True in \<open>force simp: max_val_def\<close>)+
  next
    case False
    show ?thesis by (rule that [of m]) (use m b False in \<open>auto simp: max_val_def Let_def\<close>)
  qed
qed

lemma chart_y_in:
  assumes "to_number v = Fin r" "0 \<le> r" "r \<le> m" "0 < m" "20 \<le> h"
  shows "\<exists>y. chart_y h (Fin m) v = Fin y \<and> chart_padding \<le> y \<and> y \<le> h - chart_padding"
proof -
  let ?q = "r / m * (h - 20)"
  have "r / m \<le> 1" using assms by simp
  then have "?q \<le> 1 * (h - 20)" using assms(5) by (intro mult_right_mono) auto
  moreover have "0 \<le> ?q" using assms by simp
  ultimately show ?thesis using assms(1,4) by (simp add: chart_y_def Let_def chart_padding_def)
qed

lemma chart_x_in:
  assumes "2 \<le> n" "i < n" "20 \<le> w"
  shows "chart_padding \<le> chart_x w n i \<and> chart_x w n i \<le> w - chart_padding"
proof -
  have "of_nat i / of_nat (n - 1) \<le> (1 :: rat)" using assms(1,2) by (simp add: divide_le_eq_1)
  then have "(w - 20) * (of_nat i / of_nat (n - 1)) \<le> (w - 20) * 1"
    using assms(3) by (intro mult_left_mono) auto
  then show ?thesis using assms by (simp add: chart_x_def chart_padding_def)
qed

text \<open>
  C40. Whatever the sampled latencies, as long as they are numbers and none is negative, every vertex
  of the three latency curves that \<open>drawLatencyChart\<close> plots lies inside the padded plot area of the
  canvas.
\<close>

theorem chart_in_plot_area:
  assumes "\<forall>p \<in> set history. plottable p" and "2 \<le> length history" and "20 \<le> w" and "20 \<le> h"
    and "(key, color, label) \<in> set series"
    and "c \<in> set (polyline w h (max_val history) key history)"
  shows "c \<in> set (drawLatencyChart w h history) \<and>
    (\<exists>x y. (c = MoveTo (Fin x) (Fin y) \<or> c = LineTo (Fin x) (Fin y)) \<and>
       chart_padding \<le> x \<and> x \<le> w - chart_padding \<and> chart_padding \<le> y \<and> y \<le> h - chart_padding)"
proof -
  obtain m where m: "max_val history = Fin m" "0 < m"
    and b: "\<And>p key r. p \<in> set history \<Longrightarrow> key \<in> {''p50'', ''p95'', ''p99''} \<Longrightarrow>
         to_number (sample key p) = Fin r \<Longrightarrow> r \<le> m"
    using max_val_bound [OF assms(1)] by blast
  have key: "key \<in> {''p50'', ''p95'', ''p99''}" using assms(5) by (auto simp: series_def)
  obtain i where i: "i < length history"
    and c: "c = (let x = Fin (chart_x w (length history) i); y = chart_y h (Fin m) (sample key (history ! i)) in
              if i = 0 then MoveTo x y else LineTo x y)"
    using assms(6) by (auto simp: polyline_def m(1) in_set_enumerate_eq)
  have p: "history ! i \<in> set history" using i by simp
  then obtain r where r: "to_number (sample key (history ! i)) = Fin r" "0 \<le> r"
    using assms(1) key by (fastforce simp: plottable_def sample_def)
  have mem: "c \<in> set (drawLatencyChart w h history)"
    using assms(2,5,6) by (fastforce simp: drawLatencyChart_def)
  obtain y where y: "chart_y h (Fin m) (sample key (history ! i)) = Fin y"
      "chart_padding \<le> y" "y \<le> h - chart_padding"
    using chart_y_in [OF r b [OF p key r(1)] m(2) assms(4)] by blast
  from chart_x_in [OF assms(2) i assms(3)] y mem show ?thesis
    by (auto simp: c Let_def)
qed

theorem chart_in_plot_area_witness:
  "let p = \<lparr>p50 = jint 3, p95 = jint 8, p99 = jint 20, ts = 0\<rparr>; h = [p, p\<lparr>p99 := jint 40\<rparr>];
       c = hd (polyline 800 200 (max_val h) ''p95'' h) in
     c \<in> set (drawLatencyChart 800 200 h) \<and>
     (\<exists>x y. (c = MoveTo (Fin x) (Fin y) \<or> c = LineTo (Fin x) (Fin y)) \<and>
        chart_padding \<le> x \<and> x \<le> 800 - chart_padding \<and> chart_padding \<le> y \<and> y \<le> 200 - chart_padding)"
proof -
  let ?p = "\<lparr>p50 = jint 3, p95 = jint 8, p99 = jint 20, ts = 0\<rparr>"
  let ?h = "[?p, ?p\<lparr>p99 := jint 40\<rparr>]"
  let ?l = "polyline 800 200 (max_val ?h) ''p95'' ?h"
  have "hd ?l \<in> set ?l" by (rule hd_in_set) (simp add: polyline_def)
  moreover have "(''p95'', ''#d29922'', ''p95'') \<in> set series" by (simp add: series_def)
  moreover have "\<forall>p \<in> set ?h. plottable p" by (simp add: plottable_def)
  ultimately show ?thesis
    using chart_in_plot_area [of ?h 800 200 "''p95''" "''#d29922''" "''p95''" "hd ?l"] by (simp add: Let_def)
qed

end
