(* ===== verification/Dom.thy ===== *)
theory Dom
  imports Json Console_Chart
begin

text \<open>
  The document model and the element builders of the admin console (\<open>crates/dwara-console/static/app.js\<close>).
  A node that the code builds and appends once is a value of type \<open>dom\<close>; a node that is kept in a
  variable and written later is a container, a \<open>Ref\<close> into the list of containers of the page. A
  canvas carries the calls that drew it.
  Type variable \<open>'a\<close> is the type of click listeners.
\<close>

section \<open>Nodes\<close>

datatype 'a dom =
    Text string
  | Elem string "(string \<times> string) list" "'a dom list" "'a list"
  | Canvas "(string \<times> string) list" "cmd list"
  | Ref nat

record 'a cnode =
  ctag :: string
  cattrs :: "(string \<times> string) list"
  ckids :: "'a dom list"
  cvalue :: string

text \<open>\<open>textContent = t\<close>: one text node, none for the empty text.\<close>

definition text_kids :: "string \<Rightarrow> 'a dom list" where
  "text_kids t = (if t = [] then [] else [Text t])"

text \<open>
  The attributes that \<open>el\<close> sets: \<open>class\<close> through \<open>className\<close>, every other key but \<open>text\<close> through
  \<open>setAttribute\<close>; both convert the value to a string.
\<close>

definition el_attrs :: "(string \<times> jv) list \<Rightarrow> (string \<times> string) list" where
  "el_attrs attrs = map (\<lambda>(k, v). (k, js_string v)) (filter (\<lambda>p. fst p \<noteq> ''text'') attrs)"

definition el_text :: "(string \<times> jv) list \<Rightarrow> 'a dom list" where
  "el_text attrs = (case map_of attrs ''text'' of None \<Rightarrow> [] | Some v \<Rightarrow> text_kids (text_of v))"

text \<open>\<open>el(tag, attrs, children)\<close> for a list of child nodes (or none).\<close>

definition el :: "string \<Rightarrow> (string \<times> jv) list \<Rightarrow> 'a dom list \<Rightarrow> 'a dom" where
  "el tag attrs children = Elem tag (el_attrs attrs) (el_text attrs @ children) []"

text \<open>
  \<open>el(tag, attrs, v)\<close> for a computed child: a non-empty string becomes the text; a falsy value is
  skipped; any other value is no node, and \<open>appendChild\<close> throws (for an array, at its first truthy
  element).
\<close>

fun el_val :: "string \<Rightarrow> (string \<times> jv) list \<Rightarrow> jv \<Rightarrow> 'a dom option" where
  "el_val tag attrs (JStr s) =
     Some (if s = [] then el tag attrs [] else Elem tag (el_attrs attrs) [Text s] [])"
| "el_val tag attrs (JArr vs) = (if list_ex truthy vs then None else Some (el tag attrs []))"
| "el_val tag attrs v = (if truthy v then None else Some (el tag attrs []))"

text \<open>\<open>node.addEventListener('click', f)\<close> on a node just built.\<close>

fun on_click :: "'a dom \<Rightarrow> 'a \<Rightarrow> 'a dom" where
  "on_click (Elem t as ks ls) a = Elem t as ks (ls @ [a])"
| "on_click d a = d"

definition text_el :: "string \<Rightarrow> string \<Rightarrow> string \<Rightarrow> 'a dom" where
  "text_el tag cls t = el tag [(''class'', JStr cls), (''text'', JStr t)] []"

definition card :: "string \<Rightarrow> 'a dom \<Rightarrow> 'a option \<Rightarrow> 'a dom" where
  "card title bodyNode refreshHandler =
     (let header = el ''div'' [] ([el ''h2'' [(''text'', JStr title)] []] @
            (case refreshHandler of None \<Rightarrow> []
             | Some f \<Rightarrow> [on_click (text_el ''button'' ''refresh-btn'' ''Refresh'') f]))
      in el ''div'' [(''class'', JStr ''card'')] [header, bodyNode])"

definition makeStat :: "string \<Rightarrow> jv \<Rightarrow> 'a dom" where
  "makeStat label value = el ''div'' [(''class'', JStr ''stat'')]
     [text_el ''div'' ''stat-label'' label,
      text_el ''div'' ''stat-value'' (js_string value)]"

definition error_el :: "string \<Rightarrow> 'a dom" where
  "error_el msg = text_el ''div'' ''error-msg'' msg"

definition loading_el :: "'a dom" where
  "loading_el = text_el ''div'' ''stat-label'' ''Loading...''"

text \<open>Cells and tables as the views build them.\<close>

definition td_text :: "jv \<Rightarrow> 'a dom" where
  "td_text v = el ''td'' [(''text'', v)] []"

definition head_row :: "string list \<Rightarrow> 'a dom" where
  "head_row labels = el ''thead'' [] [el ''tr'' [] (map (\<lambda>l. el ''th'' [(''text'', JStr l)] []) labels)]"

definition table_el :: "string list \<Rightarrow> 'a dom list \<Rightarrow> 'a dom" where
  "table_el labels rows = el ''table'' [] [head_row labels, el ''tbody'' [] rows]"

section \<open>Reading a tree\<close>

fun refs :: "'a dom \<Rightarrow> nat list" where
  "refs (Text t) = []"
| "refs (Elem t as ks ls) = concat (map refs ks)"
| "refs (Canvas as cs) = []"
| "refs (Ref i) = [i]"

fun listeners :: "'a dom \<Rightarrow> 'a list" where
  "listeners (Text t) = []"
| "listeners (Elem t as ks ls) = ls @ concat (map listeners ks)"
| "listeners (Canvas as cs) = []"
| "listeners (Ref i) = []"

text \<open>The text of a tree, in document order.\<close>

fun texts :: "'a dom \<Rightarrow> string list" where
  "texts (Text t) = [t]"
| "texts (Elem t as ks ls) = concat (map texts ks)"
| "texts (Canvas as cs) = []"
| "texts (Ref i) = []"

fun has_class :: "string \<Rightarrow> 'a dom \<Rightarrow> bool" where
  "has_class c (Elem t as ks ls) =
     (case map_of as ''class'' of None \<Rightarrow> False | Some cls \<Rightarrow> c \<in> set (split_on (CHR '' '') cls))"
| "has_class c d = False"

text \<open>
  \<open>container.querySelector('.c')\<close> followed by \<open>remove()\<close>: the first element of that class, in
  document order.
\<close>

fun remove_first :: "string \<Rightarrow> 'a dom list \<Rightarrow> 'a dom list \<times> bool" where
  "remove_first c [] = ([], False)"
| "remove_first c (Elem t as ks ls # ds) =
     (if has_class c (Elem t as ks ls) then (ds, True)
      else case remove_first c ks of
        (ks', True) \<Rightarrow> (Elem t as ks' ls # ds, True)
      | (_, False) \<Rightarrow> (case remove_first c ds of (ds', b) \<Rightarrow> (Elem t as ks ls # ds', b)))"
| "remove_first c (d # ds) = (case remove_first c ds of (ds', b) \<Rightarrow> (d # ds', b))"

section \<open>Laws\<close>

lemma refs_el [simp]: "refs (el tag attrs ks) = concat (map refs ks)"
  by (auto simp: el_def el_text_def text_kids_def split: option.split)

lemma listeners_el [simp]: "listeners (el tag attrs ks) = concat (map listeners ks)"
  by (auto simp: el_def el_text_def text_kids_def split: option.split)

lemma texts_el:
  "texts (el tag attrs ks) =
     (case map_of attrs ''text'' of None \<Rightarrow> [] | Some v \<Rightarrow> if text_of v = [] then [] else [text_of v])
     @ concat (map texts ks)"
  by (simp add: el_def el_text_def text_kids_def split: option.split)

lemma refs_text_el [simp]: "refs (text_el tag cls t) = []"
  and listeners_text_el [simp]: "listeners (text_el tag cls t) = []"
  by (simp_all add: text_el_def)

lemma texts_text_el [simp]: "texts (text_el tag cls t) = (if t = [] then [] else [t])"
  by (simp add: text_el_def texts_el text_of_def nullish_def)

lemma refs_on_click [simp]: "refs (on_click d a) = refs d"
  by (cases d) auto

lemma listeners_on_click:
  "set (listeners (on_click (el tag attrs ks) a)) = insert a (set (listeners (el tag attrs ks)))"
  by (auto simp: el_def)

lemma listeners_button [simp]: "set (listeners (on_click (text_el t c s) a)) = {a}"
  by (simp add: text_el_def listeners_on_click)

lemma refs_card [simp]: "refs (card title d h) = refs d"
  by (cases h) (simp_all add: card_def Let_def)

lemma listeners_card [simp]:
  "set (listeners (card title d h)) = set_option h \<union> set (listeners d)"
  by (auto simp: card_def Let_def split: option.split)

lemma refs_parts [simp]:
  "refs (makeStat l v) = []" "refs (error_el m) = []" "refs loading_el = []" "refs (td_text v) = []"
  "refs (head_row ls) = []" "refs (table_el ls rows) = concat (map refs rows)"
  by (simp_all add: makeStat_def error_el_def loading_el_def td_text_def head_row_def table_el_def o_def)

lemma listeners_parts [simp]:
  "listeners (makeStat l v) = []" "listeners (error_el m) = []" "listeners loading_el = []"
  "listeners (td_text v) = []" "listeners (head_row ls) = []"
  "listeners (table_el ls rows) = concat (map listeners rows)"
  by (simp_all add: makeStat_def error_el_def loading_el_def td_text_def head_row_def table_el_def o_def)

lemma refs_el_val: "el_val tag attrs v = Some d \<Longrightarrow> refs d = []"
  by (induction tag attrs v rule: el_val.induct) (auto split: if_splits)

lemma remove_first_refs:
  "d \<in> set (fst (remove_first c ds)) \<Longrightarrow> i \<in> set (refs d) \<Longrightarrow> \<exists>d' \<in> set ds. i \<in> set (refs d')"
proof (induction c ds arbitrary: d rule: remove_first.induct)
  case (2 c t as ks ls ds)
  then show ?case by (fastforce split: prod.splits bool.splits if_splits)
qed (fastforce split: prod.splits)+

text \<open>\<open>showCrudError\<close> removes at most one node: at most one error stays behind per call.\<close>

lemma remove_first_found: "snd (remove_first c ds) = False \<Longrightarrow> fst (remove_first c ds) = ds"
proof (induction c ds rule: remove_first.induct)
  case (2 c t as ks ls ds)
  then show ?case by (auto split: prod.splits bool.splits if_splits)
qed (auto split: prod.splits)

end
