(* ===== verification/Console_State.thy ===== *)
theory Console_State
  imports Dom
begin

text \<open>
  The state of the admin console (\<open>crates/dwara-console/static/app.js\<close> in the page of
  \<open>static/index.html\<close>) and its elementary effects. The closures that the code hands to
  \<open>addEventListener\<close> and to \<open>then\<close>/\<open>catch\<close> are data: \<open>action\<close> names a click listener with the
  variables it captures, \<open>cont\<close> the callbacks of a promise. A callback body is a list of effects,
  \<open>None\<close> where its expression throws.
\<close>

section \<open>Closures\<close>

type_synonym nid = nat
type_synonym columns = "(string \<times> string) list"

text \<open>The render functions of the console.\<close>

datatype view_fn =
    ROverview | RLive | RRoutes | RUpstreams | RHealth | RAnalytics | RAiOps | RFleet | RConfig | REditor
  | RRoutesCrud | RUpstreamsCrud | RServicesCrud | RConsumersCrud | RPoliciesCrud

text \<open>The variables a CRUD view captures: entity name, label, columns and the table container.\<close>

record crud =
  entityName :: string
  entityLabel :: string
  columns :: columns
  tableWrap :: nid

datatype action =
    ARender view_fn
  | ACrudRefresh string string columns
  | AValidate nid nid
  | APublish nid nid
  | AReset nid nid
  | ACreate crud
  | AEdit crud jv
  | ADelete crud jv
  | ACancel nid
  | ACreateSave crud nid nid nid
  | AEditSave crud jv nid nid nid

datatype cont =
    KOverview nid
  | KRoutes nid
  | KUpstreams nid
  | KHealth nid
  | KAnalytics nid
  | KConfig nid
  | KFleet nid
  | KEditorLoad nid
  | KValidate nid
  | KPublish nid string
  | KReset nid nid
  | KLive nid
  | KAiOps nid
  | KCrudLoad crud
  | KDelete crud
  | KCreate crud nid nid
  | KSave crud nid nid
  | KWorkspaces

section \<open>Requests and responses\<close>

text \<open>
  How a response becomes the value of the promise: \<open>fetchJSON\<close>, \<open>fetchText\<close>, the editor's
  \<open>{status, data}\<close> and \<open>sendJSON\<close>'s \<open>{status, data, ok}\<close>.
\<close>

datatype mode = MJson | MText | MStatus | MSend

record request =
  rmode :: mode
  rmethod :: string
  rpath :: string
  rbody :: "string option"
  rfallback :: bool

text \<open>
  What the network answers: a failure with the engine's message, or a status with the body as text
  and as \<open>resp.json()\<close> reads it (\<open>Inl\<close>: the message of the syntax error).
\<close>

datatype outcome = NetFail string | Response nat string "string + jv"

definition resp_ok :: "nat \<Rightarrow> bool" where
  "resp_ok st = (200 \<le> st \<and> st \<le> 299)"

definition http_error :: "nat \<Rightarrow> string \<Rightarrow> string" where
  "http_error st path = ''HTTP '' @ nat_str st @ '' for '' @ path"

definition fetchJSON :: "string \<Rightarrow> outcome \<Rightarrow> string + jv" where
  "fetchJSON path out = (case out of NetFail m \<Rightarrow> Inl m
     | Response st txt js \<Rightarrow> if \<not> resp_ok st then Inl (http_error st path) else js)"

definition fetchText :: "string \<Rightarrow> outcome \<Rightarrow> string + jv" where
  "fetchText path out = (case out of NetFail m \<Rightarrow> Inl m
     | Response st txt js \<Rightarrow> if \<not> resp_ok st then Inl (http_error st path) else Inr (JStr txt))"

definition status_data :: "outcome \<Rightarrow> string + jv" where
  "status_data out = (case out of NetFail m \<Rightarrow> Inl m
     | Response st txt js \<Rightarrow> (case js of Inl m \<Rightarrow> Inl m
        | Inr d \<Rightarrow> Inr (JObj [(''status'', jnat st), (''data'', d)])))"

definition sendJSON_result :: "outcome \<Rightarrow> string + jv" where
  "sendJSON_result out = (case out of NetFail m \<Rightarrow> Inl m
     | Response st txt js \<Rightarrow> (case js of Inl m \<Rightarrow> Inl m
        | Inr d \<Rightarrow> Inr (JObj [(''status'', jnat st), (''data'', d), (''ok'', JBool (resp_ok st))])))"

text \<open>
  The settled value of one request; \<open>rfallback\<close> is the inner \<open>.catch(function () { return {}; })\<close>.
\<close>

definition settle :: "request \<Rightarrow> outcome \<Rightarrow> string + jv" where
  "settle r out =
     (let res = (case rmode r of MJson \<Rightarrow> fetchJSON (rpath r) out | MText \<Rightarrow> fetchText (rpath r) out
                 | MStatus \<Rightarrow> status_data out | MSend \<Rightarrow> sendJSON_result out)
      in case res of Inr v \<Rightarrow> Inr v | Inl m \<Rightarrow> if rfallback r then Inr (JObj []) else Inl m)"

definition get_json :: "string \<Rightarrow> request" where
  "get_json path = \<lparr>rmode = MJson, rmethod = ''GET'', rpath = path, rbody = None, rfallback = False\<rparr>"

definition get_json_or_empty :: "string \<Rightarrow> request" where
  "get_json_or_empty path = (get_json path)\<lparr>rfallback := True\<rparr>"

definition get_text :: "string \<Rightarrow> request" where
  "get_text path = \<lparr>rmode = MText, rmethod = ''GET'', rpath = path, rbody = None, rfallback = False\<rparr>"

definition send_yaml :: "string \<Rightarrow> string \<Rightarrow> string \<Rightarrow> request" where
  "send_yaml method path body =
     \<lparr>rmode = MStatus, rmethod = method, rpath = path, rbody = Some body, rfallback = False\<rparr>"

text \<open>\<open>sendJSON(method, path, body)\<close>: a falsy body is sent as none.\<close>

definition sendJSON :: "string \<Rightarrow> string \<Rightarrow> jv \<Rightarrow> request" where
  "sendJSON method path body =
     \<lparr>rmode = MSend, rmethod = method, rpath = path,
      rbody = (if truthy body then json_compact body else None), rfallback = False\<rparr>"

section \<open>The page and the variables of the script\<close>

text \<open>A promise in flight: its requests (one, or those of \<open>Promise.all\<close>), the values so far.\<close>

record pend =
  pid :: nat
  preqs :: "request list"
  pgot :: "jv option list"
  pcont :: cont

record console =
  nodes :: "action cnode list"
  content :: "action dom list"
  overlays :: "nid list"
  badge :: string
  lastRefresh :: "int option"
  navActive :: "string list"
  switcher :: "(string \<times> string) list"
  switchVal :: string
  currentView :: string
  refreshTimer :: "nat option"
  timers :: "nat list"
  nextTimer :: nat
  editorYaml :: string
  editorDirty :: bool
  history :: "point list"
  now :: int
  pending :: "pend list"
  nextPid :: nat
  sent :: "request list"
  exnMsg :: string
  syntaxMsg :: string

text \<open>The buttons of \<open>#nav\<close> and the \<open>views\<close> table.\<close>

definition nav_views :: "string list" where
  "nav_views = [''overview'', ''live'', ''routes'', ''upstreams'', ''health'', ''analytics'', ''aiops'',
     ''fleet'', ''config'', ''editor'']"

definition views :: "string \<Rightarrow> view_fn option" where
  "views v = map_of [(''overview'', ROverview), (''live'', RLive), (''routes'', RRoutesCrud),
     (''upstreams'', RUpstreamsCrud), (''health'', RHealth), (''analytics'', RAnalytics),
     (''aiops'', RAiOps), (''fleet'', RFleet), (''config'', RConfig), (''editor'', REditor)] v"

section \<open>Effects\<close>

datatype eff =
    NewNode string "(string \<times> string) list" string
  | ClearContent
  | AppendContent "action dom"
  | Append nid "action dom"
  | ClearKids nid
  | SetText nid string
  | SetValue nid string
  | CrudError nid string
  | AppendBody nid
  | RemoveBody nid
  | ShowBadge string
  | MarkRefreshed
  | EditorLoaded string
  | PushPoint jv jv jv
  | AppendChart nid
  | ClearSwitcher
  | AddOption string string
  | Fetch "request list" cont

definition upd_node :: "nid \<Rightarrow> (action cnode \<Rightarrow> action cnode) \<Rightarrow> console \<Rightarrow> console" where
  "upd_node i f c = (if i < length (nodes c) then c\<lparr>nodes := (nodes c)[i := f (nodes c ! i)]\<rparr> else c)"

text \<open>The canvas of the live view after it has been drawn, in its card.\<close>

definition chart_card :: "point list \<Rightarrow> action dom" where
  "chart_card h = el ''div'' [(''class'', JStr ''chart-card'')]
     [el ''h3'' [(''text'', JStr ''Latency Trend (ms)'')] [],
      Canvas [(''width'', ''800''), (''height'', ''200''), (''class'', ''live-chart'')] (drawLatencyChart 800 200 h)]"

fun do_eff :: "eff \<Rightarrow> console \<Rightarrow> console" where
  "do_eff (NewNode tag attrs v) c =
     c\<lparr>nodes := nodes c @ [\<lparr>ctag = tag, cattrs = attrs, ckids = [], cvalue = v\<rparr>]\<rparr>"
| "do_eff ClearContent c = c\<lparr>content := []\<rparr>"
| "do_eff (AppendContent d) c = c\<lparr>content := content c @ [d]\<rparr>"
| "do_eff (Append i d) c = upd_node i (\<lambda>n. n\<lparr>ckids := ckids n @ [d]\<rparr>) c"
| "do_eff (ClearKids i) c = upd_node i (\<lambda>n. n\<lparr>ckids := []\<rparr>) c"
| "do_eff (SetText i t) c = upd_node i (\<lambda>n. n\<lparr>ckids := text_kids t\<rparr>) c"
| "do_eff (SetValue i t) c = upd_node i (\<lambda>n. n\<lparr>cvalue := t\<rparr>) c"
| "do_eff (CrudError i msg) c =
     upd_node i (\<lambda>n. n\<lparr>ckids := fst (remove_first ''error-msg'' (ckids n)) @ [error_el msg]\<rparr>) c"
| "do_eff (AppendBody i) c = c\<lparr>overlays := overlays c @ [i]\<rparr>"
| "do_eff (RemoveBody i) c = c\<lparr>overlays := remove1 i (overlays c)\<rparr>"
| "do_eff (ShowBadge s) c = c\<lparr>badge := s\<rparr>"
| "do_eff MarkRefreshed c = c\<lparr>lastRefresh := Some (now c)\<rparr>"
| "do_eff (EditorLoaded y) c = c\<lparr>editorYaml := y, editorDirty := False\<rparr>"
| "do_eff (PushPoint a b d) c =
     c\<lparr>history := push_point \<lparr>p50 = a, p95 = b, p99 = d, ts = now c\<rparr> (history c)\<rparr>"
| "do_eff (AppendChart i) c = upd_node i (\<lambda>n. n\<lparr>ckids := ckids n @ [chart_card (history c)]\<rparr>) c"
| "do_eff ClearSwitcher c = c\<lparr>switcher := [], switchVal := []\<rparr>"
| "do_eff (AddOption v t) c =
     c\<lparr>switcher := switcher c @ [(v, t)], switchVal := (if switcher c = [] then v else switchVal c)\<rparr>"
| "do_eff (Fetch rs k) c =
     c\<lparr>sent := sent c @ rs,
       pending := pending c @ [\<lparr>pid = nextPid c, preqs = rs, pgot = map (\<lambda>_. None) rs, pcont = k\<rparr>],
       nextPid := Suc (nextPid c)\<rparr>"

definition do_effs :: "eff list \<Rightarrow> console \<Rightarrow> console" where
  "do_effs es c = foldl (\<lambda>c e. do_eff e c) c es"

end
