(* ===== verification/Console_Views.thy ===== *)
theory Console_Views
  imports Console_State
begin

text \<open>
  The read-only views of the console: for each render function, the effects it has before its requests
  are answered, the body of its \<open>then\<close> callback and its \<open>catch\<close> callback. The argument \<open>b\<close> is the
  identity of the first container the render function creates.
\<close>

section \<open>Shared shapes\<close>

text \<open>
  The opening of most views: clear \<open>#content\<close>, create the container, show its card with the refresh
  button, say that data is loading.
\<close>

definition open_view :: "string \<Rightarrow> view_fn \<Rightarrow> nid \<Rightarrow> eff list" where
  "open_view title f b =
     [ClearContent, NewNode ''div'' [] [],
      AppendContent (card title (Ref b) (Some (ARender f))), Append b loading_el]"

text \<open>\<open>wrap.innerHTML = ''; wrap.appendChild(el('div', {class: 'error-msg', text: err.message}))\<close>.\<close>

definition show_error :: "nid \<Rightarrow> string \<Rightarrow> eff list" where
  "show_error i msg = [ClearKids i, Append i (error_el msg)]"

text \<open>\<open>renderError(msg)\<close>: the whole of \<open>#content\<close> becomes the message.\<close>

definition renderError :: "string \<Rightarrow> eff list" where
  "renderError msg = [ClearContent, AppendContent (error_el msg)]"

definition labelled :: "string \<Rightarrow> jv \<Rightarrow> action dom list" where
  "labelled label value =
     [text_el ''div'' ''label'' label, el ''div'' [(''class'', JStr ''value''), (''text'', value)] []]"

definition yes_no :: "jv \<Rightarrow> jv" where
  "yes_no v = JStr (if truthy v then ''yes'' else ''no'')"

text \<open>\<open>(v.k || d)\<close>.\<close>

definition get_or :: "jv \<Rightarrow> string \<Rightarrow> jv \<Rightarrow> jv option" where
  "get_or v k d = map_option (\<lambda>x. js_or x d) (js_get v k)"

text \<open>\<open>(v.k || v.k' || d)\<close>.\<close>

definition get_or2 :: "jv \<Rightarrow> string \<Rightarrow> string \<Rightarrow> jv \<Rightarrow> jv option" where
  "get_or2 v k k' d = do { a \<leftarrow> js_get v k; if truthy a then Some a else get_or v k' d }"

section \<open>Overview\<close>

definition renderOverview :: "nid \<Rightarrow> eff list" where
  "renderOverview b =
     [ClearContent, NewNode ''div'' [(''class'', ''stat-grid'')] [],
      AppendContent (card ''Gateway Overview'' (Ref b) None),
      Fetch [get_json ''/health'', get_json ''/stats'', get_json ''/config_dump''] (KOverview b)]"

definition overview_then :: "nid \<Rightarrow> jv \<Rightarrow> jv \<Rightarrow> jv \<Rightarrow> eff option list" where
  "overview_then g health stats config =
     [do { r \<leftarrow> js_get health ''ready'';
           Some (ShowBadge (if r \<noteq> JBool False then ''healthy'' else ''unhealthy'')) },
      do { r \<leftarrow> js_get health ''ready'';
           Some (Append g (makeStat ''Status'' (JStr (if r \<noteq> JBool False then ''ok'' else ''degraded'')))) },
      do { a \<leftarrow> get_or stats ''active_requests'' (jint 0); Some (Append g (makeStat ''Active Requests'' a)) },
      do { n \<leftarrow> get_or health ''config_generation'' (JStr ''n/a''); Some (Append g (makeStat ''Config Generation'' n)) },
      do { rs \<leftarrow> get_or config ''routes'' (JArr []); n \<leftarrow> js_get rs ''length''; Some (Append g (makeStat ''Routes'' n)) },
      do { ls \<leftarrow> get_or config ''listeners'' (JArr []); n \<leftarrow> js_get ls ''length''; Some (Append g (makeStat ''Listeners'' n)) },
      do { us \<leftarrow> get_or health ''upstreams'' (JObj []); ks \<leftarrow> object_keys us;
           Some (Append g (makeStat ''Upstreams'' (jnat (length ks)))) },
      Some MarkRefreshed]"

definition overview_catch :: "nid \<Rightarrow> string \<Rightarrow> eff list" where
  "overview_catch g msg = [ShowBadge ''unhealthy'', Append g (makeStat ''Error'' (JStr msg))]"

definition formatUptime :: "jv \<Rightarrow> string" where
  "formatUptime secs =
     (case to_number secs of
        Fin r \<Rightarrow>
          (if \<not> truthy secs then ''n/a''
           else (let t = r - 3600 * of_int (if 0 \<le> r then \<lfloor>r / 3600\<rfloor> else \<lceil>r / 3600\<rceil>) in
             num_str (Fin (of_int \<lfloor>r / 3600\<rfloor>)) @ ''h '' @ num_str (Fin (of_int \<lfloor>t / 60\<rfloor>)) @ ''m''))
      | NaN \<Rightarrow> (if truthy secs then ''NaNh NaNm'' else ''n/a'')
      | PInf \<Rightarrow> ''Infinityh NaNm''
      | NInf \<Rightarrow> ''-Infinityh NaNm'')"

section \<open>Routes and upstreams (read-only)\<close>

definition renderRoutes :: "nid \<Rightarrow> eff list" where
  "renderRoutes b = open_view ''Routes'' RRoutes b @ [Fetch [get_json ''/config_dump''] (KRoutes b)]"

definition route_row :: "jv \<Rightarrow> action dom option" where
  "route_row r = do {
     m \<leftarrow> js_get r ''match'';
     pathMatch \<leftarrow> js_and_get m ''path'';
     pathStr \<leftarrow> (if truthy pathMatch
        then do { t \<leftarrow> get_or pathMatch ''type'' (JStr []); v \<leftarrow> get_or pathMatch ''value'' (JStr []);
                  Some (js_string t @ '': '' @ js_string v) }
        else Some []);
     ms \<leftarrow> js_and_get m ''methods'';
     name \<leftarrow> get_or r ''name'' (JStr []);
     service \<leftarrow> get_or r ''service'' (JStr []);
     methods \<leftarrow> js_elems (js_or ms (JArr [JStr ''*'']));
     Some (el ''tr'' [] [td_text name, td_text (JStr pathStr), td_text service,
                         td_text (JStr (arr_join '', '' methods))]) }"

definition routes_table :: "nid \<Rightarrow> jv \<Rightarrow> eff option list" where
  "routes_table tw routes =
     (if js_get routes ''length'' = Some (jint 0)
      then [Some (Append tw (el ''p'' [(''text'', JStr ''No routes configured.'')] []))]
      else [do { rs \<leftarrow> js_elems routes; rows \<leftarrow> those (map route_row rs);
                 Some (Append tw (table_el [''Name'', ''Path'', ''Service'', ''Methods''] rows)) },
            Some MarkRefreshed])"

definition routes_then :: "nid \<Rightarrow> jv \<Rightarrow> eff option list" where
  "routes_then tw config = Some (ClearKids tw) #
     (case get_or config ''routes'' (JArr []) of None \<Rightarrow> [None] | Some routes \<Rightarrow> routes_table tw routes)"

definition renderUpstreams :: "nid \<Rightarrow> eff list" where
  "renderUpstreams b =
     open_view ''Upstreams / Services'' RUpstreams b @ [Fetch [get_json ''/health''] (KUpstreams b)]"

text \<open>The rows of one upstream: its own endpoint addresses with their health.\<close>

definition endpoint_rows :: "jv \<Rightarrow> string \<Rightarrow> (string \<times> string \<times> jv) list option" where
  "endpoint_rows upstreams upName = do {
     u \<leftarrow> js_get upstreams upName;
     endpoints \<leftarrow> get_or u ''endpoints'' (JObj []);
     addrs \<leftarrow> object_keys endpoints;
     those (map (\<lambda>addr. do { h \<leftarrow> js_get endpoints addr; Some (upName, addr, h) }) addrs) }"

definition upstream_rows :: "jv \<Rightarrow> (string \<times> string \<times> jv) list option" where
  "upstream_rows health = do {
     upstreams \<leftarrow> get_or health ''upstreams'' (JObj []);
     names \<leftarrow> object_keys upstreams;
     rows \<leftarrow> those (map (endpoint_rows upstreams) names);
     Some (concat rows) }"

definition health_class :: "jv \<Rightarrow> string" where
  "health_class h =
     (if h = JStr ''down'' then ''health-down''
      else if h = JStr ''degraded'' \<or> h = JStr ''half_open'' then ''health-degraded''
      else if h = JStr ''ejected'' then ''health-down''
      else ''health-ok'')"

definition upstream_row :: "string \<times> string \<times> jv \<Rightarrow> action dom" where
  "upstream_row u = (case u of (service, address, h) \<Rightarrow>
     el ''tr'' [] [td_text (JStr service), td_text (JStr address),
       el ''td'' [(''class'', JStr (health_class h)), (''text'', js_or h (JStr ''unknown''))] []])"

definition upstreams_then :: "nid \<Rightarrow> jv \<Rightarrow> eff option list" where
  "upstreams_then tw health = Some (ClearKids tw) #
     (case upstream_rows health of None \<Rightarrow> [None]
      | Some [] \<Rightarrow> [Some (Append tw (el ''p'' [(''text'', JStr ''No upstream data available.'')] []))]
      | Some rows \<Rightarrow>
          [Some (Append tw (table_el [''Service'', ''Address'', ''Health''] (map upstream_row rows))),
           Some MarkRefreshed])"

section \<open>Health, analytics, configuration\<close>

definition pre_el :: "jv \<Rightarrow> action dom" where
  "pre_el v = el ''pre'' [(''text'', v)] []"

definition renderHealth :: "nid \<Rightarrow> eff list" where
  "renderHealth b = open_view ''Health'' RHealth b @ [Fetch [get_json ''/health''] (KHealth b)]"

definition health_then :: "nid \<Rightarrow> jv \<Rightarrow> eff option list" where
  "health_then w health =
     [Some (ClearKids w), Some (Append w (pre_el (opt_text (json_pretty health)))),
      do { r \<leftarrow> js_get health ''ready''; Some (ShowBadge (if truthy r then ''healthy'' else ''unhealthy'')) },
      Some MarkRefreshed]"

definition health_catch :: "nid \<Rightarrow> string \<Rightarrow> eff list" where
  "health_catch w msg = show_error w msg @ [ShowBadge ''unhealthy'']"

definition renderAnalytics :: "int \<Rightarrow> nid \<Rightarrow> eff list" where
  "renderAnalytics t b =
     open_view ''Analytics Top-N'' RAnalytics b @
     [Fetch [get_json (''/analytics/top?kind=routes&from_ms='' @ int_str (t - 3600000) @
                       ''&to_ms='' @ int_str t @ ''&limit=10'')] (KAnalytics b)]"

definition analytics_then :: "nid \<Rightarrow> jv \<Rightarrow> eff option list" where
  "analytics_then w data =
     [Some (ClearKids w), Some (Append w (pre_el (opt_text (json_pretty data)))), Some MarkRefreshed]"

definition renderConfig :: "nid \<Rightarrow> eff list" where
  "renderConfig b = open_view ''Current Config (YAML)'' RConfig b @ [Fetch [get_text ''/config''] (KConfig b)]"

definition config_then :: "nid \<Rightarrow> jv \<Rightarrow> eff option list" where
  "config_then w yaml = [Some (ClearKids w), Some (Append w (pre_el yaml)), Some MarkRefreshed]"

section \<open>Fleet\<close>

definition renderFleet :: "nid \<Rightarrow> eff list" where
  "renderFleet b =
     open_view ''Fleet Operations'' RFleet b @
     [Fetch [get_json ''/fleet/skew'', get_json ''/fleet/status''] (KFleet b)]"

definition skew_card :: "jv \<Rightarrow> action dom option" where
  "skew_card skew = do {
     compatible \<leftarrow> js_get skew ''compatible'';
     policy \<leftarrow> get_or skew ''skew_policy'' (JStr ''n/a'');
     controller \<leftarrow> get_or skew ''controller_version'' (JStr ''n/a'');
     this \<leftarrow> get_or skew ''this_version'' (JStr ''n/a'');
     badgeEl \<leftarrow> el_val ''span''
        [(''class'', JStr (''version-badge '' @ (if truthy compatible then ''current'' else ''skewed'')))] this;
     Some (el ''div'' [(''class'', JStr ''fleet-card'')]
       ([el ''h3'' [(''text'', JStr ''Version Skew Check'')] []] @
        labelled ''Policy'' policy @
        [text_el ''div'' ''label'' ''Controller Version'',
         el ''div'' [(''class'', JStr ''value'')]
           [el ''span'' [(''class'', JStr ''version-badge current''), (''text'', controller)] []],
         text_el ''div'' ''label'' ''This Instance'',
         el ''div'' [(''class'', JStr ''value'')] [badgeEl],
         text_el ''div'' ''label'' ''Compatible'',
         el ''div'' [(''class'', JStr (''value '' @ (if truthy compatible then ''skew-ok'' else ''skew-bad''))),
                     (''text'', yes_no compatible)] []])) }"

definition order_item :: "jv \<Rightarrow> action dom option" where
  "order_item entry = do {
     labels \<leftarrow> get_or entry ''labels'' (JObj []);
     ks \<leftarrow> object_keys labels;
     pairs \<leftarrow> those (map (\<lambda>k. do { v \<leftarrow> js_get labels k; Some (k @ ''='' @ js_string v) }) ks);
     name \<leftarrow> js_get entry ''name'';
     el_val ''li'' [] (JStr (js_string name @ '' ('' @ js_join '', '' pairs @ '')'')) }"

text \<open>The upgrade order, shown when there is one.\<close>

definition order_part :: "jv \<Rightarrow> action dom list option" where
  "order_part up = do {
     order \<leftarrow> js_get up ''order'';
     len \<leftarrow> js_and_get order ''length'';
     (if truthy order \<and> num_pos (to_number len)
      then do { es \<leftarrow> js_elems order; items \<leftarrow> those (map order_item es);
                Some [text_el ''div'' ''label'' ''Upgrade Order'', el ''ol'' [] items] }
      else Some []) }"

definition upgrade_part :: "jv \<Rightarrow> action dom list option" where
  "upgrade_part up = (if \<not> truthy up then Some [] else do {
     skew \<leftarrow> get_or up ''skew'' (JStr ''n/a'');
     maxc \<leftarrow> get_or up ''max_concurrent'' (jint 0);
     halt \<leftarrow> js_get up ''halt_on_failure'';
     order \<leftarrow> order_part up;
     Some (labelled ''Skew Policy'' skew @ labelled ''Max Concurrent'' (JStr (js_string maxc)) @
           labelled ''Halt on Failure'' (yes_no halt) @ order) })"

definition status_card :: "jv \<Rightarrow> action dom option" where
  "status_card status = do {
     enabled \<leftarrow> js_get status ''enabled'';
     stale \<leftarrow> get_or status ''stale_timeout_secs'' (JStr ''n/a'');
     up \<leftarrow> js_get status ''upgrade'';
     upgrade \<leftarrow> upgrade_part up;
     Some (el ''div'' [(''class'', JStr ''fleet-card'')]
       ([el ''h3'' [(''text'', JStr ''Fleet Status'')] []] @ labelled ''Enabled'' (yes_no enabled) @
        labelled ''Stale Timeout (s)'' (JStr (js_string stale)) @ upgrade)) }"

definition fleet_then :: "nid \<Rightarrow> jv \<Rightarrow> jv \<Rightarrow> eff option list" where
  "fleet_then w skew status =
     [Some (ClearKids w),
      do { sc \<leftarrow> skew_card skew; tc \<leftarrow> status_card status;
           Some (Append w (el ''div'' [(''class'', JStr ''fleet-grid'')] [sc, tc])) },
      Some MarkRefreshed]"

definition fleet_catch :: "nid \<Rightarrow> string \<Rightarrow> eff list" where
  "fleet_catch w msg = show_error w
     (if msg \<noteq> [] \<and> 0 \<le> indexOf msg ''404''
      then ''Fleet operations not configured (no fleet: block in config).'' else msg)"

section \<open>Live dashboard\<close>

definition renderLive :: "nid \<Rightarrow> eff list" where
  "renderLive b =
     open_view ''Live Dashboard'' RLive b @
     [Fetch [get_json_or_empty ''/analytics/dashboard'', get_json_or_empty ''/analytics/live'',
             get_json_or_empty ''/stats''] (KLive b)]"

text \<open>\<open>live.k || (dashboard.summary && dashboard.summary.k) || d\<close>.\<close>

definition live_metric :: "jv \<Rightarrow> jv \<Rightarrow> string \<Rightarrow> jv \<Rightarrow> jv option" where
  "live_metric live dashboard k d = do {
     a \<leftarrow> js_get live k;
     (if truthy a then Some a
      else do { s \<leftarrow> js_get dashboard ''summary''; m \<leftarrow> js_and_get s k; Some (js_or m d) }) }"

definition live_stats :: "jv \<Rightarrow> jv \<Rightarrow> jv \<Rightarrow> action dom option" where
  "live_stats dashboard live stats = do {
     active \<leftarrow> get_or stats ''active_requests'' (jint 0);
     rps \<leftarrow> live_metric live dashboard ''rps'' (jint 0);
     m50 \<leftarrow> live_metric live dashboard ''p50_ms'' (JStr ''n/a'');
     m95 \<leftarrow> live_metric live dashboard ''p95_ms'' (JStr ''n/a'');
     m99 \<leftarrow> live_metric live dashboard ''p99_ms'' (JStr ''n/a'');
     rate \<leftarrow> get_or live ''error_rate'' (jint 0);
     fixed \<leftarrow> js_toFixed2 rate;
     Some (el ''div'' [(''class'', JStr ''stat-grid'')]
       [makeStat ''Active Requests'' active, makeStat ''RPS'' rps, makeStat ''p50 (ms)'' m50,
        makeStat ''p95 (ms)'' m95, makeStat ''p99 (ms)'' m99, makeStat ''Error Rate'' (JStr (fixed @ ''%''))]) }"

definition live_route_row :: "jv \<Rightarrow> action dom option" where
  "live_route_row r = do {
     name \<leftarrow> get_or2 r ''route'' ''name'' (JStr []);
     rps \<leftarrow> get_or r ''rps'' (jint 0);
     m50 \<leftarrow> get_or r ''p50_ms'' (jint 0);
     m95 \<leftarrow> get_or r ''p95_ms'' (jint 0);
     errs \<leftarrow> get_or r ''errors'' (jint 0);
     Some (el ''tr'' [] [td_text name, td_text (JStr (js_string rps)), td_text (JStr (js_string m50)),
                         td_text (JStr (js_string m95)), td_text (JStr (js_string errs))]) }"

text \<open>The per-route table: shown when the response has routes, empty unless they are an array.\<close>

definition live_routes :: "nid \<Rightarrow> jv \<Rightarrow> eff option list" where
  "live_routes w routes =
     (if \<not> truthy routes then []
      else [do { rows \<leftarrow> (case routes of JArr rs \<Rightarrow> those (map live_route_row rs) | _ \<Rightarrow> Some []);
                 Some (Append w (el ''div'' [(''class'', JStr ''chart-card'')]
                   [el ''h3'' [(''text'', JStr ''Per-Route Live'')] [],
                    table_el [''Route'', ''RPS'', ''p50 (ms)'', ''p95 (ms)'', ''Errors''] rows])) }])"

definition live_then :: "nid \<Rightarrow> jv \<Rightarrow> jv \<Rightarrow> jv \<Rightarrow> eff option list" where
  "live_then w r0 r1 r2 =
     (let dashboard = js_or r0 (JObj []); live = js_or r1 (JObj []); stats = js_or r2 (JObj []) in
      [Some (ClearKids w), map_option (Append w) (live_stats dashboard live stats),
       do { a \<leftarrow> get_or live ''p50_ms'' (jint 0); b \<leftarrow> get_or live ''p95_ms'' (jint 0);
            d \<leftarrow> get_or live ''p99_ms'' (jint 0); Some (PushPoint a b d) },
       Some (AppendChart w)] @
      (case js_get live ''routes'' of None \<Rightarrow> [None] | Some routes \<Rightarrow> live_routes w routes) @
      [Some MarkRefreshed])"

section \<open>AI operations\<close>

definition renderAiOps :: "nid \<Rightarrow> eff list" where
  "renderAiOps b =
     open_view ''AI Operations'' RAiOps b @
     [Fetch [get_json_or_empty ''/ai/credential-pools'', get_json_or_empty ''/mcp/sessions'',
             get_json_or_empty ''/mcp/tools'', get_json_or_empty ''/experiments/prompt-overrides''] (KAiOps b)]"

definition pool_row :: "jv \<Rightarrow> action dom option" where
  "pool_row p = do {
     name \<leftarrow> get_or2 p ''name'' ''pool'' (JStr []);
     provider \<leftarrow> get_or p ''provider'' (JStr []);
     active \<leftarrow> get_or2 p ''active'' ''active_count'' (jint 0);
     exhausted \<leftarrow> get_or2 p ''exhausted'' ''exhausted_count'' (jint 0);
     cooldown \<leftarrow> get_or2 p ''cooldown'' ''cooldown_secs'' (jint 0);
     Some (el ''tr'' [] [td_text name, td_text provider, td_text (JStr (js_string active)),
                         td_text (JStr (js_string exhausted)), td_text (JStr (js_string cooldown @ ''s''))]) }"

definition session_row :: "jv \<Rightarrow> action dom option" where
  "session_row s = do {
     sid \<leftarrow> get_or2 s ''id'' ''session_id'' (JStr []);
     status \<leftarrow> get_or s ''status'' (JStr ''active'');
     tools \<leftarrow> get_or s ''tools'' (JArr []);
     n \<leftarrow> js_get tools ''length'';
     Some (el ''tr'' [] [td_text sid, td_text status, td_text (JStr (js_string n))]) }"

definition tool_row :: "jv \<Rightarrow> action dom option" where
  "tool_row t = do {
     name \<leftarrow> get_or t ''name'' (JStr []);
     descr \<leftarrow> get_or t ''description'' (JStr []);
     Some (el ''tr'' [] [td_text name, td_text descr]) }"

definition override_row :: "jv \<Rightarrow> action dom option" where
  "override_row o' = do {
     route \<leftarrow> get_or2 o' ''route'' ''key'' (JStr []);
     value \<leftarrow> get_or2 o' ''value'' ''override'' (JStr []);
     Some (el ''tr'' [] [td_text route, td_text (opt_text (json_compact value))]) }"

text \<open>
  One card of the view: \<open>resp.k || resp || []\<close>, a table when it is a non-empty array, the notice
  otherwise.
\<close>

definition ai_body :: "string list \<Rightarrow> (jv \<Rightarrow> action dom option) \<Rightarrow> string \<Rightarrow> jv \<Rightarrow> action dom option" where
  "ai_body labels row notice lst =
     (if is_array lst \<and> lst \<noteq> JArr []
      then do { xs \<leftarrow> js_elems lst; rows \<leftarrow> those (map row xs); Some (table_el labels rows) }
      else Some (el ''p'' [(''text'', JStr notice)] []))"

definition ai_card :: "string \<Rightarrow> string \<Rightarrow> string list \<Rightarrow> (jv \<Rightarrow> action dom option) \<Rightarrow> string \<Rightarrow> jv \<Rightarrow> action dom option" where
  "ai_card title k labels row notice resp = do {
     lst \<leftarrow> get_or resp k (js_or resp (JArr []));
     body \<leftarrow> ai_body labels row notice lst;
     Some (el ''div'' [(''class'', JStr ''chart-card'')] [el ''h3'' [(''text'', JStr title)] [], body]) }"

definition aiops_then :: "nid \<Rightarrow> jv \<Rightarrow> jv \<Rightarrow> jv \<Rightarrow> jv \<Rightarrow> eff option list" where
  "aiops_then w r0 r1 r2 r3 =
     [Some (ClearKids w),
      map_option (Append w) (ai_card ''AI Credential Pools'' ''pools''
        [''Pool'', ''Provider'', ''Active'', ''Exhausted'', ''Cooldown''] pool_row
        ''No AI credential pools configured.'' (js_or r0 (JObj []))),
      map_option (Append w) (ai_card ''MCP Sessions'' ''sessions'' [''Session ID'', ''Status'', ''Tools''] session_row
        ''No active MCP sessions.'' (js_or r1 (JObj []))),
      map_option (Append w) (ai_card ''MCP Tools'' ''tools'' [''Tool'', ''Description''] tool_row
        ''No MCP tools registered.'' (js_or r2 (JObj []))),
      map_option (Append w) (ai_card ''Experiment Prompt Overrides'' ''overrides'' [''Route'', ''Override''] override_row
        ''No experiment overrides active.'' (js_or r3 (JObj []))),
      Some MarkRefreshed]"

end
