(* ===== verification/Console_Edit.thy ===== *)
theory Console_Edit
  imports Console_Views
begin

text \<open>
  The views of the console that change the gateway: the configuration editor (validate, publish,
  reset) and the CRUD tables with their create, edit and delete dialogs; and the workspace switcher.
\<close>

section \<open>Configuration editor\<close>

definition preview_el :: "string \<Rightarrow> string \<Rightarrow> action dom" where
  "preview_el cls t = text_el ''div'' (''validation-preview '' @ cls) t"

definition editor_toolbar :: "nid \<Rightarrow> nid \<Rightarrow> action dom" where
  "editor_toolbar ta pv = el ''div'' [(''class'', JStr ''editor-toolbar'')]
     [on_click (text_el ''button'' ''btn'' ''Validate'') (AValidate ta pv),
      on_click (text_el ''button'' ''btn primary'' ''Publish'') (APublish ta pv),
      on_click (text_el ''button'' ''btn'' ''Reset to Current'') (AReset ta pv)]"

definition textarea_attrs :: "(string \<times> string) list" where
  "textarea_attrs = [(''class'', ''editor-area''), (''spellcheck'', ''false'')]"

text \<open>The containers: \<open>wrap\<close>, the text area, the preview.\<close>

definition renderEditor :: "nid \<Rightarrow> eff list" where
  "renderEditor b =
     [ClearContent, NewNode ''div'' [] [], AppendContent (card ''Config Editor'' (Ref b) None),
      Append b (editor_toolbar (b + 1) (b + 2)),
      NewNode ''textarea'' textarea_attrs [], Append b (Ref (b + 1)),
      NewNode ''div'' [] [], Append b (Ref (b + 2)),
      Fetch [get_text ''/config''] (KEditorLoad (b + 1))]"

definition editor_load_then :: "nid \<Rightarrow> jv \<Rightarrow> eff option list" where
  "editor_load_then ta yaml =
     [Some (SetValue ta (text_of yaml)), Some (EditorLoaded (text_of yaml)), Some MarkRefreshed]"

definition editor_load_catch :: "nid \<Rightarrow> string \<Rightarrow> eff list" where
  "editor_load_catch ta msg = [SetValue ta (''# Failed to load config: '' @ msg)]"

definition validate_click :: "nid \<Rightarrow> string \<Rightarrow> eff list" where
  "validate_click pv body =
     [ClearKids pv, Append pv (text_el ''div'' ''stat-label'' ''Validating...''),
      Fetch [send_yaml ''POST'' ''/config/validate'' body] (KValidate pv)]"

text \<open>\<open>(data && data.error && data.error.message) || d\<close>.\<close>

definition error_detail :: "jv \<Rightarrow> string \<Rightarrow> jv option" where
  "error_detail data d = do {
     e \<leftarrow> js_and_get data ''error''; m \<leftarrow> js_and_get e ''message''; Some (js_or m (JStr d)) }"

definition issue_el :: "jv \<Rightarrow> action dom option" where
  "issue_el issue = do {
     entity \<leftarrow> js_get issue ''entity''; name \<leftarrow> js_get issue ''name''; field \<leftarrow> js_get issue ''field'';
     msg \<leftarrow> js_get issue ''message'';
     Some (el ''div'' [(''class'', JStr ''validation-issue'')]
       [text_el ''span'' ''field'' (js_string entity @ ''.'' @ js_string name @ ''.'' @ js_string field),
        el ''span'' [(''text'', JStr ([CHR 0x20, CHR 0xE2, CHR 0x80, CHR 0x94, CHR 0x20] @ js_string msg))] []]) }"

definition issues_el :: "jv \<Rightarrow> action dom option" where
  "issues_el data = do {
     v \<leftarrow> js_get data ''valid'';
     issues \<leftarrow> get_or data ''issues'' (JArr []);
     n \<leftarrow> js_get issues ''length'';
     (if v \<noteq> JBool False
      then Some (el ''div'' [(''class'', JStr ''validation-preview valid'')]
             [el ''div'' [(''text'', JStr (''Config is valid ('' @ js_string n @ '' issues).''))] []])
      else do { is \<leftarrow> js_elems issues; ds \<leftarrow> those (map issue_el is);
         Some (el ''div'' [(''class'', JStr ''validation-preview invalid'')]
             (el ''div'' [(''text'', JStr (''Config has '' @ js_string n @ '' validation issue(s):''))] [] # ds)) }) }"

definition renderValidationPreview :: "nid \<Rightarrow> jv \<Rightarrow> eff option list" where
  "renderValidationPreview container result =
     [Some (ClearKids container),
      do { st \<leftarrow> js_get result ''status''; data \<leftarrow> js_get result ''data'';
           (if st = jint 400
            then do { m \<leftarrow> error_detail data ''Parse error'';
                      Some (Append container (el ''div'' [(''class'', JStr ''validation-preview invalid'')]
                        [el ''div'' [(''text'', JStr (''Parse error: '' @ js_string m))] []])) }
            else map_option (Append container) (issues_el (js_or data (JObj [])))) }]"

definition validate_catch :: "nid \<Rightarrow> string \<Rightarrow> eff list" where
  "validate_catch pv msg = [ClearKids pv, Append pv (preview_el ''invalid'' (''Validation request failed: '' @ msg))]"

text \<open>The publish button: nothing without the confirmation.\<close>

definition publish_click :: "nid \<Rightarrow> string \<Rightarrow> bool \<Rightarrow> eff list" where
  "publish_click pv body confirmed =
     (if \<not> confirmed then []
      else [ClearKids pv, Append pv (text_el ''div'' ''stat-label'' ''Publishing...''),
            Fetch [send_yaml ''PATCH'' ''/config'' body] (KPublish pv body)])"

definition status_2xx :: "jv \<Rightarrow> bool" where
  "status_2xx v = (case v of JNum (Fin r) \<Rightarrow> 200 \<le> r \<and> r < 300 | _ \<Rightarrow> False)"

definition publish_then :: "nid \<Rightarrow> string \<Rightarrow> jv \<Rightarrow> eff option list" where
  "publish_then pv body result =
     (case js_get result ''status'' of None \<Rightarrow> [None]
      | Some st \<Rightarrow>
         if status_2xx st
         then [do { data \<leftarrow> js_get result ''data''; g \<leftarrow> get_or data ''generation'' (JStr ''?'');
                    Some (Append pv (preview_el ''valid''
                      (''Config published successfully (generation '' @ js_string g @ '').''))) },
               Some (EditorLoaded body)]
         else [do { data \<leftarrow> js_get result ''data''; m \<leftarrow> error_detail data ''Unknown error'';
                    Some (Append pv (preview_el ''invalid'' (''Publish failed: '' @ js_string m))) }])"

definition publish_catch :: "nid \<Rightarrow> string \<Rightarrow> eff list" where
  "publish_catch pv msg = [Append pv (preview_el ''invalid'' (''Publish request failed: '' @ msg))]"

definition reset_click :: "nid \<Rightarrow> nid \<Rightarrow> eff list" where
  "reset_click ta pv = [Fetch [get_text ''/config''] (KReset ta pv)]"

definition reset_then :: "nid \<Rightarrow> nid \<Rightarrow> jv \<Rightarrow> eff option list" where
  "reset_then ta pv yaml =
     [Some (SetValue ta (text_of yaml)), Some (EditorLoaded (text_of yaml)), Some (ClearKids pv)]"

definition reset_catch :: "nid \<Rightarrow> string \<Rightarrow> eff list" where
  "reset_catch pv msg = [ClearKids pv, Append pv (preview_el ''invalid'' (''Reset failed: '' @ msg))]"

section \<open>CRUD tables\<close>

definition loadTable :: "crud \<Rightarrow> eff list" where
  "loadTable x = [ClearKids (tableWrap x), Append (tableWrap x) loading_el,
     Fetch [get_json (''/'' @ entityName x)] (KCrudLoad x)]"

text \<open>The containers: \<open>wrap\<close> and \<open>tableWrap\<close>.\<close>

definition renderCrudEntity :: "string \<Rightarrow> string \<Rightarrow> columns \<Rightarrow> nid \<Rightarrow> eff list" where
  "renderCrudEntity ent lab cols b =
     (let x = \<lparr>entityName = ent, entityLabel = lab, columns = cols, tableWrap = b + 1\<rparr> in
      [ClearContent, NewNode ''div'' [] [],
       AppendContent (card (lab @ '' (CRUD)'') (Ref b) (Some (ACrudRefresh ent lab cols))),
       Append b loading_el,
       Append b (el ''div'' [(''class'', JStr ''crud-toolbar'')]
         [on_click (text_el ''button'' ''btn primary'' (''+ Create '' @ lab)) (ACreate x)]),
       NewNode ''div'' [] [], Append b (Ref (b + 1))] @ loadTable x)"

text \<open>\<open>data[entityName] || data.items || data || []\<close>, and no items unless that is an array.\<close>

definition crud_items :: "crud \<Rightarrow> jv \<Rightarrow> jv list option" where
  "crud_items x data = do {
     a \<leftarrow> js_get data (entityName x);
     b \<leftarrow> js_get data ''items'';
     Some (case js_or a (js_or b (js_or data (JArr []))) of JArr vs \<Rightarrow> vs | _ \<Rightarrow> []) }"

definition crud_cell :: "jv \<Rightarrow> string \<times> string \<Rightarrow> action dom option" where
  "crud_cell item col = do {
     val \<leftarrow> js_get item (fst col);
     let val' = (if js_typeof val = ''object'' \<and> val \<noteq> JNull then opt_text (json_compact val) else val) in
     Some (td_text (JStr (js_string (js_or val' (JStr []))))) }"

definition crud_row :: "crud \<Rightarrow> jv \<Rightarrow> action dom option" where
  "crud_row x item = do {
     cells \<leftarrow> those (map (crud_cell item) (columns x));
     Some (el ''tr'' [] (cells @ [el ''td'' []
       [on_click (text_el ''button'' ''btn small'' ''Edit'') (AEdit x item),
        on_click (text_el ''button'' ''btn small danger'' ''Delete'') (ADelete x item)]])) }"

definition crud_then :: "crud \<Rightarrow> jv \<Rightarrow> eff option list" where
  "crud_then x data = Some (ClearKids (tableWrap x)) #
     (case crud_items x data of None \<Rightarrow> [None]
      | Some [] \<Rightarrow> [Some (Append (tableWrap x)
            (el ''p'' [(''text'', JStr (''No '' @ to_lower (entityLabel x) @ '' configured.''))] []))]
      | Some items \<Rightarrow>
          [do { rows \<leftarrow> those (map (crud_row x) items);
                Some (Append (tableWrap x) (table_el (map snd (columns x) @ [''Actions'']) rows)) },
           Some MarkRefreshed])"

text \<open>The delete button: \<open>sendJSON('DELETE', '/' + entityName + '/' + item.name)\<close> once confirmed.\<close>

definition delete_click :: "crud \<Rightarrow> jv \<Rightarrow> bool \<Rightarrow> eff list" where
  "delete_click x item confirmed =
     (case js_get item ''name'' of None \<Rightarrow> []
      | Some name \<Rightarrow>
         if \<not> confirmed then []
         else [Fetch [sendJSON ''DELETE'' (''/'' @ entityName x @ ''/'' @ js_string name) JUndef] (KDelete x)])"

definition delete_then :: "crud \<Rightarrow> jv \<Rightarrow> eff option list" where
  "delete_then x result =
     (case js_get result ''ok'' of None \<Rightarrow> [None]
      | Some ok \<Rightarrow>
         if truthy ok then map Some (loadTable x)
         else [do { data \<leftarrow> js_get result ''data''; m \<leftarrow> error_detail data ''Unknown'';
                    Some (CrudError (tableWrap x) (''Delete failed: '' @ js_string m)) }])"

definition delete_catch :: "crud \<Rightarrow> string \<Rightarrow> eff list" where
  "delete_catch x msg = [CrudError (tableWrap x) (''Delete failed: '' @ msg)]"

section \<open>Dialogs\<close>

text \<open>
  The containers of a dialog: the overlay, the text area, the error line. \<open>save\<close> is the listener of
  its second button.
\<close>

definition dialog_el :: "string \<Rightarrow> string \<Rightarrow> action \<Rightarrow> nid \<Rightarrow> action dom" where
  "dialog_el title saveLabel save b = el ''div'' [(''class'', JStr ''modal'')]
     [el ''h3'' [(''text'', JStr title)] [], Ref (b + 1),
      el ''div'' [(''class'', JStr ''modal-buttons'')]
        [on_click (text_el ''button'' ''btn'' ''Cancel'') (ACancel b),
         on_click (text_el ''button'' ''btn primary'' saveLabel) save],
      Ref (b + 2)]"

definition openCreateDialog :: "crud \<Rightarrow> nid \<Rightarrow> eff list" where
  "openCreateDialog x b =
     [NewNode ''div'' [(''class'', ''modal-overlay'')] [],
      NewNode ''textarea'' (textarea_attrs @ [(''placeholder'',
         ''Enter '' @ entityLabel x @ '' JSON here...'' @ [CHR 0x0A] @ ''Example:'' @ [CHR 0x0A] @
         ''{'' @ [CHR 0x22] @ ''name'' @ [CHR 0x22] @ '': '' @ [CHR 0x22] @ ''my-'' @ entityLabel x @ [CHR 0x22] @ ''}'')]) [],
      NewNode ''div'' [(''class'', ''error-msg'')] [],
      Append b (dialog_el (''Create '' @ entityLabel x) ''Create'' (ACreateSave x b (b + 1) (b + 2)) b),
      AppendBody b]"

definition openEditDialog :: "crud \<Rightarrow> jv \<Rightarrow> nid \<Rightarrow> eff list" where
  "openEditDialog x item b =
     (case get_or item ''name'' (JStr []) of None \<Rightarrow> []
      | Some name \<Rightarrow>
        [NewNode ''div'' [(''class'', ''modal-overlay'')] [],
         NewNode ''textarea'' textarea_attrs (text_of (opt_text (json_pretty item))),
         NewNode ''div'' [(''class'', ''error-msg'')] [],
         Append b (dialog_el (''Edit '' @ entityLabel x @ '': '' @ js_string name) ''Save''
                     (AEditSave x item b (b + 1) (b + 2)) b),
         AppendBody b])"

text \<open>The save buttons: a text that is no JSON is reported and nothing is sent.\<close>

definition create_click :: "crud \<Rightarrow> nid \<Rightarrow> nid \<Rightarrow> string \<Rightarrow> string \<Rightarrow> eff list" where
  "create_click x ov err text synmsg =
     (case json_parse text of None \<Rightarrow> [SetText err (''Invalid JSON: '' @ synmsg)]
      | Some body \<Rightarrow> [Fetch [sendJSON ''POST'' (''/'' @ entityName x) body] (KCreate x ov err)])"

definition save_click :: "crud \<Rightarrow> jv \<Rightarrow> nid \<Rightarrow> nid \<Rightarrow> string \<Rightarrow> string \<Rightarrow> eff list" where
  "save_click x item ov err text synmsg =
     (case json_parse text of None \<Rightarrow> [SetText err (''Invalid JSON: '' @ synmsg)]
      | Some body \<Rightarrow>
         (case get_or item ''name'' (JStr []) of None \<Rightarrow> []
          | Some name \<Rightarrow>
             [Fetch [sendJSON ''PUT'' (''/'' @ entityName x @ ''/'' @ js_string name) body] (KSave x ov err)]))"

text \<open>
  The answer to a save: on success the overlay is removed (\<open>removeChild\<close> throws when it is no
  longer a child of the body) and the table reloads; otherwise the dialog shows the error.
\<close>

definition dialog_then :: "string \<Rightarrow> crud \<Rightarrow> nid \<Rightarrow> nid \<Rightarrow> bool \<Rightarrow> jv \<Rightarrow> eff option list" where
  "dialog_then what x ov err attached result =
     (case js_get result ''ok'' of None \<Rightarrow> [None]
      | Some ok \<Rightarrow>
         if truthy ok then (if attached then Some (RemoveBody ov) else None) # map Some (loadTable x)
         else [do { data \<leftarrow> js_get result ''data''; m \<leftarrow> error_detail data ''Unknown'';
                    Some (SetText err (what @ '' failed: '' @ js_string m)) }])"

definition dialog_catch :: "string \<Rightarrow> nid \<Rightarrow> string \<Rightarrow> eff list" where
  "dialog_catch what err msg = [SetText err (what @ '' failed: '' @ msg)]"

section \<open>The CRUD views\<close>

definition renderRoutesCrud :: "nid \<Rightarrow> eff list" where
  "renderRoutesCrud = renderCrudEntity ''routes'' ''Route''
     [(''name'', ''Name''), (''service'', ''Service''), (''match'', ''Match'')]"

definition renderUpstreamsCrud :: "nid \<Rightarrow> eff list" where
  "renderUpstreamsCrud = renderCrudEntity ''upstreams'' ''Upstream''
     [(''name'', ''Name''), (''endpoints'', ''Endpoints'')]"

definition renderServicesCrud :: "nid \<Rightarrow> eff list" where
  "renderServicesCrud = renderCrudEntity ''services'' ''Service''
     [(''name'', ''Name''), (''upstream'', ''Upstream'')]"

definition renderConsumersCrud :: "nid \<Rightarrow> eff list" where
  "renderConsumersCrud = renderCrudEntity ''consumers'' ''Consumer'' [(''name'', ''Name'')]"

definition renderPoliciesCrud :: "nid \<Rightarrow> eff list" where
  "renderPoliciesCrud = renderCrudEntity ''policies'' ''Policy'' [(''name'', ''Name'')]"

section \<open>Workspace switcher\<close>

definition workspace_option :: "jv \<Rightarrow> eff option" where
  "workspace_option ws = do {
     v \<leftarrow> get_or2 ws ''name'' ''id'' (JStr []);
     t \<leftarrow> get_or2 ws ''name'' ''id'' (JStr ''unknown'');
     Some (AddOption (js_string v) (text_of t)) }"

definition workspaces_then :: "jv \<Rightarrow> eff option list" where
  "workspaces_then data =
     (case get_or data ''workspaces'' (JArr []) of None \<Rightarrow> [None]
      | Some wss \<Rightarrow>
         Some ClearSwitcher #
         (case wss of JArr ws \<Rightarrow> map workspace_option ws @ (if ws = [] then [Some (AddOption [] ''default'')] else [])
          | _ \<Rightarrow> [None]))"

definition workspaces_catch :: "eff list" where
  "workspaces_catch = [ClearSwitcher, AddOption [] ''default'']"

end
