(* ===== verification/Console_App.thy ===== *)
theory Console_App
  imports Console_Edit
begin

text \<open>
  The console as a whole: navigation, automatic refresh, click listeners, the settling of promises
  (\<open>Promise.all\<close> included), and the event loop as a step relation with its reachable states.
\<close>

section \<open>Rendering a view\<close>

definition render_effs :: "view_fn \<Rightarrow> int \<Rightarrow> nid \<Rightarrow> eff list" where
  "render_effs f t b = (case f of
      ROverview \<Rightarrow> renderOverview b | RLive \<Rightarrow> renderLive b | RRoutes \<Rightarrow> renderRoutes b
    | RUpstreams \<Rightarrow> renderUpstreams b | RHealth \<Rightarrow> renderHealth b | RAnalytics \<Rightarrow> renderAnalytics t b
    | RAiOps \<Rightarrow> renderAiOps b | RFleet \<Rightarrow> renderFleet b | RConfig \<Rightarrow> renderConfig b | REditor \<Rightarrow> renderEditor b
    | RRoutesCrud \<Rightarrow> renderRoutesCrud b | RUpstreamsCrud \<Rightarrow> renderUpstreamsCrud b
    | RServicesCrud \<Rightarrow> renderServicesCrud b | RConsumersCrud \<Rightarrow> renderConsumersCrud b
    | RPoliciesCrud \<Rightarrow> renderPoliciesCrud b)"

definition render :: "view_fn \<Rightarrow> console \<Rightarrow> console" where
  "render f c = do_effs (render_effs f (now c) (length (nodes c))) c"

text \<open>\<open>var renderer = views[currentView]; if (renderer) renderer();\<close>\<close>

definition render_current :: "console \<Rightarrow> console" where
  "render_current c = (case views (currentView c) of None \<Rightarrow> c | Some f \<Rightarrow> render f c)"

definition switchView :: "string \<Rightarrow> console \<Rightarrow> console" where
  "switchView v c = render_current (c\<lparr>currentView := v, navActive := filter (\<lambda>x. x = v) nav_views\<rparr>)"

section \<open>Automatic refresh\<close>

definition stopAutoRefresh :: "console \<Rightarrow> console" where
  "stopAutoRefresh c = (case refreshTimer c of None \<Rightarrow> c
     | Some t \<Rightarrow> c\<lparr>timers := removeAll t (timers c), refreshTimer := None\<rparr>)"

definition startAutoRefresh :: "console \<Rightarrow> console" where
  "startAutoRefresh c = (let c1 = stopAutoRefresh c; t = nextTimer c1 in
     c1\<lparr>timers := timers c1 @ [t], refreshTimer := Some t, nextTimer := Suc t\<rparr>)"

text \<open>The interval callback.\<close>

definition tick :: "console \<Rightarrow> console" where
  "tick c = render_current c"

section \<open>Workspace switcher\<close>

definition initWorkspaceSwitcher :: "console \<Rightarrow> console" where
  "initWorkspaceSwitcher c = do_eff (Fetch [get_json ''/workspaces''] KWorkspaces) c"

text \<open>The change listener: the new value is read and the current view is rendered again.\<close>

definition change_workspace :: "string \<Rightarrow> console \<Rightarrow> console" where
  "change_workspace v c = render_current (c\<lparr>switchVal := v\<rparr>)"

section \<open>Click listeners\<close>

definition value_of :: "nid \<Rightarrow> console \<Rightarrow> string" where
  "value_of i c = (if i < length (nodes c) then cvalue (nodes c ! i) else [])"

text \<open>The effects of a listener; \<open>ok\<close> is the answer to its confirmation, where it asks one.\<close>

definition click_effs :: "action \<Rightarrow> bool \<Rightarrow> console \<Rightarrow> eff list" where
  "click_effs a ok c = (let b = length (nodes c) in case a of
      ARender f \<Rightarrow> render_effs f (now c) b
    | ACrudRefresh ent lab cols \<Rightarrow> renderCrudEntity ent lab cols b
    | AValidate ta pv \<Rightarrow> validate_click pv (value_of ta c)
    | APublish ta pv \<Rightarrow> publish_click pv (value_of ta c) ok
    | AReset ta pv \<Rightarrow> reset_click ta pv
    | ACreate x \<Rightarrow> openCreateDialog x b
    | AEdit x item \<Rightarrow> openEditDialog x item b
    | ADelete x item \<Rightarrow> delete_click x item ok
    | ACancel ov \<Rightarrow> (if ov \<in> set (overlays c) then [RemoveBody ov] else [])
    | ACreateSave x ov ta err \<Rightarrow> create_click x ov err (value_of ta c) (syntaxMsg c)
    | AEditSave x item ov ta err \<Rightarrow> save_click x item ov err (value_of ta c) (syntaxMsg c))"

definition click :: "action \<Rightarrow> bool \<Rightarrow> console \<Rightarrow> console" where
  "click a ok c = do_effs (click_effs a ok c) c"

section \<open>Promises\<close>

definition then_effs :: "cont \<Rightarrow> jv list \<Rightarrow> nid list \<Rightarrow> eff option list" where
  "then_effs k vs ovs = (case (k, vs) of
      (KOverview g, [health, stats, config]) \<Rightarrow> overview_then g health stats config
    | (KRoutes w, [v]) \<Rightarrow> routes_then w v
    | (KUpstreams w, [v]) \<Rightarrow> upstreams_then w v
    | (KHealth w, [v]) \<Rightarrow> health_then w v
    | (KAnalytics w, [v]) \<Rightarrow> analytics_then w v
    | (KConfig w, [v]) \<Rightarrow> config_then w v
    | (KFleet w, [skew, status]) \<Rightarrow> fleet_then w skew status
    | (KEditorLoad ta, [v]) \<Rightarrow> editor_load_then ta v
    | (KValidate pv, [v]) \<Rightarrow> renderValidationPreview pv v
    | (KPublish pv body, [v]) \<Rightarrow> publish_then pv body v
    | (KReset ta pv, [v]) \<Rightarrow> reset_then ta pv v
    | (KLive w, [r0, r1, r2]) \<Rightarrow> live_then w r0 r1 r2
    | (KAiOps w, [r0, r1, r2, r3]) \<Rightarrow> aiops_then w r0 r1 r2 r3
    | (KCrudLoad x, [v]) \<Rightarrow> crud_then x v
    | (KDelete x, [v]) \<Rightarrow> delete_then x v
    | (KCreate x ov err, [v]) \<Rightarrow> dialog_then ''Create'' x ov err (ov \<in> set ovs) v
    | (KSave x ov err, [v]) \<Rightarrow> dialog_then ''Save'' x ov err (ov \<in> set ovs) v
    | (KWorkspaces, [v]) \<Rightarrow> workspaces_then v
    | _ \<Rightarrow> [])"

definition catch_effs :: "cont \<Rightarrow> string \<Rightarrow> eff list" where
  "catch_effs k msg = (case k of
      KOverview g \<Rightarrow> overview_catch g msg
    | KRoutes w \<Rightarrow> show_error w msg | KUpstreams w \<Rightarrow> show_error w msg
    | KHealth w \<Rightarrow> health_catch w msg
    | KAnalytics w \<Rightarrow> show_error w msg | KConfig w \<Rightarrow> show_error w msg
    | KFleet w \<Rightarrow> fleet_catch w msg
    | KEditorLoad ta \<Rightarrow> editor_load_catch ta msg
    | KValidate pv \<Rightarrow> validate_catch pv msg
    | KPublish pv body \<Rightarrow> publish_catch pv msg
    | KReset ta pv \<Rightarrow> reset_catch pv msg
    | KLive w \<Rightarrow> show_error w msg | KAiOps w \<Rightarrow> show_error w msg
    | KCrudLoad x \<Rightarrow> show_error (tableWrap x) msg
    | KDelete x \<Rightarrow> delete_catch x msg
    | KCreate x ov err \<Rightarrow> dialog_catch ''Create'' err msg
    | KSave x ov err \<Rightarrow> dialog_catch ''Save'' err msg
    | KWorkspaces \<Rightarrow> workspaces_catch)"

definition reject :: "cont \<Rightarrow> string \<Rightarrow> console \<Rightarrow> console" where
  "reject k msg c = do_effs (catch_effs k msg) c"

definition fulfil :: "cont \<Rightarrow> jv list \<Rightarrow> console \<Rightarrow> console" where
  "fulfil k vs c =
     then_catch (map (map_option do_eff) (then_effs k vs (overlays c))) (\<lambda>c'. reject k (exnMsg c') c') c"

definition drop_pending :: "nat \<Rightarrow> console \<Rightarrow> console" where
  "drop_pending q c = c\<lparr>pending := filter (\<lambda>p. pid p \<noteq> q) (pending c)\<rparr>"

definition store_value :: "nat \<Rightarrow> nat \<Rightarrow> jv \<Rightarrow> console \<Rightarrow> console" where
  "store_value q i v c = c\<lparr>pending :=
     map (\<lambda>p. if pid p = q then p\<lparr>pgot := (pgot p)[i := Some v]\<rparr> else p) (pending c)\<rparr>"

text \<open>
  The network answers request \<open>i\<close> of promise \<open>q\<close>. A rejection settles the promise at once; a value
  settles it when it is the last one.
\<close>

definition respond :: "nat \<Rightarrow> nat \<Rightarrow> outcome \<Rightarrow> console \<Rightarrow> console" where
  "respond q i out c = (case find (\<lambda>p. pid p = q) (pending c) of None \<Rightarrow> c
     | Some p \<Rightarrow>
        if i < length (preqs p) \<and> i < length (pgot p) \<and> pgot p ! i = None
        then (case settle (preqs p ! i) out of
            Inl msg \<Rightarrow> reject (pcont p) msg (drop_pending q c)
          | Inr v \<Rightarrow>
             let got = (pgot p)[i := Some v] in
             if None \<in> set got then store_value q i v c
             else fulfil (pcont p) (map the got) (drop_pending q c))
        else c)"

section \<open>Start-up\<close>

text \<open>
  The page as loaded, at time \<open>t\<close>; \<open>exn\<close> and \<open>syn\<close> are the engine's texts for exceptions the script
  raises and for JSON syntax errors.
\<close>

definition loaded_page :: "string \<Rightarrow> string \<Rightarrow> int \<Rightarrow> console" where
  "loaded_page exn syn t =
     \<lparr>nodes = [], content = [Elem ''div'' [(''id'', ''loading'')] [Text ''Loading...''] []], overlays = [],
      badge = ''connecting...'', lastRefresh = None, navActive = [''overview''],
      switcher = [([], ''default'')], switchVal = [], currentView = ''overview'',
      refreshTimer = None, timers = [], nextTimer = 1, editorYaml = [], editorDirty = False,
      history = [], now = t, pending = [], nextPid = 0, sent = [], exnMsg = exn, syntaxMsg = syn\<rparr>"

text \<open>The DOMContentLoaded listener.\<close>

definition boot :: "string \<Rightarrow> string \<Rightarrow> int \<Rightarrow> console" where
  "boot exn syn t = startAutoRefresh (switchView ''overview''
     (do_eff (ShowBadge ''connecting'') (initWorkspaceSwitcher (loaded_page exn syn t))))"

section \<open>The event loop\<close>

text \<open>Containers reachable from \<open>#content\<close>, and from the page with its dialogs.\<close>

inductive in_content :: "console \<Rightarrow> nid \<Rightarrow> bool" for c where
  root: "d \<in> set (content c) \<Longrightarrow> i \<in> set (refs d) \<Longrightarrow> in_content c i"
| kid: "in_content c i \<Longrightarrow> i < length (nodes c) \<Longrightarrow> d \<in> set (ckids (nodes c ! i)) \<Longrightarrow> j \<in> set (refs d)
     \<Longrightarrow> in_content c j"

inductive shown :: "console \<Rightarrow> nid \<Rightarrow> bool" for c where
  content: "in_content c i \<Longrightarrow> shown c i"
| body: "i \<in> set (overlays c) \<Longrightarrow> shown c i"
| kid: "shown c i \<Longrightarrow> i < length (nodes c) \<Longrightarrow> d \<in> set (ckids (nodes c ! i)) \<Longrightarrow> j \<in> set (refs d)
     \<Longrightarrow> shown c j"

text \<open>A listener the user can reach: on a node of the page.\<close>

definition clickable :: "console \<Rightarrow> action \<Rightarrow> bool" where
  "clickable c a = ((\<exists>d \<in> set (content c). a \<in> set (listeners d)) \<or>
     (\<exists>i < length (nodes c). shown c i \<and> (\<exists>d \<in> set (ckids (nodes c ! i)). a \<in> set (listeners d))))"

inductive console_step :: "console \<Rightarrow> console \<Rightarrow> bool" where
  navigate: "v \<in> set nav_views \<Longrightarrow> console_step c (switchView v c)"
| clicked: "clickable c a \<Longrightarrow> console_step c (click a ok c)"
| typed: "shown c i \<Longrightarrow> i < length (nodes c) \<Longrightarrow> ctag (nodes c ! i) = ''textarea'' \<Longrightarrow>
     console_step c (do_eff (SetValue i txt) c)"
| answered: "p \<in> set (pending c) \<Longrightarrow> i < length (preqs p) \<Longrightarrow> pgot p ! i = None \<Longrightarrow>
     console_step c (respond (pid p) i out c)"
| ticked: "t \<in> set (timers c) \<Longrightarrow> console_step c (tick c)"
| workspace: "(v, l) \<in> set (switcher c) \<Longrightarrow> console_step c (change_workspace v c)"
| waited: "0 \<le> d \<Longrightarrow> console_step c (c\<lparr>now := now c + d\<rparr>)"

inductive reachable :: "console \<Rightarrow> bool" where
  start: "reachable (boot exn syn t)"
| step: "reachable c \<Longrightarrow> console_step c c' \<Longrightarrow> reachable c'"

inductive_cases console_stepE: "console_step c c'"

end
