(* ===== verification/Console_Frame.thy ===== *)
theory Console_Frame
  imports Console_App
begin

text \<open>
  What a callback can touch: the containers its closure captured, and nothing else of \<open>#content\<close>.
  The lemmas compute, for every effect list of the console, the identities it mentions.
\<close>

section \<open>Identities\<close>

fun action_ids :: "action \<Rightarrow> nid set" where
  "action_ids (ARender f) = {}"
| "action_ids (ACrudRefresh e l cs) = {}"
| "action_ids (AValidate ta pv) = {ta, pv}"
| "action_ids (APublish ta pv) = {ta, pv}"
| "action_ids (AReset ta pv) = {ta, pv}"
| "action_ids (ACreate x) = {tableWrap x}"
| "action_ids (AEdit x item) = {tableWrap x}"
| "action_ids (ADelete x item) = {tableWrap x}"
| "action_ids (ACancel ov) = {ov}"
| "action_ids (ACreateSave x ov ta err) = {tableWrap x, ov, ta, err}"
| "action_ids (AEditSave x item ov ta err) = {tableWrap x, ov, ta, err}"

fun cont_ids :: "cont \<Rightarrow> nid set" where
  "cont_ids (KOverview w) = {w}"
| "cont_ids (KRoutes w) = {w}"
| "cont_ids (KUpstreams w) = {w}"
| "cont_ids (KHealth w) = {w}"
| "cont_ids (KAnalytics w) = {w}"
| "cont_ids (KConfig w) = {w}"
| "cont_ids (KFleet w) = {w}"
| "cont_ids (KEditorLoad ta) = {ta}"
| "cont_ids (KValidate pv) = {pv}"
| "cont_ids (KPublish pv body) = {pv}"
| "cont_ids (KReset ta pv) = {ta, pv}"
| "cont_ids (KLive w) = {w}"
| "cont_ids (KAiOps w) = {w}"
| "cont_ids (KCrudLoad x) = {tableWrap x}"
| "cont_ids (KDelete x) = {tableWrap x}"
| "cont_ids (KCreate x ov err) = {tableWrap x, ov, err}"
| "cont_ids (KSave x ov err) = {tableWrap x, ov, err}"
| "cont_ids KWorkspaces = {}"

definition dom_ids :: "action dom \<Rightarrow> nid set" where
  "dom_ids d = set (refs d) \<union> (\<Union>a \<in> set (listeners d). action_ids a)"

fun eff_ids :: "eff \<Rightarrow> nid set" where
  "eff_ids (AppendContent d) = dom_ids d"
| "eff_ids (Append i d) = insert i (dom_ids d)"
| "eff_ids (ClearKids i) = {i}"
| "eff_ids (SetText i t) = {i}"
| "eff_ids (SetValue i t) = {i}"
| "eff_ids (CrudError i m) = {i}"
| "eff_ids (AppendBody i) = {i}"
| "eff_ids (RemoveBody i) = {i}"
| "eff_ids (AppendChart i) = {i}"
| "eff_ids (Fetch rs k) = cont_ids k"
| "eff_ids _ = {}"

text \<open>Effects that neither create a container nor write \<open>#content\<close> itself nor open a dialog.\<close>

fun callback_eff :: "eff \<Rightarrow> bool" where
  "callback_eff (NewNode t as v) = False"
| "callback_eff ClearContent = False"
| "callback_eff (AppendContent d) = False"
| "callback_eff (AppendBody i) = False"
| "callback_eff _ = True"

definition stays_in :: "nid set \<Rightarrow> eff \<Rightarrow> bool" where
  "stays_in S e = (callback_eff e \<and> eff_ids e \<subseteq> S)"

section \<open>Identities of the built nodes\<close>

lemma dom_ids_el [simp]: "dom_ids (el t as ks) = (\<Union>d \<in> set ks. dom_ids d)"
  by (auto simp: dom_ids_def)

lemma dom_ids_Elem: "dom_ids (Elem t as ks ls) = (\<Union>d \<in> set ks. dom_ids d) \<union> (\<Union>a \<in> set ls. action_ids a)"
  by (auto simp: dom_ids_def)

lemma dom_ids_simps [simp]:
  "dom_ids (Ref i) = {i}" "dom_ids (Text t) = {}" "dom_ids (Canvas as cs) = {}"
  "dom_ids (text_el t c s) = {}" "dom_ids (makeStat l v) = {}" "dom_ids (error_el m) = {}"
  "dom_ids loading_el = {}" "dom_ids (td_text v) = {}" "dom_ids (head_row ls) = {}"
  by (simp_all add: dom_ids_def)

lemma dom_ids_table [simp]: "dom_ids (table_el ls rows) = (\<Union>d \<in> set rows. dom_ids d)"
  by (auto simp: dom_ids_def)

lemma dom_ids_card [simp]:
  "dom_ids (card t d h) = dom_ids d \<union> (case h of None \<Rightarrow> {} | Some a \<Rightarrow> action_ids a)"
  by (auto simp: dom_ids_def split: option.split)

lemma dom_ids_button [simp]: "dom_ids (on_click (text_el t c s) a) = action_ids a"
  by (simp add: dom_ids_def)

lemma dom_ids_el_val: "el_val t as v = Some d \<Longrightarrow> dom_ids d = {}"
proof -
  assume "el_val t as v = Some d"
  then have "refs d = [] \<and> listeners d = []"
    by (induction t as v rule: el_val.induct) (auto split: if_splits)
  then show "dom_ids d = {}" by (simp add: dom_ids_def)
qed

lemma dom_ids_chart [simp]: "dom_ids (chart_card h) = {}"
  by (simp add: chart_card_def)

lemma Some_eq_bind: "(Some y = Option.bind m f) = (\<exists>x. m = Some x \<and> f x = Some y)"
  by (cases m) auto

lemma those_map_mem: "those (map f xs) = Some ys \<Longrightarrow> y \<in> set ys \<Longrightarrow> \<exists>x \<in> set xs. f x = Some y"
  by (induction xs arbitrary: ys) (auto split: option.splits)

lemma those_map_ids:
  assumes "those (map f xs) = Some ys" and "\<And>x d. f x = Some d \<Longrightarrow> dom_ids d = {}"
  shows "\<forall>d \<in> set ys. dom_ids d = {}"
  using assms by (auto dest: those_map_mem)

lemmas bind_conv = Some_eq_bind Option.bind_eq_Some_conv

lemma row_ids:
  "route_row v = Some d \<Longrightarrow> dom_ids d = {}"
  "live_route_row v = Some d \<Longrightarrow> dom_ids d = {}"
  "pool_row v = Some d \<Longrightarrow> dom_ids d = {}"
  "session_row v = Some d \<Longrightarrow> dom_ids d = {}"
  "tool_row v = Some d \<Longrightarrow> dom_ids d = {}"
  "override_row v = Some d \<Longrightarrow> dom_ids d = {}"
  "issue_el v = Some d \<Longrightarrow> dom_ids d = {}"
  by (auto simp: route_row_def live_route_row_def pool_row_def session_row_def tool_row_def
      override_row_def issue_el_def bind_conv)

lemma upstream_row_ids [simp]: "dom_ids (upstream_row u) = {}"
  by (simp add: upstream_row_def split: prod.split)

lemma pre_ids [simp]: "dom_ids (pre_el v) = {}" "dom_ids (preview_el c t) = {}"
  by (simp_all add: pre_el_def preview_el_def)

lemma labelled_ids [simp]: "d \<in> set (labelled l v) \<Longrightarrow> dom_ids d = {}"
  by (auto simp: labelled_def)

lemma order_part_ids:
  assumes "order_part up = Some ds"
  shows "\<forall>d \<in> set ds. dom_ids d = {}"
proof -
  have item: "order_item v = Some e \<Longrightarrow> dom_ids e = {}" for v e
    by (auto simp: order_item_def bind_conv dom_ids_Elem)
  show ?thesis using assms
    by (auto simp: order_part_def bind_conv split: if_splits dest!: those_map_ids [OF _ item])
qed

lemma upgrade_part_ids: "upgrade_part up = Some ds \<Longrightarrow> \<forall>d \<in> set ds. dom_ids d = {}"
  by (auto simp: upgrade_part_def bind_conv split: if_splits dest!: order_part_ids)

lemma fleet_card_ids:
  "skew_card v = Some d \<Longrightarrow> dom_ids d = {}" "status_card v = Some d \<Longrightarrow> dom_ids d = {}"
  by (auto simp: skew_card_def status_card_def bind_conv dest!: dom_ids_el_val upgrade_part_ids)

lemma ai_card_ids:
  assumes "ai_card title k labels row notice resp = Some d" and "\<And>x d. row x = Some d \<Longrightarrow> dom_ids d = {}"
  shows "dom_ids d = {}"
proof -
  have table: "those (map row xs) = Some rows \<Longrightarrow> dom_ids (table_el labels rows) = {}" for xs rows
    using those_map_ids [of row xs rows] assms(2) by auto
  have "ai_body labels row notice lst = Some e \<Longrightarrow> dom_ids e = {}" for lst e
    by (auto simp: ai_body_def bind_conv split: if_splits dest!: table simp del: dom_ids_table)
  then show ?thesis using assms(1) by (auto simp: ai_card_def bind_conv)
qed

lemma live_stats_ids: "live_stats a b c = Some d \<Longrightarrow> dom_ids d = {}"
  by (auto simp: live_stats_def bind_conv)

lemma issues_el_ids: "issues_el v = Some d \<Longrightarrow> dom_ids d = {}"
  by (auto simp: issues_el_def bind_conv split: if_splits dest!: those_map_ids [OF _ row_ids(7)])

lemma crud_row_ids: "crud_row x item = Some d \<Longrightarrow> dom_ids d = {tableWrap x}"
proof -
  have "crud_cell i col = Some e \<Longrightarrow> dom_ids e = {}" for i col e
    by (auto simp: crud_cell_def bind_conv Let_def)
  then show "crud_row x item = Some d \<Longrightarrow> dom_ids d = {tableWrap x}"
    by (auto simp: crud_row_def bind_conv dest!: those_map_ids)
qed

section \<open>Identities of the callbacks\<close>

lemma stays_in_simps [simp]:
  "stays_in S (ClearKids i) = (i \<in> S)" "stays_in S (Append i d) = (i \<in> S \<and> dom_ids d \<subseteq> S)"
  "stays_in S (SetText i t) = (i \<in> S)" "stays_in S (SetValue i t) = (i \<in> S)"
  "stays_in S (CrudError i t) = (i \<in> S)" "stays_in S (RemoveBody i) = (i \<in> S)"
  "stays_in S (AppendChart i) = (i \<in> S)" "stays_in S (Fetch rs k) = (cont_ids k \<subseteq> S)"
  "stays_in S (ShowBadge s)" "stays_in S MarkRefreshed" "stays_in S (EditorLoaded y)"
  "stays_in S (PushPoint a b c)" "stays_in S ClearSwitcher" "stays_in S (AddOption v t)"
  by (simp_all add: stays_in_def)

definition all_stay :: "nid set \<Rightarrow> eff option list \<Rightarrow> bool" where
  "all_stay S es = (\<forall>e. Some e \<in> set es \<longrightarrow> stays_in S e)"

lemma all_stay_simps [simp]:
  "all_stay S []" "all_stay S (None # es) = all_stay S es"
  "all_stay S (Some e # es) = (stays_in S e \<and> all_stay S es)"
  "all_stay S (es @ fs) = (all_stay S es \<and> all_stay S fs)"
  "all_stay S (map Some xs) = (\<forall>x \<in> set xs. stays_in S x)"
  by (auto simp: all_stay_def)

lemma all_stay_Cons: "all_stay S (m # es) = ((\<forall>e. m = Some e \<longrightarrow> stays_in S e) \<and> all_stay S es)"
  by (auto simp: all_stay_def)

lemma map_Append_stays:
  "(\<And>d. m = Some d \<Longrightarrow> dom_ids d = {}) \<Longrightarrow> map_option (Append w) m = Some e \<Longrightarrow> w \<in> S \<Longrightarrow> stays_in S e"
  by auto

lemma overview_stays: "all_stay {g} (overview_then g health stats config)"
  by (auto simp: overview_then_def all_stay_Cons bind_conv)

lemma routes_stays: "all_stay {w} (routes_then w v)"
  by (auto simp: routes_then_def routes_table_def all_stay_Cons bind_conv row_ids(1) split: option.split
      dest!: those_map_ids [OF _ row_ids(1)])

lemma upstreams_stays: "all_stay {w} (upstreams_then w v)"
  by (auto simp: upstreams_then_def split: option.split list.split)

lemma health_stays: "all_stay {w} (health_then w v)"
  by (auto simp: health_then_def all_stay_Cons bind_conv)

lemma fleet_stays: "all_stay {w} (fleet_then w a b)"
  by (auto simp: fleet_then_def all_stay_Cons bind_conv fleet_card_ids)

lemma live_stays: "all_stay {w} (live_then w a b c)"
proof -
  have "all_stay {w} (live_routes w rs)" for rs
    by (auto simp: live_routes_def all_stay_Cons bind_conv dest!: those_map_ids [OF _ row_ids(2)] split: jv.splits)
  then show ?thesis
    by (auto simp: live_then_def Let_def all_stay_Cons bind_conv dest!: live_stats_ids split: option.splits)
qed

lemma aiops_stays: "all_stay {w} (aiops_then w a b c d)"
  by (auto simp: aiops_then_def all_stay_Cons dest!: ai_card_ids row_ids(3-6))

lemma crud_stays: "all_stay {tableWrap x} (crud_then x v)"
proof -
  have rows: "those (map (crud_row x) items) = Some rows \<Longrightarrow> \<forall>d \<in> set rows. dom_ids d = {tableWrap x}" for items rows
    by (blast dest: those_map_mem crud_row_ids)
  show ?thesis
    by (auto simp: crud_then_def all_stay_Cons Some_eq_bind Option.bind_eq_Some_conv simp del: map_eq_Cons_conv list.map
        split: option.splits list.splits dest!: rows)
qed

lemma loadTable_stays: "e \<in> set (loadTable x) \<Longrightarrow> tableWrap x \<in> S \<Longrightarrow> stays_in S e"
  by (auto simp: loadTable_def)

lemma edit_stays:
  "all_stay {pv} (renderValidationPreview pv v)"
  "all_stay {pv} (publish_then pv body v)"
  "all_stay {tableWrap x} (delete_then x v)"
  "all_stay {tableWrap x, ov, err} (dialog_then what x ov err att v)"
  "all_stay S (workspaces_then v)"
  by (auto simp: renderValidationPreview_def publish_then_def delete_then_def dialog_then_def
      workspaces_then_def workspace_option_def all_stay_Cons all_stay_def bind_conv loadTable_stays
      split: option.splits if_splits jv.splits dest!: issues_el_ids)

text \<open>The fulfilment of a promise touches the containers of its closure only.\<close>

lemma then_effs_stay: "all_stay (cont_ids k) (then_effs k vs ovs)"
  by (cases k) (simp_all add: then_effs_def overview_stays routes_stays upstreams_stays health_stays fleet_stays
      live_stays aiops_stays crud_stays edit_stays analytics_then_def config_then_def editor_load_then_def
      reset_then_def split: list.split)

lemma catch_effs_stay: "e \<in> set (catch_effs k msg) \<Longrightarrow> stays_in (cont_ids k) e"
  by (cases k) (auto simp: catch_effs_def overview_catch_def show_error_def health_catch_def fleet_catch_def
      editor_load_catch_def validate_catch_def publish_catch_def reset_catch_def delete_catch_def dialog_catch_def
      workspaces_catch_def)

end
