(* ===== verification/Console_Invariants.thy ===== *)
theory Console_Invariants
  imports Console_Frame
begin

text \<open>
  Invariants of the event loop: what an effect leaves alone, the requests it sends, the bounds of the
  container identities, the shape of the pending promises, navigation and the refresh timer. Each is
  proved for one effect, lifted to effect lists and callbacks, and then to reachable states.
\<close>

section \<open>Effects, one at a time\<close>

lemma upd_node_fields [frame_simps]:
  "content (upd_node i f c) = content c" "overlays (upd_node i f c) = overlays c"
  "badge (upd_node i f c) = badge c" "navActive (upd_node i f c) = navActive c"
  "currentView (upd_node i f c) = currentView c" "refreshTimer (upd_node i f c) = refreshTimer c"
  "timers (upd_node i f c) = timers c" "nextTimer (upd_node i f c) = nextTimer c"
  "history (upd_node i f c) = history c" "now (upd_node i f c) = now c"
  "pending (upd_node i f c) = pending c" "nextPid (upd_node i f c) = nextPid c"
  "sent (upd_node i f c) = sent c" "exnMsg (upd_node i f c) = exnMsg c" "syntaxMsg (upd_node i f c) = syntaxMsg c"
  "editorYaml (upd_node i f c) = editorYaml c" "editorDirty (upd_node i f c) = editorDirty c"
  "switcher (upd_node i f c) = switcher c" "switchVal (upd_node i f c) = switchVal c"
  "lastRefresh (upd_node i f c) = lastRefresh c"
  "length (nodes (upd_node i f c)) = length (nodes c)"
  by (simp_all add: upd_node_def)

lemma upd_node_nth [node_simps]:
  "j < length (nodes c) \<Longrightarrow> nodes (upd_node i f c) ! j = (if j = i then f (nodes c ! j) else nodes c ! j)"
  by (simp add: upd_node_def)

text \<open>No effect touches navigation, the timer, the clock or the engine's messages.\<close>

lemma do_eff_fields [frame_simps]:
  "currentView (do_eff e c) = currentView c" "navActive (do_eff e c) = navActive c"
  "refreshTimer (do_eff e c) = refreshTimer c" "timers (do_eff e c) = timers c"
  "nextTimer (do_eff e c) = nextTimer c" "now (do_eff e c) = now c"
  "exnMsg (do_eff e c) = exnMsg c" "syntaxMsg (do_eff e c) = syntaxMsg c"
  by (cases e; simp add: frame_simps)+

fun eff_reqs :: "eff \<Rightarrow> request list" where
  "eff_reqs (Fetch rs k) = rs"
| "eff_reqs _ = []"

fun is_new :: "eff \<Rightarrow> bool" where
  "is_new (NewNode t as v) = True"
| "is_new _ = False"

lemma do_eff_sent [frame_simps]: "sent (do_eff e c) = sent c @ eff_reqs e"
  by (cases e) (simp_all add: frame_simps)

lemma do_eff_length [frame_simps]:
  "length (nodes (do_eff e c)) = length (nodes c) + (if is_new e then 1 else 0)"
  by (cases e) (simp_all add: frame_simps)

lemma do_eff_nextPid: "nextPid c \<le> nextPid (do_eff e c)"
  by (cases e) (simp_all add: frame_simps)

section \<open>Effect lists\<close>

lemma do_effs_simps [simp]:
  "do_effs [] c = c" "do_effs (e # es) c = do_effs es (do_eff e c)"
  "do_effs (es @ fs) c = do_effs fs (do_effs es c)"
  by (simp_all add: do_effs_def)

lemma do_effs_inv:
  assumes "\<And>e c. e \<in> set es \<Longrightarrow> I c \<Longrightarrow> I (do_eff e c)" and "I c"
  shows "I (do_effs es c)"
  using assms by (induction es arbitrary: c) auto

lemma do_effs_fields [frame_simps]:
  "currentView (do_effs es c) = currentView c" "navActive (do_effs es c) = navActive c"
  "refreshTimer (do_effs es c) = refreshTimer c" "timers (do_effs es c) = timers c"
  "nextTimer (do_effs es c) = nextTimer c" "now (do_effs es c) = now c"
  "exnMsg (do_effs es c) = exnMsg c" "syntaxMsg (do_effs es c) = syntaxMsg c"
  by (induction es arbitrary: c; simp add: frame_simps)+

lemma do_effs_sent [frame_simps]: "sent (do_effs es c) = sent c @ concat (map eff_reqs es)"
  by (induction es arbitrary: c) (simp_all add: frame_simps)

lemma do_effs_length [frame_simps]:
  "length (nodes (do_effs es c)) = length (nodes c) + length (filter is_new es)"
  by (induction es arbitrary: c) (simp_all add: frame_simps)

lemma do_effs_nextPid: "nextPid c \<le> nextPid (do_effs es c)"
  by (induction es arbitrary: c) (auto intro: order_trans do_eff_nextPid)

text \<open>A callback is a run of a prefix of its effects, followed by the error handler if it threw.\<close>

fun done_effs :: "eff option list \<Rightarrow> eff list" where
  "done_effs (Some e # es) = e # done_effs es"
| "done_effs _ = []"

lemma done_effs_mem: "e \<in> set (done_effs es) \<Longrightarrow> Some e \<in> set es"
  by (induction es rule: done_effs.induct) auto

lemma run_stmts_effs:
  "run_stmts (map (map_option do_eff) es) c = (do_effs (done_effs es) c, None \<notin> set es)"
proof (induction es arbitrary: c)
  case (Cons m es)
  then show ?case by (cases m) auto
qed simp

definition settled_effs :: "cont \<Rightarrow> jv list \<Rightarrow> console \<Rightarrow> eff list" where
  "settled_effs k vs c = done_effs (then_effs k vs (overlays c)) @
     (if None \<in> set (then_effs k vs (overlays c)) then catch_effs k (exnMsg c) else [])"

lemma fulfil_effs: "fulfil k vs c = do_effs (settled_effs k vs c) c"
  by (simp add: fulfil_def then_catch_def run_stmts_effs settled_effs_def reject_def frame_simps)

lemma settled_stays: "e \<in> set (settled_effs k vs c) \<Longrightarrow> stays_in (cont_ids k) e"
  using then_effs_stay [of k vs "overlays c"] catch_effs_stay [of e k]
  by (auto simp: settled_effs_def all_stay_def dest: done_effs_mem split: if_splits)

text \<open>
  Every response is a change of the pending promises followed by the effects of one callback, if any.
\<close>

lemma respond_cases:
  obtains "respond q i out c = c"
  | v where "respond q i out c = store_value q i v c"
  | p es where "p \<in> set (pending c)" "pid p = q" "\<And>e. e \<in> set es \<Longrightarrow> stays_in (cont_ids (pcont p)) e"
      "respond q i out c = do_effs es (drop_pending q c)"
      "(\<exists>vs. es = settled_effs (pcont p) vs (drop_pending q c)) \<or> (\<exists>msg. es = catch_effs (pcont p) msg)"
proof (cases "find (\<lambda>p. pid p = q) (pending c)")
  case None
  then show ?thesis by (intro that(1)) (simp add: respond_def)
next
  case (Some p)
  then have p: "p \<in> set (pending c)" "pid p = q" by (auto simp: find_Some_iff)
  show ?thesis
  proof (cases "i < length (preqs p) \<and> i < length (pgot p) \<and> pgot p ! i = None")
    case False
    with Some show ?thesis by (intro that(1)) (auto simp: respond_def)
  next
    case True
    show ?thesis
    proof (cases "settle (preqs p ! i) out")
      case (Inl msg)
      with Some True p show ?thesis
        by (intro that(3) [of p "catch_effs (pcont p) msg"])
           (auto simp: respond_def reject_def catch_effs_stay)
    next
      case (Inr v)
      let ?got = "(pgot p)[i := Some v]"
      show ?thesis
      proof (cases "None \<in> set ?got")
        case True
        with Some Inr \<open>i < _ \<and> _\<close> show ?thesis by (intro that(2) [of v]) (simp add: respond_def Let_def)
      next
        case False
        with Some Inr \<open>i < _ \<and> _\<close> p show ?thesis
          by (intro that(3) [of p "settled_effs (pcont p) (map the ?got) (drop_pending q c)"])
             (auto simp: respond_def Let_def fulfil_effs settled_stays)
      qed
    qed
  qed
qed

section \<open>Rendering and clicking as effect lists\<close>

definition current_effs :: "console \<Rightarrow> eff list" where
  "current_effs c = (case views (currentView c) of None \<Rightarrow> []
     | Some f \<Rightarrow> render_effs f (now c) (length (nodes c)))"

lemma render_current_effs: "render_current c = do_effs (current_effs c) c"
  by (simp add: render_current_def current_effs_def render_def split: option.split)

lemma views_nav: "views v \<noteq> None \<longleftrightarrow> v \<in> set nav_views"
  by (auto simp: views_def nav_views_def)

abbreviation news :: "eff list \<Rightarrow> nat" where
  "news es \<equiv> length (filter is_new es)"

text \<open>A view mentions only the containers it has just created.\<close>

definition own_ids :: "nid \<Rightarrow> eff list \<Rightarrow> bool" where
  "own_ids b es = (\<forall>e \<in> set es. eff_ids e \<subseteq> {b ..< b + news es})"

lemma crud_ids: "own_ids b (renderCrudEntity ent lab cols b)"
  by (auto simp: own_ids_def renderCrudEntity_def loadTable_def Let_def)

lemma open_view_ids: "cont_ids k = {b} \<Longrightarrow> own_ids b (open_view ti g b @ [Fetch rs k])"
  by (auto simp: own_ids_def open_view_def)

lemma overview_ids: "own_ids b (renderOverview b)"
  by (auto simp: own_ids_def renderOverview_def)

lemma editor_ids: "own_ids b (renderEditor b)"
  by (auto simp: own_ids_def renderEditor_def editor_toolbar_def)

lemma render_own_ids: "own_ids b (render_effs f t b)"
  by (cases f) (simp_all add: render_effs_def overview_ids editor_ids crud_ids open_view_ids renderLive_def
      renderRoutes_def renderUpstreams_def renderHealth_def renderAnalytics_def renderAiOps_def renderFleet_def
      renderConfig_def renderRoutesCrud_def renderUpstreamsCrud_def renderServicesCrud_def
      renderConsumersCrud_def renderPoliciesCrud_def)

lemma current_own_ids: "own_ids (length (nodes c)) (current_effs c)"
  using render_own_ids by (simp add: current_effs_def own_ids_def split: option.split)

text \<open>A listener mentions the containers it captured and those it creates.\<close>

lemma click_ids:
  assumes "e \<in> set (click_effs a ok c)"
  shows "eff_ids e \<subseteq> action_ids a \<union> {length (nodes c) ..< length (nodes c) + news (click_effs a ok c)}"
proof (cases a)
  case (ARender f)
  with assms render_own_ids [of "length (nodes c)" f "now c"] show ?thesis
    by (auto simp: click_effs_def Let_def own_ids_def)
next
  case (ACrudRefresh ent lab cols)
  with assms crud_ids [of "length (nodes c)" ent lab cols] show ?thesis
    by (auto simp: click_effs_def Let_def own_ids_def)
next
  case (AEdit x item)
  with assms show ?thesis
    by (cases "get_or item ''name'' (JStr [])")
       (auto simp: click_effs_def Let_def openEditDialog_def dialog_el_def)
qed (use assms in \<open>auto simp: click_effs_def Let_def validate_click_def publish_click_def reset_click_def
      openCreateDialog_def dialog_el_def delete_click_def create_click_def save_click_def
      split: option.splits if_splits\<close>)

text \<open>Effects that stay within a set of containers leave the rest of the page alone.\<close>

lemma stays_in_frame:
  "stays_in S e \<Longrightarrow> content (do_eff e c) = content c \<and> length (nodes (do_eff e c)) = length (nodes c) \<and>
     (\<forall>j < length (nodes c). j \<notin> S \<longrightarrow> nodes (do_eff e c) ! j = nodes c ! j)"
  by (cases e) (auto simp: stays_in_def frame_simps node_simps)

lemma stays_in_frames:
  assumes "\<And>e. e \<in> set es \<Longrightarrow> stays_in S e"
  shows "content (do_effs es c) = content c \<and> length (nodes (do_effs es c)) = length (nodes c) \<and>
     (\<forall>j < length (nodes c). j \<notin> S \<longrightarrow> nodes (do_effs es c) ! j = nodes c ! j)"
  using assms
proof (induction es arbitrary: c)
  case (Cons e es)
  then show ?case using stays_in_frame [of S e c] Cons.IH [of "do_eff e c"] by (simp del: do_eff.simps)
qed simp

section \<open>Container identities are in bounds\<close>

definition kids_ids :: "console \<Rightarrow> nid \<Rightarrow> nid set" where
  "kids_ids c j = (\<Union>d \<in> set (ckids (nodes c ! j)). dom_ids d)"

definition page_bnd :: "nat \<Rightarrow> console \<Rightarrow> bool" where
  "page_bnd N c = ((\<forall>d \<in> set (content c). dom_ids d \<subseteq> {..<N}) \<and>
     (\<forall>j < length (nodes c). kids_ids c j \<subseteq> {..<N}) \<and> set (overlays c) \<subseteq> {..<N} \<and>
     (\<forall>p \<in> set (pending c). cont_ids (pcont p) \<subseteq> {..<N}))"

definition page_ok :: "console \<Rightarrow> bool" where
  "page_ok c = page_bnd (length (nodes c)) c"

lemma remove_first_listeners:
  "d \<in> set (fst (remove_first c ds)) \<Longrightarrow> a \<in> set (listeners d) \<Longrightarrow> \<exists>d' \<in> set ds. a \<in> set (listeners d')"
proof (induction c ds arbitrary: d rule: remove_first.induct)
  case (2 c t as ks ls ds)
  then show ?case by (fastforce split: prod.splits bool.splits if_splits)
qed (fastforce split: prod.splits)+

lemma remove_first_ids:
  "(\<Union>d \<in> set (fst (remove_first c ds)). dom_ids d) \<subseteq> (\<Union>d \<in> set ds. dom_ids d)"
proof
  fix i assume "i \<in> (\<Union>d \<in> set (fst (remove_first c ds)). dom_ids d)"
  then obtain d where "d \<in> set (fst (remove_first c ds))" "i \<in> dom_ids d" by blast
  then show "i \<in> (\<Union>d \<in> set ds. dom_ids d)"
    using remove_first_refs [of d c ds i] remove_first_listeners [of d c ds]
    unfolding dom_ids_def by blast
qed

lemma text_kids_ids: "d \<in> set (text_kids t) \<Longrightarrow> dom_ids d = {}"
  by (auto simp: text_kids_def split: if_splits)

text \<open>After an effect, a container mentions what it mentioned before and what the effect adds to it.\<close>

lemma kids_ids_eff:
  assumes "j < length (nodes c)"
  shows "kids_ids (do_eff e c) j \<subseteq> kids_ids c j \<union> (if j \<in> eff_ids e then eff_ids e else {})"
  using assms
proof (cases e)
  case (CrudError i m)
  with assms remove_first_ids [of "''error-msg''" "ckids (nodes c ! j)"] show ?thesis
    by (auto simp: kids_ids_def node_simps)
qed (auto simp: kids_ids_def node_simps nth_append text_kids_ids)

lemma kids_ids_new:
  "\<not> j < length (nodes c) \<Longrightarrow> j < length (nodes (do_eff e c)) \<Longrightarrow> kids_ids (do_eff e c) j = {}"
  by (cases e) (auto simp: kids_ids_def frame_simps nth_append)

lemma page_bnd_eff:
  assumes "page_bnd N c" "eff_ids e \<subseteq> {..<N}"
  shows "page_bnd N (do_eff e c)"
proof -
  have "kids_ids (do_eff e c) j \<subseteq> {..<N}" if j: "j < length (nodes (do_eff e c))" for j
  proof (cases "j < length (nodes c)")
    case True
    then have "kids_ids c j \<subseteq> {..<N}" using assms(1) by (simp add: page_bnd_def)
    with kids_ids_eff [OF True, of e] assms(2) show ?thesis by (auto split: if_splits)
  next
    case False
    with kids_ids_new [OF False j] show ?thesis by simp
  qed
  moreover have "(\<forall>d \<in> set (content (do_eff e c)). dom_ids d \<subseteq> {..<N}) \<and> set (overlays (do_eff e c)) \<subseteq> {..<N} \<and>
      (\<forall>p \<in> set (pending (do_eff e c)). cont_ids (pcont p) \<subseteq> {..<N})"
    using assms by (cases e) (auto simp: page_bnd_def frame_simps dest: notin_set_remove1 set_mp [OF set_remove1_subset])
  ultimately show ?thesis by (simp add: page_bnd_def)
qed

lemma page_bnd_mono: "page_bnd M c \<Longrightarrow> M \<le> N \<Longrightarrow> page_bnd N c"
  unfolding page_bnd_def by (meson lessThan_subset_iff subset_trans)

lemma page_bnd_effs:
  assumes "page_bnd N c" "\<And>e. e \<in> set es \<Longrightarrow> eff_ids e \<subseteq> {..<N}"
  shows "page_bnd N (do_effs es c)"
  using assms by (intro do_effs_inv [where I = "page_bnd N"]) (auto intro: page_bnd_eff)

lemma page_ok_effs:
  assumes "page_ok c" "\<And>e. e \<in> set es \<Longrightarrow> eff_ids e \<subseteq> {..<length (nodes c) + news es}"
  shows "page_ok (do_effs es c)"
  unfolding page_ok_def do_effs_length
  using assms by (intro page_bnd_effs) (auto simp: page_ok_def intro: page_bnd_mono)

section \<open>Invariants of the event loop\<close>

text \<open>The effects of one callback of a promise: its \<open>catch\<close>, or its \<open>then\<close> with \<open>catch\<close> if it throws.\<close>

definition callback :: "pend \<Rightarrow> console \<Rightarrow> eff list \<Rightarrow> bool" where
  "callback p c es = ((\<exists>vs. es = settled_effs (pcont p) vs (drop_pending (pid p) c)) \<or>
     (\<exists>msg. es = catch_effs (pcont p) msg))"

lemma callback_stays: "callback p c es \<Longrightarrow> e \<in> set es \<Longrightarrow> stays_in (cont_ids (pcont p)) e"
  by (auto simp: callback_def settled_stays catch_effs_stay)

text \<open>
  What a property of the console has to survive to be kept by every step: a
  rendering of the current view, a listener, the user's typing, a stored value of \<open>Promise.all\<close>, a
  callback of a promise, and the changes of the routing, workspace and clock. With
  start-up it holds in every reachable state.
\<close>

locale loop_step =
  fixes I :: "console \<Rightarrow> bool"
  assumes routed: "I c \<Longrightarrow> v \<in> set nav_views \<Longrightarrow> I (c\<lparr>currentView := v, navActive := filter (\<lambda>x. x = v) nav_views\<rparr>)"
    and rendered: "I c \<Longrightarrow> I (render_current c)"
    and listened: "I c \<Longrightarrow> clickable c a \<Longrightarrow> I (click a ok c)"
    and wrote: "I c \<Longrightarrow> I (do_eff (SetValue i txt) c)"
    and stored: "I c \<Longrightarrow> I (store_value q i val c)"
    and called_back: "I c \<Longrightarrow> p \<in> set (pending c) \<Longrightarrow> callback p c es \<Longrightarrow>
       I (do_effs es (drop_pending (pid p) c))"
    and chosen: "I c \<Longrightarrow> (v, l) \<in> set (switcher c) \<Longrightarrow> I (c\<lparr>switchVal := v\<rparr>)"
    and elapsed: "I c \<Longrightarrow> 0 \<le> d \<Longrightarrow> I (c\<lparr>now := now c + d\<rparr>)"
begin

lemma answer: "I c \<Longrightarrow> I (respond q i out c)"
  by (rule respond_cases [of q i out c]) (auto simp: stored callback_def intro!: called_back)

lemma step_keeps: "console_step c c' \<Longrightarrow> I c \<Longrightarrow> I c'"
  by (induction rule: console_step.induct)
     (simp_all add: switchView_def tick_def change_workspace_def routed rendered listened wrote answer chosen elapsed
       del: do_eff.simps)

lemma steps_keep: "console_step\<^sup>*\<^sup>* c c' \<Longrightarrow> I c \<Longrightarrow> I c'"
  by (induction rule: rtranclp_induct) (auto intro: step_keeps)

end

locale loop_invariant = loop_step +
  assumes start: "I (boot exn syn t)"
begin

lemma reach: "reachable c \<Longrightarrow> I c"
  by (induction rule: reachable.induct) (auto intro: start step_keeps)

end

lemma refresh_fields [frame_simps]:
  "nodes (startAutoRefresh c) = nodes c" "content (startAutoRefresh c) = content c"
  "overlays (startAutoRefresh c) = overlays c" "pending (startAutoRefresh c) = pending c"
  "history (startAutoRefresh c) = history c" "sent (startAutoRefresh c) = sent c"
  "nextPid (startAutoRefresh c) = nextPid c" "currentView (startAutoRefresh c) = currentView c"
  "navActive (startAutoRefresh c) = navActive c"
  by (simp_all add: startAutoRefresh_def stopAutoRefresh_def Let_def split: option.split)

text \<open>Starting the refresh leaves exactly one timer, whatever timer was running before.\<close>

lemma one_timer:
  assumes "timers c = (case refreshTimer c of None \<Rightarrow> [] | Some t \<Rightarrow> [t])"
  shows "timers (startAutoRefresh c) = [nextTimer c] \<and> refreshTimer (startAutoRefresh c) = Some (nextTimer c) \<and>
    nextTimer (startAutoRefresh c) = Suc (nextTimer c)"
  using assms by (auto simp: startAutoRefresh_def stopAutoRefresh_def Let_def split: option.splits)

lemma switchView_fields [frame_simps]:
  "currentView (switchView v c) = v" "navActive (switchView v c) = filter (\<lambda>x. x = v) nav_views"
  "timers (switchView v c) = timers c" "refreshTimer (switchView v c) = refreshTimer c"
  "nextTimer (switchView v c) = nextTimer c"
  by (simp_all add: switchView_def render_current_effs frame_simps)

text \<open>Navigation and the refresh timer.\<close>

definition nav_ok :: "console \<Rightarrow> bool" where
  "nav_ok c = (currentView c \<in> set nav_views \<and> navActive c = [currentView c] \<and>
     (\<exists>t. timers c = [t] \<and> refreshTimer c = Some t \<and> t < nextTimer c))"

lemma filter_eq_distinct: "distinct xs \<Longrightarrow> v \<in> set xs \<Longrightarrow> filter (\<lambda>x. x = v) xs = [v]"
  by (induction xs) (auto simp: filter_empty_conv)

lemma nav_filter: "v \<in> set nav_views \<Longrightarrow> filter (\<lambda>x. x = v) nav_views = [v]"
proof -
  have "distinct nav_views" by (simp add: nav_views_def)
  then show "v \<in> set nav_views \<Longrightarrow> ?thesis" by (rule filter_eq_distinct)
qed

lemma pending_fields [frame_simps]:
  "nodes (drop_pending q c) = nodes c" "content (drop_pending q c) = content c"
  "overlays (drop_pending q c) = overlays c" "currentView (drop_pending q c) = currentView c"
  "navActive (drop_pending q c) = navActive c" "timers (drop_pending q c) = timers c"
  "refreshTimer (drop_pending q c) = refreshTimer c" "nextTimer (drop_pending q c) = nextTimer c"
  "history (drop_pending q c) = history c" "sent (drop_pending q c) = sent c"
  "nextPid (drop_pending q c) = nextPid c" "now (drop_pending q c) = now c" "exnMsg (drop_pending q c) = exnMsg c"
  "nodes (store_value q i v c) = nodes c" "content (store_value q i v c) = content c"
  "overlays (store_value q i v c) = overlays c" "currentView (store_value q i v c) = currentView c"
  "navActive (store_value q i v c) = navActive c" "timers (store_value q i v c) = timers c"
  "refreshTimer (store_value q i v c) = refreshTimer c" "nextTimer (store_value q i v c) = nextTimer c"
  "history (store_value q i v c) = history c" "sent (store_value q i v c) = sent c"
  "nextPid (store_value q i v c) = nextPid c"
  by (simp_all add: drop_pending_def store_value_def)

interpretation nav: loop_invariant nav_ok
proof unfold_locales
  show "nav_ok (boot exn syn t)" for exn syn t
  proof -
    let ?c = "switchView ''overview'' (do_eff (ShowBadge ''connecting'') (initWorkspaceSwitcher (loaded_page exn syn t)))"
    have "timers ?c = []" "refreshTimer ?c = None" "nextTimer ?c = 1"
      by (simp_all add: frame_simps initWorkspaceSwitcher_def del: do_eff.simps) (simp_all add: loaded_page_def)
    moreover have "''overview'' \<in> set nav_views" by (simp add: nav_views_def)
    ultimately show ?thesis
      using one_timer [of ?c] by (simp add: boot_def nav_ok_def frame_simps nav_filter del: do_eff.simps)
  qed
qed (simp_all add: nav_ok_def frame_simps nav_filter render_current_effs click_def del: do_eff.simps)

text \<open>Identities.\<close>

lemma clickable_ids: "page_bnd N c \<Longrightarrow> clickable c a \<Longrightarrow> action_ids a \<subseteq> {..<N}"
  by (fastforce simp: page_bnd_def clickable_def kids_ids_def dom_ids_def)

lemma kids_ids_cong: "nodes c = nodes c' \<Longrightarrow> kids_ids c j = kids_ids c' j"
  by (simp add: kids_ids_def)

lemma page_ok_cong:
  assumes "page_ok c" "nodes c' = nodes c" "content c' = content c" "overlays c' = overlays c"
    "pcont ` set (pending c') \<subseteq> pcont ` set (pending c)"
  shows "page_ok c'"
proof -
  have "kids_ids c' = kids_ids c" using assms(2) by (auto simp: kids_ids_def)
  moreover have "\<forall>p \<in> set (pending c'). cont_ids (pcont p) \<subseteq> {..<length (nodes c)}"
    using assms(1,5) by (force simp: page_ok_def page_bnd_def)
  ultimately show ?thesis using assms(1-4) by (simp add: page_ok_def page_bnd_def)
qed

lemma drop_conts: "pcont ` set (pending (drop_pending q c)) \<subseteq> pcont ` set (pending c)"
  by (auto simp: drop_pending_def)

lemma store_conts: "pcont ` set (pending (store_value q i v c)) \<subseteq> pcont ` set (pending c)"
  by (auto simp: store_value_def split: if_splits)

lemma page_ok_render: "page_ok c \<Longrightarrow> page_ok (render_current c)"
  unfolding render_current_effs
  by (rule page_ok_effs) (use current_own_ids [of c] in \<open>fastforce simp: own_ids_def\<close>)+

lemma page_ok_loaded: "page_ok (loaded_page exn syn t)"
  by (simp add: page_ok_def page_bnd_def loaded_page_def dom_ids_Elem)

interpretation page: loop_invariant page_ok
proof unfold_locales
  show "page_ok (boot exn syn t)" for exn syn t
  proof -
    let ?c = "initWorkspaceSwitcher (loaded_page exn syn t)"
    have "page_ok ?c"
      using page_ok_effs [OF page_ok_loaded, of "[Fetch [get_json ''/workspaces''] KWorkspaces]"]
      by (simp add: initWorkspaceSwitcher_def)
    then have "page_ok (switchView ''overview'' (do_eff (ShowBadge ''connecting'') ?c))"
      unfolding switchView_def by (intro page_ok_render) (auto elim: page_ok_cong)
    then show ?thesis unfolding boot_def by (rule page_ok_cong) (simp_all add: frame_simps)
  qed
  show "page_ok (render_current c)" if "page_ok c" for c by (rule page_ok_render [OF that])
  show "page_ok (click a ok c)" if "page_ok c" "clickable c a" for c a ok
    unfolding click_def
    by (rule page_ok_effs [OF that(1)])
       (use click_ids [of _ a ok c] clickable_ids [OF that(1) [unfolded page_ok_def] that(2)] in fastforce)
  show "page_ok (do_eff (SetValue i s) c)" if "page_ok c" for i s c
    using that by (auto simp: page_ok_def page_bnd_def frame_simps kids_ids_def upd_node_def nth_list_update)
  show "page_ok (do_effs es (drop_pending (pid p) c))"
    if "page_ok c" "p \<in> set (pending c)" "callback p c es" for c p es
  proof (rule page_ok_effs)
    show "page_ok (drop_pending (pid p) c)"
      by (rule page_ok_cong [OF that(1)]) (simp_all add: frame_simps drop_conts)
    show "eff_ids e \<subseteq> {..<length (nodes (drop_pending (pid p) c)) + news es}" if "e \<in> set es" for e
      using callback_stays [OF \<open>callback p c es\<close> that] \<open>page_ok c\<close> \<open>p \<in> _\<close>
      by (fastforce simp: stays_in_def page_ok_def page_bnd_def frame_simps)
  qed
qed (erule page_ok_cong; simp add: frame_simps store_conts)+

text \<open>
  A property that every single effect keeps, with the state changes that are no effects, is an
  invariant of the loop.
\<close>

locale effect_invariant =
  fixes I :: "console \<Rightarrow> bool"
  assumes loaded: "I (loaded_page exn syn t)"
    and effect: "I c \<Longrightarrow> I (do_eff e c)"
    and routed: "I c \<Longrightarrow> v \<in> set nav_views \<Longrightarrow> I (c\<lparr>currentView := v, navActive := filter (\<lambda>x. x = v) nav_views\<rparr>)"
    and timer: "I c \<Longrightarrow> I (startAutoRefresh c)"
    and stored: "I c \<Longrightarrow> I (store_value q i val c)"
    and dropped: "I c \<Longrightarrow> I (drop_pending q c)"
    and chosen: "I c \<Longrightarrow> (v, l) \<in> set (switcher c) \<Longrightarrow> I (c\<lparr>switchVal := v\<rparr>)"
    and elapsed: "I c \<Longrightarrow> 0 \<le> d \<Longrightarrow> I (c\<lparr>now := now c + d\<rparr>)"
begin

lemma effects: "I c \<Longrightarrow> I (do_effs es c)"
  by (rule do_effs_inv) (rule effect)

lemma booted: "I (boot exn syn t)"
proof -
  have "''overview'' \<in> set nav_views" by (simp add: nav_views_def)
  then show ?thesis unfolding boot_def switchView_def initWorkspaceSwitcher_def render_current_effs
    by (intro timer effects routed effect loaded)
qed

end

sublocale effect_invariant \<subseteq> loop: loop_invariant
  by unfold_locales
     (simp_all add: booted routed effects effect stored dropped chosen elapsed render_current_effs click_def
       del: do_eff.simps)

text \<open>Pending promises have distinct identities and one slot per request.\<close>

definition pend_ok :: "console \<Rightarrow> bool" where
  "pend_ok c = (distinct (map pid (pending c)) \<and>
     (\<forall>p \<in> set (pending c). pid p < nextPid c \<and> length (pgot p) = length (preqs p)))"

interpretation pend: effect_invariant pend_ok
proof unfold_locales
  show "pend_ok (do_eff e c)" if "pend_ok c" for e c
    using that by (cases e) (auto simp: pend_ok_def frame_simps less_Suc_eq)
  show "pend_ok (store_value q i val c)" if "pend_ok c" for q i val c
    using that by (auto simp: pend_ok_def store_value_def o_def if_distrib cong: if_cong)
  show "pend_ok (drop_pending q c)" if "pend_ok c" for q c
    using that by (auto simp: pend_ok_def drop_pending_def distinct_map_filter)
qed (simp_all add: pend_ok_def frame_simps loaded_page_def)

text \<open>The sample window never exceeds its capacity.\<close>

definition window_ok :: "console \<Rightarrow> bool" where
  "window_ok c = (length (history c) \<le> maxPoints)"

interpretation window: effect_invariant window_ok
proof unfold_locales
  show "window_ok (do_eff e c)" if "window_ok c" for e c
    using that by (cases e) (simp_all add: window_ok_def frame_simps live.push_length)
qed (simp_all add: window_ok_def frame_simps loaded_page_def)

text \<open>No code path marks the editor's text as edited.\<close>

definition never_dirty :: "console \<Rightarrow> bool" where
  "never_dirty c = (\<not> editorDirty c)"

interpretation dirty: effect_invariant never_dirty
proof unfold_locales
  show "never_dirty (do_eff e c)" if "never_dirty c" for e c
    using that by (cases e) (simp_all add: never_dirty_def frame_simps)
qed (simp_all add: never_dirty_def frame_simps loaded_page_def startAutoRefresh_def stopAutoRefresh_def Let_def
      store_value_def drop_pending_def split: option.split)

end
