(* ===== verification/Console_Isolation.thy ===== *)
theory Console_Isolation
  imports Console_Invariants
begin

text \<open>
  Stale responses. A promise that was pending when a view was rendered keeps its callbacks, but the
  containers these captured are no longer in \<open>#content\<close>: whatever happens later, its answer does not
  change what \<open>#content\<close> shows. The proof separates the containers into the old ones (with the dialogs
  opened from them) and the rest, and shows that no step connects the two.
\<close>

section \<open>Separation\<close>

definition one_side :: "nid set \<Rightarrow> nid set \<Rightarrow> bool" where
  "one_side T S = (S \<subseteq> T \<or> S \<inter> T = {})"

definition apart :: "nid set \<Rightarrow> nat \<Rightarrow> console \<Rightarrow> bool" where
  "apart T q c = ((\<forall>d \<in> set (content c). dom_ids d \<inter> T = {}) \<and>
     (\<forall>j < length (nodes c). if j \<in> T then kids_ids c j \<subseteq> T else kids_ids c j \<inter> T = {}) \<and>
     (\<forall>p \<in> set (pending c). one_side T (cont_ids (pcont p)) \<and> (pid p < q \<longrightarrow> cont_ids (pcont p) \<subseteq> T)) \<and>
     q \<le> nextPid c)"

fun content_eff :: "eff \<Rightarrow> bool" where
  "content_eff (AppendContent d) = True"
| "content_eff e = False"

lemma apart_eff:
  assumes "apart T q c" "one_side T (eff_ids e)" "content_eff e \<Longrightarrow> eff_ids e \<inter> T = {}"
  shows "apart T q (do_eff e c)"
proof -
  have "if j \<in> T then kids_ids (do_eff e c) j \<subseteq> T else kids_ids (do_eff e c) j \<inter> T = {}"
    if j: "j < length (nodes (do_eff e c))" for j
  proof (cases "j < length (nodes c)")
    case True
    then have "if j \<in> T then kids_ids c j \<subseteq> T else kids_ids c j \<inter> T = {}" using assms(1) by (simp add: apart_def)
    with kids_ids_eff [OF True, of e] assms(2) show ?thesis unfolding one_side_def by (auto split: if_splits)
  next
    case False
    with kids_ids_new [OF False j] show ?thesis by simp
  qed
  moreover have "\<forall>d \<in> set (content (do_eff e c)). dom_ids d \<inter> T = {}"
    using assms(1,3) by (cases e) (auto simp: apart_def frame_simps)
  moreover have "(\<forall>p \<in> set (pending (do_eff e c)). one_side T (cont_ids (pcont p)) \<and>
      (pid p < q \<longrightarrow> cont_ids (pcont p) \<subseteq> T)) \<and> q \<le> nextPid (do_eff e c)"
    using assms(1,2) by (cases e) (auto simp: apart_def frame_simps)
  ultimately show ?thesis by (simp add: apart_def)
qed

lemma apart_effs:
  assumes "apart T q c"
    and "\<And>e. e \<in> set es \<Longrightarrow> one_side T (eff_ids e) \<and> (content_eff e \<longrightarrow> eff_ids e \<inter> T = {})"
  shows "apart T q (do_effs es c)"
  using assms by (intro do_effs_inv [where I = "apart T q"]) (auto intro: apart_eff)

lemma apart_cong:
  assumes "apart T q c" "nodes c' = nodes c" "content c' = content c"
    "\<And>p. p \<in> set (pending c') \<Longrightarrow> \<exists>p0 \<in> set (pending c). pcont p0 = pcont p \<and> pid p0 = pid p"
    "nextPid c' = nextPid c"
  shows "apart T q c'"
proof -
  have "kids_ids c' = kids_ids c" using assms(2) by (auto simp: kids_ids_def)
  moreover have "\<forall>p \<in> set (pending c'). one_side T (cont_ids (pcont p)) \<and> (pid p < q \<longrightarrow> cont_ids (pcont p) \<subseteq> T)"
    using assms(1,4) unfolding apart_def by metis
  ultimately show ?thesis using assms(1-3,5) by (simp add: apart_def)
qed

text \<open>The old side lies within the containers that exist.\<close>

definition separated :: "nat \<Rightarrow> console \<Rightarrow> bool" where
  "separated q c = (\<exists>T. T \<subseteq> {..<length (nodes c)} \<and> apart T q c)"

lemma separated_draw:
  assumes "apart T q c" "T \<subseteq> {..<length (nodes c)}" "own_ids (length (nodes c)) es"
  shows "apart T q (do_effs es c)"
  using assms by (intro apart_effs) (fastforce simp: own_ids_def one_side_def)+

lemma separated_render:
  assumes "separated q c"
  shows "separated q (render_current c)"
proof -
  from assms obtain T where T: "T \<subseteq> {..<length (nodes c)}" "apart T q c" by (auto simp: separated_def)
  from separated_draw [OF T(2,1) current_own_ids] T(1) show ?thesis
    by (auto simp: separated_def render_current_effs frame_simps intro!: exI [of _ T])
qed

lemma clickable_side:
  assumes "apart T q c" "clickable c a"
  shows "one_side T (action_ids a)"
  using assms unfolding clickable_def
proof (elim disjE bexE exE conjE)
  fix d assume "d \<in> set (content c)" "a \<in> set (listeners d)"
  with assms(1) show ?thesis by (fastforce simp: apart_def one_side_def dom_ids_def)
next
  fix i d assume i: "i < length (nodes c)" "d \<in> set (ckids (nodes c ! i))" "a \<in> set (listeners d)"
  then have "action_ids a \<subseteq> kids_ids c i" by (auto simp: kids_ids_def dom_ids_def)
  with assms(1) i(1) show ?thesis by (fastforce simp: apart_def one_side_def split: if_splits)
qed

text \<open>Only listeners that captured nothing write \<open>#content\<close>.\<close>

lemma click_content: "e \<in> set (click_effs a ok c) \<Longrightarrow> content_eff e \<Longrightarrow> action_ids a = {}"
  by (cases a) (auto simp: click_effs_def Let_def validate_click_def publish_click_def reset_click_def
      openCreateDialog_def openEditDialog_def delete_click_def create_click_def save_click_def
      split: option.splits if_splits)

lemma apart_grow:
  assumes "apart T q c" "page_ok c" and X: "\<And>j. j \<in> X \<Longrightarrow> length (nodes c) \<le> j"
  shows "apart (T \<union> X) q c"
proof -
  let ?b = "length (nodes c)"
  have S: "S \<inter> (T \<union> X) = S \<inter> T" if "S \<subseteq> {..<?b}" for S using X that by fastforce
  have "\<forall>d \<in> set (content c). dom_ids d \<inter> (T \<union> X) = {}"
    using assms(1,2) S by (simp add: apart_def page_ok_def page_bnd_def)
  moreover have "if j \<in> T \<union> X then kids_ids c j \<subseteq> T \<union> X else kids_ids c j \<inter> (T \<union> X) = {}" if "j < ?b" for j
    using assms(1,2) that S [of "kids_ids c j"] X [of j]
    by (auto simp: apart_def page_ok_def page_bnd_def split: if_splits)
  moreover have "one_side (T \<union> X) (cont_ids (pcont p)) \<and> (pid p < q \<longrightarrow> cont_ids (pcont p) \<subseteq> T \<union> X)"
    if "p \<in> set (pending c)" for p
    using assms(1,2) that S [of "cont_ids (pcont p)"] by (auto simp: apart_def one_side_def page_ok_def page_bnd_def)
  ultimately show ?thesis using assms(1) by (simp add: apart_def)
qed

text \<open>The fresh containers of a listener join the side of the containers it captured.\<close>

lemma separated_click:
  assumes "separated q c" "page_ok c" "clickable c a"
  shows "separated q (click a ok c)"
proof -
  let ?b = "length (nodes c)" and ?es = "click_effs a ok c"
  let ?new = "{?b ..< ?b + news ?es}"
  from assms(1) obtain T where T: "T \<subseteq> {..<?b}" "apart T q c" by (auto simp: separated_def)
  note ids = click_ids [of _ a ok c]
  show ?thesis
  proof (cases "action_ids a \<inter> T = {}")
    case True
    have "eff_ids e \<inter> T = {}" if "e \<in> set ?es" for e using ids [OF that] True T(1) by fastforce
    then have "apart T q (click a ok c)" unfolding click_def using T by (intro apart_effs) (auto simp: one_side_def)
    with T(1) show ?thesis by (auto simp: separated_def click_def frame_simps intro!: exI [of _ T])
  next
    case False
    then have sub: "action_ids a \<subseteq> T" using clickable_side [OF T(2) assms(3)] by (simp add: one_side_def)
    have "apart (T \<union> ?new) q (click a ok c)" unfolding click_def
    proof (rule apart_effs)
      show "apart (T \<union> ?new) q c" by (rule apart_grow [OF T(2) assms(2)]) simp
      show "one_side (T \<union> ?new) (eff_ids e) \<and> (content_eff e \<longrightarrow> eff_ids e \<inter> (T \<union> ?new) = {})"
        if "e \<in> set ?es" for e
        using ids [OF that] click_content [OF that] sub False by (auto simp: one_side_def)
    qed
    moreover have "T \<union> ?new \<subseteq> {..<length (nodes (click a ok c))}" using T(1) by (auto simp: click_def frame_simps)
    ultimately show ?thesis unfolding separated_def by blast
  qed
qed

lemma separated_cong:
  assumes "separated q c" "nodes c' = nodes c" "content c' = content c"
    "\<And>p. p \<in> set (pending c') \<Longrightarrow> \<exists>p0 \<in> set (pending c). pcont p0 = pcont p \<and> pid p0 = pid p"
    "nextPid c' = nextPid c"
  shows "separated q c'"
  using assms apart_cong [OF _ assms(2-5)] by (auto simp: separated_def)

lemma store_pend: "p \<in> set (pending (store_value q i v c)) \<Longrightarrow>
    \<exists>p0 \<in> set (pending c). pcont p0 = pcont p \<and> pid p0 = pid p"
  by (auto simp: store_value_def split: if_splits)

text \<open>A callback stays on its side.\<close>

lemma separated_callback:
  assumes "separated q c" "p \<in> set (pending c)" "callback p c es"
  shows "separated q (do_effs es (drop_pending (pid p) c))"
proof -
  let ?c = "drop_pending (pid p) c"
  from assms(1) obtain T where T: "T \<subseteq> {..<length (nodes c)}" "apart T q c" by (auto simp: separated_def)
  have "apart T q ?c" by (rule apart_cong [OF T(2)]) (auto simp: frame_simps drop_pending_def)
  moreover have "one_side T (cont_ids (pcont p))" using T(2) assms(2) by (auto simp: apart_def)
  moreover have "stays_in S e \<Longrightarrow> \<not> content_eff e" for S e by (cases e) (simp_all add: stays_in_def)
  ultimately have "apart T q (do_effs es ?c)"
    using callback_stays [OF assms(3)] by (intro apart_effs) (fastforce simp: stays_in_def one_side_def)+
  with T(1) show ?thesis by (auto simp: separated_def frame_simps intro!: exI [of _ T])
qed

interpretation sep: loop_step "\<lambda>c. page_ok c \<and> separated q c" for q
proof unfold_locales
  show "page_ok (do_effs es (drop_pending (pid p) c)) \<and> separated q (do_effs es (drop_pending (pid p) c))"
    if "page_ok c \<and> separated q c" "p \<in> set (pending c)" "callback p c es" for c p es
    using that by (simp add: page.called_back separated_callback)
  show "page_ok (do_eff (SetValue i s) c) \<and> separated q (do_eff (SetValue i s) c)"
    if "page_ok c \<and> separated q c" for i s c
  proof -
    have "kids_ids (do_eff (SetValue i s) c) j = kids_ids c j" for j
      by (cases "j < length (nodes c)") (auto simp: kids_ids_def upd_node_def nth_list_update)
    then have "apart T q (do_eff (SetValue i s) c) = apart T q c" for T
      by (simp add: apart_def frame_simps)
    with that page.wrote [of c i s] show ?thesis by (simp add: separated_def frame_simps)
  qed
qed (auto simp: page.rendered page.listened page.stored separated_render separated_click page.routed page.chosen
      page.elapsed frame_simps intro: store_pend elim!: separated_cong)

section \<open>Stale responses\<close>

text \<open>What \<open>#content\<close> reaches lies on the new side.\<close>

lemma in_content_apart: "in_content c j \<Longrightarrow> apart T q c \<Longrightarrow> j \<notin> T"
proof (induction rule: in_content.induct)
  case (root d i)
  then show ?case by (fastforce simp: apart_def dom_ids_def)
next
  case (kid i d j)
  then have "j \<in> kids_ids c i" by (auto simp: kids_ids_def dom_ids_def)
  with kid show ?case by (fastforce simp: apart_def)
qed

text \<open>A response writes at most the containers its promise captured.\<close>

lemma respond_frame:
  assumes "pend_ok c" "p \<in> set (pending c)"
  shows "content (respond (pid p) i out c) = content c \<and>
     (\<forall>j < length (nodes c). j \<notin> cont_ids (pcont p) \<longrightarrow> nodes (respond (pid p) i out c) ! j = nodes c ! j)"
proof (rule respond_cases [of "pid p" i out c])
  fix p' es
  assume p': "p' \<in> set (pending c)" "pid p' = pid p" "\<And>e. e \<in> set es \<Longrightarrow> stays_in (cont_ids (pcont p')) e"
    "respond (pid p) i out c = do_effs es (drop_pending (pid p) c)"
  have "p' = p" using assms p'(1,2) by (auto simp: pend_ok_def distinct_map inj_on_def)
  with stays_in_frames [of es "cont_ids (pcont p')" "drop_pending (pid p) c"] p'(3,4) show ?thesis
    by (simp add: frame_simps)
qed (simp_all add: frame_simps)

lemma separated_start:
  assumes "page_ok c" "pend_ok c" "v \<in> set nav_views"
  shows "separated (nextPid c) (switchView v c)"
proof -
  obtain f where f: "views v = Some f" using views_nav [of v] assms(3) by auto
  let ?c = "c\<lparr>currentView := v, navActive := filter (\<lambda>x. x = v) nav_views, content := []\<rparr>"
  let ?T = "{..<length (nodes c)}"
  obtain es where es: "render_effs f (now c) (length (nodes c)) = ClearContent # es"
    by (cases f) (simp_all add: render_effs_def renderOverview_def renderEditor_def open_view_def renderCrudEntity_def
        renderLive_def renderRoutes_def renderUpstreams_def renderHealth_def renderAnalytics_def renderAiOps_def
        renderFleet_def renderConfig_def renderRoutesCrud_def renderUpstreamsCrud_def renderServicesCrud_def
        renderConsumersCrud_def renderPoliciesCrud_def Let_def)
  have sw: "switchView v c = do_effs es ?c"
    by (simp add: switchView_def render_current_def render_def f es)
  have "kids_ids ?c = kids_ids c" by (auto simp: kids_ids_def)
  then have "apart ?T (nextPid c) ?c"
    using assms(1,2) by (auto simp: apart_def page_ok_def page_bnd_def pend_ok_def one_side_def)
  moreover have "own_ids (length (nodes ?c)) es"
    using render_own_ids [of "length (nodes c)" f "now c"] by (simp add: es own_ids_def)
  ultimately have "apart ?T (nextPid c) (switchView v c)" unfolding sw by (intro separated_draw) auto
  then show ?thesis unfolding separated_def by (intro exI [of _ ?T]) (auto simp: sw frame_simps)
qed

text \<open>
  C1. Stale-response isolation: once the user has switched to a view, no answer to a request sent
  before that can change what \<open>#content\<close> shows, however many steps (clicks, answers, refreshes, further
  navigation, dialogs) happen in between: the children of \<open>#content\<close> and every container reachable from
  it are unchanged by the answer.
\<close>

theorem stale_response_isolated:
  assumes "reachable c" and "v \<in> set nav_views" and "console_step\<^sup>*\<^sup>* (switchView v c) c'"
    and "p \<in> set (pending c')" and "pid p < nextPid c"
  shows "content (respond (pid p) i out c') = content c' \<and>
    (\<forall>j < length (nodes c'). in_content c' j \<longrightarrow> nodes (respond (pid p) i out c') ! j = nodes c' ! j)"
proof -
  have c: "page_ok c" "pend_ok c" using assms(1) by (simp_all add: page.reach pend.loop.reach)
  have "reachable (switchView v c)" using assms(1,2) by (blast intro: reachable.step console_step.navigate)
  then have "pend_ok c'" "page_ok (switchView v c)"
    using assms(3) by (auto intro: pend.loop.steps_keep pend.loop.reach page.reach)
  moreover have "separated (nextPid c) c'"
    using sep.steps_keep [OF assms(3), of "nextPid c"] separated_start [OF c assms(2)] \<open>page_ok (switchView v c)\<close>
    by simp
  then obtain T where T: "apart T (nextPid c) c'" by (auto simp: separated_def)
  then have "cont_ids (pcont p) \<subseteq> T" using assms(4,5) by (auto simp: apart_def)
  ultimately show ?thesis
    using respond_frame [OF _ assms(4), of i out] in_content_apart [OF _ T] by blast
qed

lemma boot_reachable: "reachable (boot exn syn t)"
  by (rule reachable.start)

text \<open>
  The answer to the first overview's health request, after the user has moved to the routes table: the
  page is as before, although the promise is still pending.
\<close>

theorem stale_response_isolated_witness:
  "let c' = switchView ''routes'' (boot [] [] 0) in
     pid (pending c' ! 1) = 1 \<and> content (respond 1 0 (NetFail ''offline'') c') = content c' \<and> content c' \<noteq> []"
proof -
  let ?c = "boot [] [] 0"
  let ?p = "pending (switchView ''routes'' ?c) ! 1"
  have v: "''routes'' \<in> set nav_views" by code_simp
  have p: "pid ?p = 1" "nextPid ?c = 2" "1 < length (pending (switchView ''routes'' ?c))" by code_simp+
  have "content (respond (pid ?p) 0 (NetFail ''offline'') (switchView ''routes'' ?c)) = content (switchView ''routes'' ?c)"
    using stale_response_isolated [OF boot_reachable v rtranclp.rtrancl_refl nth_mem [OF p(3)]] p(1,2) by simp
  moreover have "content (switchView ''routes'' ?c) \<noteq> []" by code_simp
  ultimately show ?thesis using p(1) by (simp add: Let_def)
qed

end
