(* ===== verification/Console_Requests.thy ===== *)
theory Console_Requests
  imports Console_Invariants
begin

text \<open>
  The requests of the console: rendering, refreshing and answering only read; a request that can change
  the gateway leaves the page in the step in which the user clicked its button (and confirmed, for
  publishing and deleting), and carries the text the user saw.
\<close>

section \<open>Reading requests\<close>

definition is_read :: "request \<Rightarrow> bool" where
  "is_read r = (rmethod r = ''GET'' \<and> rbody r = None)"

definition reads :: "eff list \<Rightarrow> bool" where
  "reads es = (\<forall>e \<in> set es. \<forall>r \<in> set (eff_reqs e). is_read r)"

lemma is_read_get [simp]: "is_read (get_json p)" "is_read (get_json_or_empty p)" "is_read (get_text p)"
  by (simp_all add: is_read_def get_json_def get_json_or_empty_def get_text_def)

lemma reads_simps [simp]:
  "reads []" "reads (e # es) = ((\<forall>r \<in> set (eff_reqs e). is_read r) \<and> reads es)"
  "reads (es @ fs) = (reads es \<and> reads fs)"
  by (auto simp: reads_def)

lemma render_reads: "reads (render_effs f t b)"
  by (cases f) (simp_all add: render_effs_def renderOverview_def renderEditor_def open_view_def renderCrudEntity_def
      loadTable_def renderLive_def renderRoutes_def renderUpstreams_def renderHealth_def renderAnalytics_def
      renderAiOps_def renderFleet_def renderConfig_def renderRoutesCrud_def renderUpstreamsCrud_def
      renderServicesCrud_def renderConsumersCrud_def renderPoliciesCrud_def Let_def)

lemma current_reads: "reads (current_effs c)"
  by (simp add: current_effs_def render_reads split: option.split)

lemma loadTable_reads: "reads (loadTable x)"
  by (simp add: loadTable_def)

definition all_read :: "eff option list \<Rightarrow> bool" where
  "all_read es = (\<forall>e. Some e \<in> set es \<longrightarrow> (\<forall>r \<in> set (eff_reqs e). is_read r))"

lemma all_read_simps [simp]:
  "all_read []" "all_read (m # es) = ((\<forall>e. m = Some e \<longrightarrow> (\<forall>r \<in> set (eff_reqs e). is_read r)) \<and> all_read es)"
  "all_read (es @ fs) = (all_read es \<and> all_read fs)" "all_read (map Some xs) = reads xs"
  by (auto simp: all_read_def reads_def)

lemma map_Append_read: "map_option (Append w) m = Some e \<Longrightarrow> eff_reqs e = []"
  by auto

text \<open>The callbacks of the views request nothing; those of the tables reload them.\<close>

lemma view_callbacks_read:
  "all_read (overview_then g a b d)" "all_read (routes_then g a)" "all_read (upstreams_then g a)"
  "all_read (health_then g a)" "all_read (analytics_then g a)" "all_read (config_then g a)"
  "all_read (fleet_then g a b)" "all_read (aiops_then g a b d e)"
  by (auto simp: overview_then_def routes_then_def routes_table_def upstreams_then_def health_then_def
      analytics_then_def config_then_def fleet_then_def aiops_then_def bind_conv split: option.splits list.splits)

lemma live_read: "all_read (live_then g a b d)"
  by (auto simp: live_then_def live_routes_def Let_def bind_conv split: option.splits jv.splits)

lemma edit_callbacks_read:
  "all_read (editor_load_then g a)" "all_read (renderValidationPreview g a)" "all_read (publish_then g s a)"
  "all_read (reset_then g h a)" "all_read (crud_then x a)" "all_read (delete_then x a)"
  "all_read (dialog_then w x g h ok a)"
  by (auto simp: editor_load_then_def renderValidationPreview_def publish_then_def reset_then_def crud_then_def
      delete_then_def dialog_then_def loadTable_reads bind_conv split: option.splits list.splits)

lemma workspaces_read: "all_read (workspaces_then a)"
  by (auto simp: workspaces_then_def workspace_option_def all_read_def bind_conv split: option.splits jv.splits)

lemma then_reads: "all_read (then_effs k vs ovs)"
  by (cases k) (simp_all add: then_effs_def view_callbacks_read live_read edit_callbacks_read workspaces_read
      split: list.split)

lemma catch_reads: "reads (catch_effs k msg)"
  by (cases k) (simp_all add: catch_effs_def overview_catch_def show_error_def health_catch_def fleet_catch_def
      editor_load_catch_def validate_catch_def publish_catch_def reset_catch_def delete_catch_def dialog_catch_def
      workspaces_catch_def)

lemma settled_reads: "reads (settled_effs k vs c)"
  using then_reads [of k vs "overlays c"] catch_reads
  by (auto simp: settled_effs_def reads_def all_read_def dest: done_effs_mem)

lemma new_requests:
  "sent c' = sent c @ concat (map eff_reqs es) \<Longrightarrow> reads es \<Longrightarrow>
     \<forall>r \<in> set (drop (length (sent c)) (sent c')). is_read r"
  by (auto simp: reads_def)

lemma render_current_read: "\<forall>r \<in> set (drop (length (sent c)) (sent (render_current c))). is_read r"
  by (rule new_requests [OF _ current_reads]) (simp add: render_current_effs frame_simps)

lemma respond_read: "\<forall>r \<in> set (drop (length (sent c)) (sent (respond q i out c))). is_read r"
proof (rule respond_cases [of q i out c])
  fix p es
  assume "respond q i out c = do_effs es (drop_pending q c)"
    "(\<exists>vs. es = settled_effs (pcont p) vs (drop_pending q c)) \<or> (\<exists>msg. es = catch_effs (pcont p) msg)"
  then show ?thesis using settled_reads catch_reads by (intro new_requests [of _ _ es]) (auto simp: frame_simps)
qed (simp_all add: frame_simps)

section \<open>Changing requests\<close>

text \<open>The request that a click sends, when it may send one that is no read.\<close>

definition authorises :: "action \<Rightarrow> bool \<Rightarrow> console \<Rightarrow> request \<Rightarrow> bool" where
  "authorises a ok c r = (case a of
      AValidate ta pv \<Rightarrow> r = send_yaml ''POST'' ''/config/validate'' (value_of ta c)
    | APublish ta pv \<Rightarrow> ok \<and> r = send_yaml ''PATCH'' ''/config'' (value_of ta c)
    | ADelete x item \<Rightarrow> ok \<and> (\<exists>name. js_get item ''name'' = Some name \<and>
         r = sendJSON ''DELETE'' (''/'' @ entityName x @ ''/'' @ js_string name) JUndef)
    | ACreateSave x ov ta err \<Rightarrow> (\<exists>body. json_parse (value_of ta c) = Some body \<and>
         r = sendJSON ''POST'' (''/'' @ entityName x) body)
    | AEditSave x item ov ta err \<Rightarrow> (\<exists>body name. json_parse (value_of ta c) = Some body \<and>
         get_or item ''name'' (JStr []) = Some name \<and>
         r = sendJSON ''PUT'' (''/'' @ entityName x @ ''/'' @ js_string name) body)
    | _ \<Rightarrow> False)"

lemma click_requests:
  assumes "e \<in> set (click_effs a ok c)" "r \<in> set (eff_reqs e)"
  shows "is_read r \<or> authorises a ok c r"
proof (cases a)
  case (ARender f)
  with assms render_reads [of f "now c" "length (nodes c)"] show ?thesis
    by (auto simp: click_effs_def Let_def reads_def)
qed (use assms in \<open>auto simp: click_effs_def Let_def authorises_def validate_click_def publish_click_def reset_click_def
      openCreateDialog_def openEditDialog_def delete_click_def create_click_def save_click_def renderCrudEntity_def
      loadTable_def split: option.splits if_splits dest!: sym [of "Some _"]\<close>)

text \<open>
  C2. Every request that is not a plain GET leaves the console in a step that is a click on a button
  of the page, and it is the request that button announces: the validation or, once confirmed, the
  publication of exactly the text in the editor; the deletion, once confirmed, of the row's item; the
  creation or replacement with the JSON value typed in the dialog. Navigation, the refresh timer,
  responses and workspace changes send reads only, and nothing already sent is forgotten.
\<close>

theorem mutation_needs_click:
  assumes "console_step c c'"
  shows "take (length (sent c)) (sent c') = sent c \<and>
    (\<forall>r \<in> set (drop (length (sent c)) (sent c')).
       is_read r \<or> (\<exists>a ok. clickable c a \<and> c' = click a ok c \<and> authorises a ok c r))"
  using assms
proof (cases rule: console_step.cases)
  case (navigate v)
  let ?c = "c\<lparr>currentView := v, navActive := filter (\<lambda>x. x = v) nav_views\<rparr>"
  from render_current_read [of ?c] show ?thesis
    by (simp add: navigate switchView_def) (simp add: render_current_effs frame_simps)
next
  case (clicked a ok)
  then show ?thesis using click_requests [of _ a ok c] by (fastforce simp: click_def frame_simps)
next
  case (answered p i out)
  have "take (length (sent c)) (sent (respond (pid p) i out c)) = sent c"
    by (rule respond_cases [of "pid p" i out c]) (simp_all add: frame_simps)
  with respond_read [of c "pid p" i out] show ?thesis by (simp add: answered)
next
  case (ticked t)
  from render_current_read [of c] show ?thesis
    by (simp add: ticked tick_def) (simp add: render_current_effs frame_simps)
next
  case (workspace v l)
  from render_current_read [of "c\<lparr>switchVal := v\<rparr>"] show ?thesis
    by (simp add: workspace change_workspace_def) (simp add: render_current_effs frame_simps)
qed (simp_all add: frame_simps)

text \<open>In the editor opened right after start-up, publishing the (empty) text is such a click.\<close>

lemma editor_publish_clickable: "clickable (switchView ''editor'' (boot [] [] 0)) (APublish 2 3)"
proof -
  let ?c = "switchView ''editor'' (boot [] [] 0)"
  have "\<exists>d \<in> set (content ?c). 1 \<in> set (refs d)" by code_simp
  then have "shown ?c 1" by (blast intro: shown.content in_content.root)
  moreover have "1 < length (nodes ?c) \<and> (\<exists>d \<in> set (ckids (nodes ?c ! 1)). APublish 2 3 \<in> set (listeners d))"
    by code_simp
  ultimately show ?thesis unfolding clickable_def by blast
qed

theorem mutation_needs_click_witness:
  "let c = switchView ''editor'' (boot [] [] 0); c' = click (APublish 2 3) True c in
     take (length (sent c)) (sent c') = sent c \<and>
     send_yaml ''PATCH'' ''/config'' [] \<in> set (drop (length (sent c)) (sent c')) \<and>
     (\<exists>a ok. clickable c a \<and> c' = click a ok c \<and> authorises a ok c (send_yaml ''PATCH'' ''/config'' []))"
proof -
  let ?c = "switchView ''editor'' (boot [] [] 0)" and ?r = "send_yaml ''PATCH'' ''/config'' []"
  let ?c' = "click (APublish 2 3) True ?c"
  have "sent ?c' = sent ?c @ [?r]" by code_simp
  moreover have "\<not> is_read ?r" by (simp add: is_read_def send_yaml_def)
  ultimately show ?thesis
    using mutation_needs_click [OF console_step.clicked [OF editor_publish_clickable, of True]]
    by (simp add: Let_def)
qed

end
