(* ===== verification/Console_Promises.thy ===== *)
theory Console_Promises
  imports Console_Invariants
begin

text \<open>
  \<open>Promise.all\<close> as the console uses it: the order in which the answers arrive does not matter, the first
  rejection settles the promise and later answers are ignored, and once every request is answered the
  promise is settled.
\<close>

section \<open>Finding a promise\<close>

lemma pend_unique:
  "pend_ok c \<Longrightarrow> p \<in> set (pending c) \<Longrightarrow> find (\<lambda>p'. pid p' = pid p) (pending c) = Some p"
proof -
  assume "pend_ok c" and p: "p \<in> set (pending c)"
  then have inj: "inj_on pid (set (pending c))" by (simp add: pend_ok_def distinct_map)
  obtain p' where p': "find (\<lambda>p'. pid p' = pid p) (pending c) = Some p'"
    using p by (cases "find (\<lambda>p'. pid p' = pid p) (pending c)") (auto simp: find_None_iff)
  then have "p' \<in> set (pending c)" "pid p' = pid p" by (auto simp: find_Some_iff)
  with inj p have "p' = p" by (auto dest: inj_onD)
  with p' show ?thesis by simp
qed

definition waits :: "pend \<Rightarrow> nat \<Rightarrow> bool" where
  "waits p i = (i < length (preqs p) \<and> i < length (pgot p) \<and> pgot p ! i = None)"

lemma respond_value:
  assumes "pend_ok c" "p \<in> set (pending c)" "waits p i" "settle (preqs p ! i) out = Inr v"
  shows "respond (pid p) i out c =
    (if None \<in> set ((pgot p)[i := Some v]) then store_value (pid p) i v c
     else fulfil (pcont p) (map the ((pgot p)[i := Some v])) (drop_pending (pid p) c))"
  using assms by (simp add: respond_def pend_unique waits_def Let_def)

lemma respond_error:
  assumes "pend_ok c" "p \<in> set (pending c)" "waits p i" "settle (preqs p ! i) out = Inl msg"
  shows "respond (pid p) i out c = reject (pcont p) msg (drop_pending (pid p) c)"
  using assms by (simp add: respond_def pend_unique waits_def)

lemma store_mem: "p \<in> set (pending c) \<Longrightarrow>
    p\<lparr>pgot := (pgot p)[i := Some v]\<rparr> \<in> set (pending (store_value (pid p) i v c))"
  by (force simp: store_value_def)

lemma store_drop: "drop_pending q (store_value q i v c) = drop_pending q c"
proof -
  have "filter (\<lambda>p. pid p \<noteq> q) (map (\<lambda>p. if pid p = q then p\<lparr>pgot := (pgot p)[i := Some v]\<rparr> else p) ps) =
    filter (\<lambda>p. pid p \<noteq> q) ps" for ps :: "pend list"
    by (induction ps) auto
  then show ?thesis by (simp add: drop_pending_def store_value_def)
qed

lemma store_commute: "i \<noteq> j \<Longrightarrow> store_value q i v (store_value q j w c) = store_value q j w (store_value q i v c)"
  by (simp add: store_value_def o_def list_update_swap if_distrib cong: if_cong)

section \<open>Order of the answers\<close>

lemma none_after: "j < length xs \<Longrightarrow> xs ! j = None \<Longrightarrow> i \<noteq> j \<Longrightarrow> None \<in> set (xs[i := Some v])"
  by (metis length_list_update nth_list_update_neq nth_mem)

text \<open>The state after two answers, in either order.\<close>

lemma respond_twice:
  assumes "pend_ok c" "p \<in> set (pending c)" "waits p i" "waits p j" "i \<noteq> j"
    and "settle (preqs p ! i) out = Inr v" "settle (preqs p ! j) out' = Inr w"
  shows "respond (pid p) j out' (respond (pid p) i out c) =
    (let got = (pgot p)[i := Some v, j := Some w] in
     if None \<in> set got then store_value (pid p) j w (store_value (pid p) i v c)
     else fulfil (pcont p) (map the got) (drop_pending (pid p) c))"
proof -
  let ?p = "p\<lparr>pgot := (pgot p)[i := Some v]\<rparr>" and ?c = "store_value (pid p) i v c"
  have "respond (pid p) i out c = ?c"
    using assms none_after [of j "pgot p" i v] by (simp add: respond_value waits_def)
  moreover have "respond (pid ?p) j out' ?c =
    (if None \<in> set ((pgot ?p)[j := Some w]) then store_value (pid ?p) j w ?c
     else fulfil (pcont ?p) (map the ((pgot ?p)[j := Some w])) (drop_pending (pid ?p) ?c))"
    by (rule respond_value) (use assms in \<open>auto simp: pend.stored waits_def intro: store_mem\<close>)
  ultimately show ?thesis by (simp add: store_drop Let_def)
qed


section \<open>Settled once\<close>

lemma do_eff_pids:
  "p \<in> set (pending (do_eff e c)) \<Longrightarrow> p \<in> set (pending c) \<or> nextPid c \<le> pid p"
  by (cases e) (auto simp: frame_simps)

lemma do_effs_pids:
  "p \<in> set (pending (do_effs es c)) \<Longrightarrow> p \<in> set (pending c) \<or> nextPid c \<le> pid p"
proof (induction es arbitrary: c)
  case (Cons e es)
  then show ?case using do_eff_pids [of p e c] do_eff_nextPid [of c e] by fastforce
qed simp

lemma settled_gone:
  assumes "pend_ok c" "q < nextPid c"
  shows "q \<notin> pid ` set (pending (do_effs es (drop_pending q c)))"
  using assms(2) do_effs_pids [of _ es "drop_pending q c"]
  by (fastforce simp: drop_pending_def frame_simps)

lemma respond_gone: "q \<notin> pid ` set (pending c) \<Longrightarrow> respond q i out c = c"
proof -
  assume "q \<notin> pid ` set (pending c)"
  then have "find (\<lambda>p. pid p = q) (pending c) = None" by (auto simp: find_None_iff)
  then show ?thesis by (simp add: respond_def)
qed


section \<open>Every promise settles\<close>

definition answer_all :: "nat \<Rightarrow> outcome list \<Rightarrow> console \<Rightarrow> console" where
  "answer_all q outs c = fold (\<lambda>(i, out) c. respond q i out c) (enumerate 0 outs) c"

text \<open>After the answers to the first \<open>n\<close> requests the promise is settled or has their values.\<close>

definition first_answered :: "nat \<Rightarrow> nat \<Rightarrow> nat \<Rightarrow> console \<Rightarrow> bool" where
  "first_answered q n m c = (pend_ok c \<and> q < nextPid c \<and>
     (\<forall>p \<in> set (pending c). pid p = q \<longrightarrow>
        length (preqs p) = m \<and> None \<in> set (pgot p) \<and> (\<forall>i < n. pgot p ! i \<noteq> None)))"

lemma first_answered_gone:
  "pend_ok c \<Longrightarrow> q < nextPid c \<Longrightarrow> q \<notin> pid ` set (pending c) \<Longrightarrow> first_answered q n m c"
  by (auto simp: first_answered_def)

lemma first_answered_settled:
  assumes "pend_ok c" "q < nextPid c"
  shows "first_answered q n m (do_effs es (drop_pending q c))"
  using assms settled_gone [OF assms, of es] do_effs_nextPid [of "drop_pending q c" es]
  by (intro first_answered_gone) (simp_all add: frame_simps pend.effects pend.dropped)

lemma first_answered_only:
  assumes "pend_ok c" "p \<in> set (pending c)" "length (preqs p) = m" "None \<in> set (pgot p)" "\<forall>i < n. pgot p ! i \<noteq> None"
  shows "first_answered (pid p) n m c"
proof -
  have "p' = p" if "p' \<in> set (pending c)" "pid p' = pid p" for p'
    using assms(1,2) that by (auto simp: pend_ok_def distinct_map inj_on_def)
  with assms show ?thesis unfolding first_answered_def by (auto simp: pend_ok_def)
qed

lemma answer_next:
  assumes "first_answered q n m c" "n < m"
  shows "first_answered q (Suc n) m (respond q n out c)"
proof (cases "q \<in> pid ` set (pending c)")
  case False
  then show ?thesis using assms unfolding respond_gone [OF False]
    by (intro first_answered_gone) (auto simp: first_answered_def)
next
  case True
  then obtain p where p: "p \<in> set (pending c)" "pid p = q" by auto
  have ok: "pend_ok c" "q < nextPid c" using assms by (auto simp: first_answered_def)
  have len: "length (pgot p) = m" "length (preqs p) = m" "None \<in> set (pgot p)" "\<forall>i < n. pgot p ! i \<noteq> None"
    using assms p ok by (auto simp: first_answered_def pend_ok_def)
  show ?thesis
  proof (cases "pgot p ! n")
    case (Some v)
    then have "respond q n out c = c" using ok p by (auto simp: respond_def pend_unique split: option.split)
    with Some len first_answered_only [OF ok(1) p(1) len(2,3), of "Suc n"] p(2) show ?thesis
      by (simp add: less_Suc_eq)
  next
    case None
    then have w: "waits p n" using len assms(2) by (simp add: waits_def)
    show ?thesis
    proof (cases "settle (preqs p ! n) out")
      case (Inl msg)
      with respond_error [OF ok(1) p(1) w] p(2) ok show ?thesis by (simp add: reject_def first_answered_settled)
    next
      case (Inr v)
      let ?p = "p\<lparr>pgot := (pgot p)[n := Some v]\<rparr>"
      have "None \<in> set (pgot ?p) \<Longrightarrow> first_answered (pid ?p) (Suc n) m (store_value q n v c)"
        using ok(1) p len assms(2) store_mem [OF p(1), of n v]
        by (intro first_answered_only) (auto simp: pend.stored nth_list_update less_Suc_eq)
      with respond_value [OF ok(1) p(1) w Inr] p(2) ok show ?thesis
        by (simp add: fulfil_effs first_answered_settled)
    qed
  qed
qed

lemma answer_all_first:
  assumes "first_answered q 0 m c" "length outs \<le> m"
  shows "first_answered q (length outs) m (answer_all q outs c)"
  using assms
proof (induction outs rule: rev_induct)
  case (snoc out outs)
  have "answer_all q (outs @ [out]) c = respond q (length outs) out (answer_all q outs c)"
    by (simp add: answer_all_def enumerate_append_eq)
  with snoc answer_next [of q "length outs" m] show ?case by simp
qed (simp add: answer_all_def)


section \<open>The overview's promise after start-up\<close>

lemma overview_promise:
  "pending (boot [] [] 0) ! 1 \<in> set (pending (boot [] [] 0))" "pid (pending (boot [] [] 0) ! 1) = 1"
  "waits (pending (boot [] [] 0) ! 1) 0" "waits (pending (boot [] [] 0) ! 1) 2"
  "length (preqs (pending (boot [] [] 0) ! 1)) = 3" "None \<in> set (pgot (pending (boot [] [] 0) ! 1))"
proof -
  have "1 < length (pending (boot [] [] 0))" by code_simp
  then show "pending (boot [] [] 0) ! 1 \<in> set (pending (boot [] [] 0))" by (rule nth_mem)
qed (code_simp+)




end
