(* ===== verification/Console_Settling.thy ===== *)
theory Console_Settling
  imports Console_Invariants
begin

text \<open>
  What a view shows once its promise has settled: no view container keeps the \<open>Loading...\<close> line, errors
  are shown in the container of the view that asked, and the workspace switcher always has an option.
\<close>

section \<open>The loading line\<close>

fun head_of :: "'a dom \<Rightarrow> (string \<times> (string \<times> string) list) option" where
  "head_of (Elem t as ks ls) = Some (t, as)"
| "head_of d = None"

lemma head_of_el [simp]: "head_of (el t as ks) = Some (t, el_attrs as)"
  by (simp add: el_def)

lemma head_of_parts [simp]:
  "head_of (error_el m) = Some (''div'', [(''class'', ''error-msg'')])"
  "head_of (table_el ls rs) = Some (''table'', [])" "head_of (pre_el v) = Some (''pre'', [])"
  "head_of (chart_card h) = Some (''div'', [(''class'', ''chart-card'')])"
  by (simp_all add: error_el_def text_el_def table_el_def pre_el_def chart_card_def el_attrs_def)

lemma head_of_loading: "head_of loading_el = Some (''div'', [(''class'', ''stat-label'')])"
  by (simp add: loading_el_def text_el_def el_attrs_def)

lemma not_loading: "head_of d \<noteq> Some (''div'', [(''class'', ''stat-label'')]) \<Longrightarrow> d \<noteq> loading_el"
  using head_of_loading by force

text \<open>Effects that do not put a loading line into a container.\<close>

fun quiet :: "eff \<Rightarrow> bool" where
  "quiet (Append i d) = (head_of d \<noteq> Some (''div'', [(''class'', ''stat-label'')]))"
| "quiet (AppendChart i) = True"
| "quiet (ClearKids i) = True"
| "quiet MarkRefreshed = True"
| "quiet (ShowBadge s) = True"
| "quiet (PushPoint a b d) = True"
| "quiet e = False"

definition no_loading :: "nid \<Rightarrow> console \<Rightarrow> bool" where
  "no_loading w c = (w < length (nodes c) \<and> loading_el \<notin> set (ckids (nodes c ! w)))"

lemma chart_not_loading: "loading_el \<noteq> chart_card h"
proof
  assume "loading_el = chart_card h"
  then have "head_of (loading_el :: action dom) = head_of (chart_card h)" by simp
  then show False by (simp add: head_of_loading)
qed

lemma no_loading_eff: "no_loading w c \<Longrightarrow> quiet e \<Longrightarrow> no_loading w (do_eff e c)"
  using not_loading chart_not_loading by (cases e) (auto simp: no_loading_def frame_simps node_simps)

lemma no_loading_effs: "no_loading w c \<Longrightarrow> \<forall>e \<in> set es. quiet e \<Longrightarrow> no_loading w (do_effs es c)"
  by (rule do_effs_inv) (auto intro: no_loading_eff)

lemma no_loading_cleared: "w < length (nodes c) \<Longrightarrow> no_loading w (do_eff (ClearKids w) c)"
  by (simp add: no_loading_def frame_simps node_simps)

text \<open>A callback that first empties the container and then only adds results.\<close>

definition clears :: "nid \<Rightarrow> eff option list \<Rightarrow> bool" where
  "clears w es = (case es of Some (ClearKids i) # es' \<Rightarrow> i = w \<and> (\<forall>e. Some e \<in> set es' \<longrightarrow> quiet e) | _ \<Rightarrow> False)"

lemma clears_Cons [simp]: "clears w (Some (ClearKids i) # es) = (i = w \<and> (\<forall>e. Some e \<in> set es \<longrightarrow> quiet e))"
  by (simp add: clears_def)

lemma clears_done:
  assumes "clears w es" "w < length (nodes c)"
  shows "no_loading w (do_effs (done_effs es) c)"
proof -
  obtain es' where es: "es = Some (ClearKids w) # es'" "\<And>e. Some e \<in> set es' \<Longrightarrow> quiet e"
    using assms(1) by (auto simp: clears_def split: list.splits option.splits eff.splits)
  then have "\<forall>e \<in> set (done_effs es'). quiet e" by (auto dest: done_effs_mem)
  then show ?thesis using no_loading_effs [OF no_loading_cleared [OF assms(2)]] by (simp add: es del: do_eff.simps)
qed

text \<open>The containers of the views that announce \<open>Loading...\<close>, and how many values their promise takes.\<close>

fun view_of :: "cont \<Rightarrow> (nid \<times> nat) option" where
  "view_of (KRoutes w) = Some (w, 1)"
| "view_of (KUpstreams w) = Some (w, 1)"
| "view_of (KHealth w) = Some (w, 1)"
| "view_of (KAnalytics w) = Some (w, 1)"
| "view_of (KConfig w) = Some (w, 1)"
| "view_of (KFleet w) = Some (w, 2)"
| "view_of (KLive w) = Some (w, 3)"
| "view_of (KAiOps w) = Some (w, 4)"
| "view_of (KCrudLoad x) = Some (tableWrap x, 1)"
| "view_of k = None"

lemma card_head:
  "ai_card title k labels row notice resp = Some d \<Longrightarrow> head_of d = Some (''div'', [(''class'', ''chart-card'')])"
  "live_stats a b c = Some d \<Longrightarrow> head_of d = Some (''div'', [(''class'', ''stat-grid'')])"
  by (auto simp: ai_card_def live_stats_def bind_conv el_attrs_def)

lemma Some_map_conv: "(Some e = map_option f m) = (\<exists>d. m = Some d \<and> e = f d)"
  by (cases m) auto

lemma live_routes_quiet: "Some e \<in> set (live_routes w v) \<Longrightarrow> quiet e"
  by (auto simp: live_routes_def bind_conv el_attrs_def split: if_splits)

lemma view_then_clears:
  "clears w (routes_then w v)" "clears w (upstreams_then w v)" "clears w (health_then w v)"
  "clears w (analytics_then w v)" "clears w (config_then w v)" "clears w (fleet_then w v v2)"
  "clears w (live_then w v v2 v3)" "clears w (aiops_then w v v2 v3 v4)" "clears (tableWrap x) (crud_then x v)"
  by (auto simp: routes_then_def routes_table_def upstreams_then_def health_then_def analytics_then_def config_then_def
      fleet_then_def live_then_def aiops_then_def crud_then_def Let_def bind_conv Some_map_conv el_attrs_def
      live_routes_quiet split: option.splits list.splits if_splits dest!: card_head)

lemma view_then:
  assumes "view_of k = Some (w, n)" "length vs = n"
  shows "clears w (then_effs k vs ovs)"
  using assms
  by (cases k) (auto simp: then_effs_def view_then_clears numeral_eq_Suc length_Suc_conv Suc_length_conv)

lemma view_catch:
  assumes "view_of k = Some (w, n)" "w < length (nodes c)"
  shows "no_loading w (do_effs (catch_effs k msg) c)"
proof -
  have "no_loading w (do_effs (show_error w m) c)" for m
    using no_loading_effs [OF no_loading_cleared [OF assms(2)], of "[Append w (error_el m)]"]
    by (simp add: show_error_def del: do_eff.simps)
  then show ?thesis using assms(1) no_loading_eff [of w _ "ShowBadge ''unhealthy''"]
    by (cases k) (auto simp: catch_effs_def fleet_catch_def health_catch_def simp del: do_eff.simps)
qed

text \<open>
  A settled view does not stay in its loading state: for every view container that announces
  \<open>Loading...\<close>, once its promise is fulfilled (with any values, including ones that make the callback
  throw half way) or rejected, the loading line is no longer among the children of the container.
\<close>

theorem settled_view_not_loading:
  assumes "view_of k = Some (w, n)" and "w < length (nodes c)" and "length vs = n"
  shows "loading_el \<notin> set (ckids (nodes (fulfil k vs c) ! w)) \<and>
         loading_el \<notin> set (ckids (nodes (reject k msg c) ! w))"
proof -
  let ?es = "then_effs k vs (overlays c)"
  have d: "no_loading w (do_effs (done_effs ?es) c)"
    using view_then [OF assms(1,3)] assms(2) by (rule clears_done)
  then have "no_loading w (fulfil k vs c)"
    using view_catch [OF assms(1), of "do_effs (done_effs ?es) c"]
    by (simp add: fulfil_effs settled_effs_def no_loading_def)
  with view_catch [OF assms(1,2)] show ?thesis by (simp add: no_loading_def reject_def)
qed

theorem settled_view_not_loading_witness:
  "let c = switchView ''health'' (boot [] [] 0) in
     loading_el \<in> set (ckids (nodes c ! 1)) \<and>
     loading_el \<notin> set (ckids (nodes (fulfil (KHealth 1) [JNull] c) ! 1)) \<and>
     loading_el \<notin> set (ckids (nodes (reject (KHealth 1) ''timeout'' c) ! 1))"
proof -
  let ?c = "switchView ''health'' (boot [] [] 0)"
  have "1 < length (nodes ?c)" "loading_el \<in> set (ckids (nodes ?c ! 1))" by code_simp+
  with settled_view_not_loading [of "KHealth 1" 1 1 ?c "[JNull]" "''timeout''"] show ?thesis by (simp add: Let_def)
qed

section \<open>The outer loading line of the tables\<close>

text \<open>
  The tables of routes, upstreams, services, consumers and policies have a second loading line, in
  the outer container: it is there after the view is drawn, and neither the arrival of the table's data
  nor its failure removes it.
\<close>

theorem crud_outer_loading_stays:
  assumes "b = length (nodes c)" and "k = KCrudLoad \<lparr>entityName = ent, entityLabel = lab, columns = cols, tableWrap = b + 1\<rparr>"
  shows "let c' = do_effs (renderCrudEntity ent lab cols b) c in
    in_content c' b \<and> loading_el \<in> set (ckids (nodes c' ! b)) \<and>
    loading_el \<in> set (ckids (nodes (fulfil k vs c') ! b)) \<and> loading_el \<in> set (ckids (nodes (reject k msg c') ! b))"
proof -
  let ?c = "do_effs (renderCrudEntity ent lab cols b) c"
  have c': "ckids (nodes ?c ! b) = [loading_el, el ''div'' [(''class'', JStr ''crud-toolbar'')]
      [on_click (text_el ''button'' ''btn primary'' (''+ Create '' @ lab))
        (ACreate \<lparr>entityName = ent, entityLabel = lab, columns = cols, tableWrap = b + 1\<rparr>)], Ref (b + 1)]"
    "content ?c = [card (lab @ '' (CRUD)'') (Ref b) (Some (ACrudRefresh ent lab cols))]" "length (nodes ?c) = b + 2"
    by (simp_all add: renderCrudEntity_def loadTable_def Let_def assms(1) upd_node_def nth_append list_update_append)
  then have "in_content ?c b" by (intro in_content.root) auto
  moreover have "b \<notin> cont_ids k" by (simp add: assms(2))
  ultimately show ?thesis
    using c' stays_in_frames [of "settled_effs k vs ?c" "cont_ids k" ?c] stays_in_frames [of "catch_effs k msg" "cont_ids k" ?c]
    by (simp add: Let_def fulfil_effs reject_def settled_stays catch_effs_stay)
qed

theorem crud_outer_loading_stays_witness:
  "let c = loaded_page [] [] 0; k = KCrudLoad \<lparr>entityName = ''routes'', entityLabel = ''Route'', columns = [], tableWrap = 1\<rparr>;
       c' = do_effs (renderCrudEntity ''routes'' ''Route'' [] 0) c in
     loading_el \<in> set (ckids (nodes (fulfil k [JArr []] c') ! 0))"
proof -
  have "length (nodes (loaded_page [] [] 0)) = 0" by code_simp
  with crud_outer_loading_stays [OF _ refl, of 0 "loaded_page [] [] 0" "''routes''" "''Route''" "[]" "[JArr []]" "[]"]
  show ?thesis by (simp add: Let_def)
qed

section \<open>Failures\<close>

text \<open>The digits of an HTTP error for a path without digits are those of the status.\<close>

lemma http_error_digits: "filter is_digit path = [] \<Longrightarrow> filter is_digit (http_error st path) = nat_str st"
  using nat_str_digits [of st] by (simp add: http_error_def is_digit_def filter_id_conv)

lemma nat_str_3: "100 \<le> n \<Longrightarrow> n < 1000 \<Longrightarrow> length (nat_str n) = 3"
  by (simp add: nat_str.simps [of n] nat_str.simps [of "n div 10"] nat_str.simps [of "n div 10 div 10"], linarith)

lemma status_404:
  assumes "filter is_digit path = []" "100 \<le> st" "st < 1000"
  shows "0 \<le> indexOf (http_error st path) ''404'' \<longleftrightarrow> st = 404"
proof
  assume "0 \<le> indexOf (http_error st path) ''404''"
  then obtain us vs where "http_error st path = us @ ''404'' @ vs" unfolding indexOf_nonneg by blast
  then have "nat_str st = filter is_digit us @ ''404'' @ filter is_digit vs"
    using http_error_digits [OF assms(1), of st] by (simp add: is_digit_def)
  then have "nat_str st = ''404''" using nat_str_3 [OF assms(2,3)] by simp
  also have "''404'' = nat_str 404" by code_simp
  finally show "st = 404" by (rule nat_str_inj)
next
  assume "st = 404"
  moreover have "nat_str 404 = ''404''" by code_simp
  ultimately have "http_error st path = ''HTTP '' @ ''404'' @ '' for '' @ path" by (simp add: http_error_def)
  then show "0 \<le> indexOf (http_error st path) ''404''" unfolding indexOf_nonneg by blast
qed

text \<open>
  The fleet view recognises a missing \<open>fleet:\<close> block exactly: for every HTTP status that rejects one
  of its two requests, the "not configured" notice is shown for 404 and the HTTP error itself for any
  other status.
\<close>

theorem fleet_not_configured_iff_404:
  assumes "path \<in> {''/fleet/skew'', ''/fleet/status''}" and "100 \<le> st" and "st < 1000" and "\<not> resp_ok st"
    and "settle (get_json path) (Response st txt js) = Inl msg" and "w < length (nodes c)"
  shows "ckids (nodes (reject (KFleet w) msg c) ! w) =
    [error_el (if st = 404 then ''Fleet operations not configured (no fleet: block in config).''
               else ''HTTP '' @ nat_str st @ '' for '' @ path)]"
proof -
  have msg: "msg = http_error st path"
    using assms(4,5) by (simp add: settle_def fetchJSON_def get_json_def)
  have "(0 \<le> indexOf msg ''404'') = (st = 404)"
    using assms(1-3) unfolding msg by (intro status_404) (auto simp: is_digit_def)
  moreover have "msg \<noteq> []" by (simp add: msg http_error_def)
  ultimately show ?thesis using assms(6)
    by (simp add: reject_def catch_effs_def fleet_catch_def show_error_def node_simps frame_simps msg http_error_def)
qed

theorem fleet_not_configured_iff_404_witness:
  "let c = switchView ''fleet'' (boot [] [] 0) in
     ckids (nodes (reject (KFleet 1) ''HTTP 404 for /fleet/skew'' c) ! 1) =
       [error_el ''Fleet operations not configured (no fleet: block in config).'']"
proof -
  let ?c = "switchView ''fleet'' (boot [] [] 0)"
  have "1 < length (nodes ?c)" "\<not> resp_ok 404"
    "settle (get_json ''/fleet/skew'') (Response 404 [] (Inl [])) = Inl ''HTTP 404 for /fleet/skew''" by code_simp+
  with fleet_not_configured_iff_404 [of "''/fleet/skew''" 404 "[]" "Inl []" "''HTTP 404 for /fleet/skew''" 1 ?c]
  show ?thesis by (simp add: Let_def)
qed

end
