(* ===== verification/Console_Workspace.thy ===== *)
theory Console_Workspace
  imports Console_Invariants
begin

text \<open>
  The workspace switcher: it always offers at least one workspace and the selected value is one of the
  options; what is selected has no influence on any request.
\<close>

section \<open>Effects on the switcher\<close>

fun switch_eff :: "eff \<Rightarrow> bool" where
  "switch_eff ClearSwitcher = True"
| "switch_eff (AddOption v t) = True"
| "switch_eff e = False"

definition switch_ok :: "console \<Rightarrow> bool" where
  "switch_ok c = (switchVal c \<in> fst ` set (switcher c))"

lemma no_switch_frame: "\<not> switch_eff e \<Longrightarrow> switcher (do_eff e c) = switcher c \<and> switchVal (do_eff e c) = switchVal c"
  by (cases e) (simp_all add: frame_simps)

lemma no_switch_effs:
  "\<forall>e \<in> set es. \<not> switch_eff e \<Longrightarrow> switcher (do_effs es c) = switcher c \<and> switchVal (do_effs es c) = switchVal c"
proof (induction es arbitrary: c)
  case (Cons e es)
  then show ?case using no_switch_frame [of e c] by (simp del: do_eff.simps)
qed simp

lemma switch_ok_effs: "switch_ok c \<Longrightarrow> \<forall>e \<in> set es. \<not> switch_eff e \<Longrightarrow> switch_ok (do_effs es c)"
  using no_switch_effs [of es c] by (simp add: switch_ok_def)

lemma render_no_switch: "e \<in> set (render_effs f t b) \<Longrightarrow> \<not> switch_eff e"
  by (cases f) (auto simp: render_effs_def renderOverview_def renderEditor_def open_view_def renderCrudEntity_def
      loadTable_def renderLive_def renderRoutes_def renderUpstreams_def renderHealth_def renderAnalytics_def
      renderAiOps_def renderFleet_def renderConfig_def renderRoutesCrud_def renderUpstreamsCrud_def
      renderServicesCrud_def renderConsumersCrud_def renderPoliciesCrud_def Let_def)

lemma current_no_switch: "e \<in> set (current_effs c) \<Longrightarrow> \<not> switch_eff e"
  by (auto simp: current_effs_def render_no_switch split: option.splits)

lemma click_no_switch: "e \<in> set (click_effs a ok c) \<Longrightarrow> \<not> switch_eff e"
proof (cases a)
  case (ARender f)
  then show "e \<in> set (click_effs a ok c) \<Longrightarrow> \<not> switch_eff e" by (simp add: click_effs_def Let_def render_no_switch)
qed (auto simp: click_effs_def Let_def validate_click_def publish_click_def reset_click_def renderCrudEntity_def
      loadTable_def openCreateDialog_def openEditDialog_def delete_click_def create_click_def save_click_def
      split: option.splits if_splits)

definition no_switch :: "eff option list \<Rightarrow> bool" where
  "no_switch es = (\<forall>e. Some e \<in> set es \<longrightarrow> \<not> switch_eff e)"

lemma no_switch_simps [simp]:
  "no_switch []" "no_switch (m # es) = ((\<forall>e. m = Some e \<longrightarrow> \<not> switch_eff e) \<and> no_switch es)"
  "no_switch (es @ fs) = (no_switch es \<and> no_switch fs)" "no_switch (map Some xs) = (\<forall>e \<in> set xs. \<not> switch_eff e)"
  by (auto simp: no_switch_def)

lemma loadTable_no_switch [simp]: "e \<in> set (loadTable x) \<Longrightarrow> \<not> switch_eff e"
  by (auto simp: loadTable_def)

lemma then_no_switch: "k \<noteq> KWorkspaces \<Longrightarrow> no_switch (then_effs k vs ovs)"
proof -
  have "no_switch (live_then g a b d)" for g a b d
    by (auto simp: live_then_def live_routes_def Let_def bind_conv split: option.splits)
  moreover have "no_switch (dialog_then what x ov err att v)" "no_switch (delete_then x v)" for what x ov err att v
    by (auto simp: dialog_then_def delete_then_def bind_conv split: option.splits)
  moreover have "no_switch (overview_then g a b d)" "no_switch (routes_then g a)" "no_switch (upstreams_then g a)"
    "no_switch (health_then g a)" "no_switch (fleet_then g a b)" "no_switch (aiops_then g a b d e)"
    "no_switch (renderValidationPreview g a)" "no_switch (publish_then g s a)" "no_switch (crud_then x a)"
    for g a b d e s x
    by (auto simp: overview_then_def routes_then_def routes_table_def upstreams_then_def health_then_def
        fleet_then_def aiops_then_def renderValidationPreview_def publish_then_def crud_then_def bind_conv
        split: option.splits list.splits)
  ultimately show "k \<noteq> KWorkspaces \<Longrightarrow> no_switch (then_effs k vs ovs)"
    by (cases k) (simp_all add: then_effs_def analytics_then_def config_then_def editor_load_then_def reset_then_def
        split: list.split)
qed

lemma catch_no_switch: "k \<noteq> KWorkspaces \<Longrightarrow> e \<in> set (catch_effs k msg) \<Longrightarrow> \<not> switch_eff e"
  by (cases k) (auto simp: catch_effs_def overview_catch_def show_error_def health_catch_def fleet_catch_def
      editor_load_catch_def validate_catch_def publish_catch_def reset_catch_def delete_catch_def dialog_catch_def)

lemma settled_no_switch: "k \<noteq> KWorkspaces \<Longrightarrow> e \<in> set (settled_effs k vs c) \<Longrightarrow> \<not> switch_eff e"
  using then_no_switch [of k vs "overlays c"] catch_no_switch [of k e]
  by (auto simp: settled_effs_def no_switch_def dest: done_effs_mem split: if_splits)

section \<open>The options\<close>

lemma add_options_ok:
  "switch_ok c \<Longrightarrow> \<forall>e \<in> set es. \<exists>v t. e = AddOption v t \<Longrightarrow> switch_ok (do_effs es c)"
  by (rule do_effs_inv [where I = switch_ok]) (force simp: switch_ok_def)+

lemma refilled_ok:
  assumes "es \<noteq> []" "\<forall>e \<in> set es. \<exists>v t. e = AddOption v t"
  shows "switch_ok (do_effs (ClearSwitcher # es) c)"
proof -
  obtain v t es' where es: "es = AddOption v t # es'" using assms by (cases es) auto
  have "switch_ok (do_effs es' (do_effs [ClearSwitcher, AddOption v t] c))"
    using assms(2) es by (intro add_options_ok [of "do_effs [ClearSwitcher, AddOption v t] c"]) (auto simp: switch_ok_def)
  then show ?thesis by (simp add: es)
qed

lemma done_effs_all: "None \<notin> set es \<Longrightarrow> map Some (done_effs es) = es"
  by (induction es rule: done_effs.induct) auto

text \<open>Whatever the answer to \<open>/workspaces\<close>, the switcher ends with a selected option.\<close>

lemma workspaces_ok: "switch_ok c \<Longrightarrow> switch_ok (do_effs (settled_effs KWorkspaces vs c) c)"
proof (cases "None \<in> set (then_effs KWorkspaces vs (overlays c))")
  case True
  then show ?thesis
    using refilled_ok [of "[AddOption [] ''default'']"]
    by (simp add: settled_effs_def catch_effs_def workspaces_catch_def del: do_eff.simps)
next
  case False
  assume ok: "switch_ok c"
  show ?thesis
  proof (cases "\<exists>v. vs = [v]")
    case True
    then obtain v where v: "vs = [v]" by blast
    with False obtain ws where ws: "then_effs KWorkspaces vs (overlays c) =
        Some ClearSwitcher # map workspace_option ws @ (if ws = [] then [Some (AddOption [] ''default'')] else [])"
      by (auto simp: then_effs_def workspaces_then_def split: option.splits jv.splits)
    let ?os = "map workspace_option ws @ (if ws = [] then [Some (AddOption [] ''default'')] else [])"
    have all: "map Some (done_effs ?os) = ?os" using False ws by (intro done_effs_all) simp
    have "\<exists>v t. e = AddOption v t" if "Some e \<in> set ?os" for e
      using that by (auto simp: workspace_option_def bind_conv split: if_splits)
    then have "\<forall>e \<in> set (done_effs ?os). \<exists>v t. e = AddOption v t" by (blast dest: done_effs_mem)
    moreover have "?os \<noteq> []" by simp
    then have "done_effs ?os \<noteq> []" using all by (metis list.map_disc_iff)
    ultimately show ?thesis using refilled_ok [of "done_effs ?os" c] False
      by (simp add: settled_effs_def ws del: do_eff.simps)
  next
    case False
    then have "then_effs KWorkspaces vs (overlays c) = []" by (auto simp: then_effs_def split: list.split)
    with ok show ?thesis by (simp add: settled_effs_def)
  qed
qed

lemma callback_switch_ok:
  assumes "switch_ok c" "callback p c es"
  shows "switch_ok (do_effs es (drop_pending (pid p) c))"
proof -
  have d: "switch_ok (drop_pending (pid p) c)" using assms(1) by (simp add: switch_ok_def drop_pending_def)
  show ?thesis
  proof (cases "pcont p = KWorkspaces")
    case True
    with assms(2) d show ?thesis
      using workspaces_ok refilled_ok [of "[AddOption [] ''default'']" "drop_pending (pid p) c"]
      by (auto simp: callback_def catch_effs_def workspaces_catch_def)
  next
    case False
    with assms(2) have "\<forall>e \<in> set es. \<not> switch_eff e"
      by (auto simp: callback_def settled_no_switch catch_no_switch)
    with d show ?thesis by (rule switch_ok_effs)
  qed
qed

lemma switch_ok_cong: "switch_ok c \<Longrightarrow> switcher c' = switcher c \<Longrightarrow> switchVal c' = switchVal c \<Longrightarrow> switch_ok c'"
  by (simp add: switch_ok_def)

interpretation switch: loop_invariant switch_ok
proof unfold_locales
  show "switch_ok (boot exn syn t)" for exn syn t
  proof -
    have "switch_ok (initWorkspaceSwitcher (loaded_page exn syn t))"
      by (simp add: switch_ok_def initWorkspaceSwitcher_def loaded_page_def)
    then have "switch_ok (switchView ''overview'' (do_eff (ShowBadge ''connecting'') (initWorkspaceSwitcher (loaded_page exn syn t))))"
      unfolding switchView_def render_current_effs
      by (intro switch_ok_effs) (auto simp: current_no_switch elim: switch_ok_cong)
    then show ?thesis unfolding boot_def
      by (rule switch_ok_cong) (simp_all add: startAutoRefresh_def stopAutoRefresh_def Let_def split: option.split)
  qed
  show "switch_ok (c\<lparr>switchVal := v\<rparr>)" if "switch_ok c" "(v, l) \<in> set (switcher c)" for c v l
    using that by (force simp: switch_ok_def)
  show "switch_ok (render_current c)" if "switch_ok c" for c
    using that unfolding render_current_effs by (intro switch_ok_effs) (auto simp: current_no_switch)
  show "switch_ok (click a ok c)" if "switch_ok c" "clickable c a" for c a ok
    using that(1) unfolding click_def by (intro switch_ok_effs) (auto simp: click_no_switch)
qed (simp_all add: callback_switch_ok, simp_all add: switch_ok_def frame_simps store_value_def)

text \<open>
  The workspace switcher is never empty and never shows a value it does not offer: in every
  reachable state the selected value is the value of one of the options, whatever the answer to
  \<open>/workspaces\<close> was (no list, an empty list, entries without a name, a failure).
\<close>

theorem switcher_selection_offered:
  assumes "reachable c"
  shows "switcher c \<noteq> [] \<and> switchVal c \<in> fst ` set (switcher c)"
  using switch.reach [OF assms] by (auto simp: switch_ok_def)

theorem switcher_selection_offered_witness:
  "let c = respond 0 0 (Response 200 [] (Inr (JObj [(''workspaces'', JArr [JNull])]))) (boot [] [] 0) in
     switcher c = [([], ''default'')] \<and> switchVal c \<in> fst ` set (switcher c)"
proof -
  let ?out = "Response 200 [] (Inr (JObj [(''workspaces'', JArr [JNull])]))"
  let ?c = "respond 0 0 ?out (boot [] [] 0)" and ?p = "pending (boot [] [] 0) ! 0"
  have "0 < length (pending (boot [] [] 0))" "pid ?p = 0" "length (preqs ?p) = 1" "pgot ?p ! 0 = None" by code_simp+
  then have "reachable ?c"
    using console_step.answered [of ?p "boot [] [] 0" 0 ?out] by (auto intro: reachable.intros)
  moreover have "switcher ?c = [([], ''default'')]" by code_simp
  ultimately show ?thesis using switcher_selection_offered [of ?c] by (simp add: Let_def)
qed

section \<open>The selection has no effect\<close>

lemma do_eff_switchVal:
  "\<not> switch_eff e \<Longrightarrow> do_eff e (c\<lparr>switchVal := v\<rparr>) = (do_eff e c)\<lparr>switchVal := v\<rparr>"
  by (cases e) (simp_all add: upd_node_def)

lemma do_effs_switchVal:
  "\<forall>e \<in> set es. \<not> switch_eff e \<Longrightarrow> do_effs es (c\<lparr>switchVal := v\<rparr>) = (do_effs es c)\<lparr>switchVal := v\<rparr>"
  by (induction es arbitrary: c) (simp_all add: do_eff_switchVal del: do_eff.simps)

lemma current_effs_switchVal [simp]: "current_effs (c\<lparr>switchVal := v\<rparr>) = current_effs c"
  by (simp add: current_effs_def split: option.split)

lemma render_current_switchVal: "render_current (c\<lparr>switchVal := v\<rparr>) = (render_current c)\<lparr>switchVal := v\<rparr>"
  unfolding render_current_effs by (simp add: do_effs_switchVal current_no_switch)

lemma click_effs_switchVal [simp]: "click_effs a ok (c\<lparr>switchVal := v\<rparr>) = click_effs a ok c"
  by (cases a) (simp_all add: click_effs_def value_of_def)

lemma respond_switchVal_sent: "sent (respond q i out (c\<lparr>switchVal := v\<rparr>)) = sent (respond q i out c)"
  by (simp add: respond_def Let_def reject_def fulfil_effs settled_effs_def frame_simps
      store_value_def drop_pending_def split: option.split sum.split)

text \<open>
  Selecting a workspace only re-renders the current view: the new state is the one a refresh gives,
  with the new selection. The selection never reaches a request: drawing a view, a click, a refresh and
  an answer send the same requests whatever workspace is selected.
\<close>

theorem workspace_not_in_requests:
  "change_workspace v c = (tick c)\<lparr>switchVal := v\<rparr> \<and>
   sent (switchView x (c\<lparr>switchVal := v\<rparr>)) = sent (switchView x c) \<and>
   sent (click a ok (c\<lparr>switchVal := v\<rparr>)) = sent (click a ok c) \<and>
   sent (respond q i out (c\<lparr>switchVal := v\<rparr>)) = sent (respond q i out c)"
proof -
  let ?d = "c\<lparr>currentView := x, navActive := filter (\<lambda>y. y = x) nav_views\<rparr>"
  have d: "c\<lparr>switchVal := v, currentView := x, navActive := filter (\<lambda>y. y = x) nav_views\<rparr> = ?d\<lparr>switchVal := v\<rparr>"
    by (cases c) simp
  have "switchView x (c\<lparr>switchVal := v\<rparr>) = (switchView x c)\<lparr>switchVal := v\<rparr>"
    unfolding switchView_def d by (rule render_current_switchVal)
  then show ?thesis
    by (simp add: change_workspace_def tick_def render_current_switchVal respond_switchVal_sent click_def frame_simps)
qed

end
