(* ===== verification/Console_Dialogs.thy ===== *)
theory Console_Dialogs
  imports Console_Invariants
begin

text \<open>
  The CRUD dialogs and the configuration editor: what the user sees is what is sent, a text that is no
  JSON sends nothing, a row's buttons act on its own item, and what becomes of a dialog or of the
  editor's text while requests and refreshes go on.
\<close>

section \<open>Editing an item\<close>

lemma click_sent: "sent (click a ok c) = sent c @ concat (map eff_reqs (click_effs a ok c))"
  by (simp add: click_def frame_simps)

lemma openEdit_state:
  assumes "b = length (nodes c)" "item = JObj kvs"
  shows "nodes (click (AEdit x item) ok c) ! (b + 1) =
      \<lparr>ctag = ''textarea'', cattrs = textarea_attrs, ckids = [], cvalue = text_of (opt_text (json_pretty item))\<rparr> \<and>
    length (nodes (click (AEdit x item) ok c)) = b + 3 \<and> overlays (click (AEdit x item) ok c) = overlays c @ [b] \<and>
    sent (click (AEdit x item) ok c) = sent c \<and> syntaxMsg (click (AEdit x item) ok c) = syntaxMsg c"
  by (simp add: assms click_def click_effs_def Let_def openEditDialog_def get_or_def frame_simps upd_node_def nth_append)

text \<open>
  C3. Editing without changes is faithful: opening the edit dialog of an item and saving at once sends
  exactly one \<open>PUT\<close>, to the item's own path, whose body is JSON that reads back as the very item that was
  shown (for items made of JSON values whose numbers are integers below \<open>10^21\<close>).
\<close>

theorem edit_save_roundtrip:
  assumes "json_ok (JObj kvs)" and "b = length (nodes c)" and "js_or (the (js_get (JObj kvs) ''name'')) (JStr []) = JStr name"
  shows "let c1 = click (AEdit x (JObj kvs)) ok c; c2 = click (AEditSave x (JObj kvs) b (b + 1) (b + 2)) ok' c1 in
    \<exists>t. sent c2 = sent c @ [\<lparr>rmode = MSend, rmethod = ''PUT'', rpath = ''/'' @ entityName x @ ''/'' @ name,
                            rbody = Some t, rfallback = False\<rparr>] \<and> json_parse t = Some (JObj kvs)"
proof -
  let ?c1 = "click (AEdit x (JObj kvs)) ok c"
  obtain t where t: "json_compact (JObj kvs) = Some t" "json_parse t = Some (JObj kvs)"
    using json_compact_parse [OF assms(1)] by blast
  obtain u where u: "json_pretty (JObj kvs) = Some u" "json_parse u = Some (JObj kvs)"
    using json_pretty_parse [OF assms(1)] by blast
  have "value_of (b + 1) ?c1 = u"
    using openEdit_state [OF assms(2) refl, of x kvs ok] u(1)
    by (simp add: value_of_def opt_text_def text_of_def nullish_def)
  moreover have "get_or (JObj kvs) ''name'' (JStr []) = Some (JStr name)" using assms(3) by (simp add: get_or_def)
  ultimately have "click_effs (AEditSave x (JObj kvs) b (b + 1) (b + 2)) ok' ?c1 =
      [Fetch [sendJSON ''PUT'' (''/'' @ entityName x @ ''/'' @ name) (JObj kvs)] (KSave x b (b + 2))]"
    using u(2) by (simp add: click_effs_def Let_def save_click_def)
  then have "sent (click (AEditSave x (JObj kvs) b (b + 1) (b + 2)) ok' ?c1) =
      sent c @ [sendJSON ''PUT'' (''/'' @ entityName x @ ''/'' @ name) (JObj kvs)]"
    using openEdit_state [OF assms(2) refl, of x kvs ok] by (simp only: click_sent) simp
  then show ?thesis using t unfolding Let_def by (intro exI [of _ t]) (simp add: sendJSON_def)
qed

theorem edit_save_roundtrip_witness:
  "let kvs = [(''name'', JStr ''api''), (''retries'', jint 3)]; c = boot [] [] 0;
       x = \<lparr>entityName = ''routes'', entityLabel = ''Route'', columns = [], tableWrap = 0\<rparr>;
       c2 = click (AEditSave x (JObj kvs) 1 2 3) True (click (AEdit x (JObj kvs)) True c) in
    \<exists>t. sent c2 = sent c @ [\<lparr>rmode = MSend, rmethod = ''PUT'', rpath = ''/routes/api'', rbody = Some t, rfallback = False\<rparr>] \<and>
        json_parse t = Some (JObj kvs)"
proof -
  let ?kvs = "[(''name'', JStr ''api''), (''retries'', jint 3)]"
  have ok: "json_ok (JObj ?kvs)" and len: "1 = length (nodes (boot [] [] 0))" by code_simp+
  have name: "js_or (the (js_get (JObj ?kvs) ''name'')) (JStr []) = JStr ''api''" by code_simp
  show ?thesis
    using edit_save_roundtrip [OF ok len name,
        of "\<lparr>entityName = ''routes'', entityLabel = ''Route'', columns = [], tableWrap = 0\<rparr>" True True]
    unfolding Let_def by (simp add: numeral_eq_Suc)
qed

section \<open>Invalid input\<close>

text \<open>
  A dialog text that is not JSON is never sent: saving it (in the create or the edit dialog) sends
  nothing, starts no promise, keeps every dialog open and puts the parser's message into the dialog's
  error line, and this happens for no other text of the edit dialog of an object.
\<close>

theorem invalid_json_not_sent:
  assumes "a = ACreateSave x ov ta err \<or> a = AEditSave x (JObj kvs) ov ta err" and "err < length (nodes c)"
  shows "(json_parse (value_of ta c) = None \<longrightarrow>
      sent (click a ok c) = sent c \<and> pending (click a ok c) = pending c \<and> overlays (click a ok c) = overlays c \<and>
      ckids (nodes (click a ok c) ! err) = [Text (''Invalid JSON: '' @ syntaxMsg c)]) \<and>
    (json_parse (value_of ta c) \<noteq> None \<longrightarrow> length (sent (click a ok c)) = Suc (length (sent c)))"
  using assms
  by (auto simp: click_def click_effs_def Let_def create_click_def save_click_def get_or_def frame_simps node_simps
      text_kids_def split: option.splits)

theorem invalid_json_not_sent_witness:
  "let x = \<lparr>entityName = ''routes'', entityLabel = ''Route'', columns = [], tableWrap = 0\<rparr>;
       c = click (ACreate x) True (boot [] ''Unexpected end'' 0); c' = click (ACreateSave x 1 2 3) True c in
     sent c' = sent c \<and> overlays c' = [1] \<and> ckids (nodes c' ! 3) = [Text ''Invalid JSON: Unexpected end'']"
proof -
  let ?x = "\<lparr>entityName = ''routes'', entityLabel = ''Route'', columns = [], tableWrap = 0\<rparr>"
  let ?c = "click (ACreate ?x) True (boot [] ''Unexpected end'' 0)"
  have "json_parse (value_of 2 ?c) = None" "3 < length (nodes ?c)" "overlays ?c = [1]" "syntaxMsg ?c = ''Unexpected end''"
    by code_simp+
  with invalid_json_not_sent [of "ACreateSave ?x 1 2 3" ?x 1 2 3 "[]" ?c True] show ?thesis by (simp add: Let_def)
qed

section \<open>The rows of a table\<close>

lemma crud_row_listeners:
  "crud_row x item = Some d \<Longrightarrow> listeners d = [AEdit x item, ADelete x item]"
proof -
  assume "crud_row x item = Some d"
  then obtain cells where cells: "those (map (crud_cell item) (columns x)) = Some cells"
    and d: "d = el ''tr'' [] (cells @ [el ''td'' []
       [on_click (text_el ''button'' ''btn small'' ''Edit'') (AEdit x item),
        on_click (text_el ''button'' ''btn small danger'' ''Delete'') (ADelete x item)]])"
    by (auto simp: crud_row_def bind_conv)
  have "crud_cell item col = Some e \<Longrightarrow> listeners e = []" for col e
    by (auto simp: crud_cell_def bind_conv Let_def)
  then have "\<forall>e \<in> set cells. listeners e = []" using those_map_mem [OF cells] by blast
  then have "concat (map listeners cells) = []" by simp
  then show ?thesis by (simp add: d text_el_def el_def el_text_def text_kids_def text_of_def nullish_def)
qed

lemma those_map_total:
  "\<forall>x \<in> set xs. f x \<noteq> None \<Longrightarrow> those (map f xs) = Some (map (the \<circ> f) xs)"
  by (induction xs) auto

lemma crud_row_total: "\<not> nullish item \<Longrightarrow> crud_row x item \<noteq> None"
proof -
  assume "\<not> nullish item"
  then have "crud_cell item col \<noteq> None" for col
    using js_get_None [of item "fst col"] by (cases "js_get item (fst col)") (auto simp: crud_cell_def Let_def)
  then show ?thesis by (simp add: crud_row_def those_map_total)
qed

text \<open>
  The table of an entity has one row per item, and the buttons of a row act on that item: when the
  response carries items and none of them is null, the table container shows one table whose
  click listeners are, in order, the edit and the delete of each item.
\<close>

theorem crud_rows_act_on_their_item:
  assumes "crud_items x data = Some items" and "items \<noteq> []" and "\<forall>item \<in> set items. \<not> nullish item"
    and "tableWrap x < length (nodes c)"
  shows "\<exists>table. ckids (nodes (fulfil (KCrudLoad x) [data] c) ! tableWrap x) = [table] \<and>
    listeners table = concat (map (\<lambda>item. [AEdit x item, ADelete x item]) items)"
proof -
  let ?rows = "map (the \<circ> crud_row x) items"
  have rows: "those (map (crud_row x) items) = Some ?rows"
    using assms(3) crud_row_total by (intro those_map_total) blast
  have row: "listeners (the (crud_row x item)) = [AEdit x item, ADelete x item]" if "item \<in> set items" for item
    using assms(3) that crud_row_total [of item x] crud_row_listeners [of x item] by fastforce
  let ?table = "table_el (map snd (columns x) @ [''Actions'']) ?rows"
  have "then_effs (KCrudLoad x) [data] (overlays c) =
      [Some (ClearKids (tableWrap x)), Some (Append (tableWrap x) ?table), Some MarkRefreshed]"
    using assms(1,2) rows by (cases items) (simp_all add: then_effs_def crud_then_def del: list.map)
  then have "ckids (nodes (fulfil (KCrudLoad x) [data] c) ! tableWrap x) = [?table]"
    using assms(4) by (simp add: fulfil_effs settled_effs_def frame_simps node_simps)
  moreover have "listeners ?table = concat (map (\<lambda>item. [AEdit x item, ADelete x item]) items)"
    using row by (simp add: o_def cong: map_cong)
  ultimately show ?thesis by blast
qed

theorem crud_rows_act_on_their_item_witness:
  "let x = \<lparr>entityName = ''routes'', entityLabel = ''Route'', columns = [(''name'', ''Name'')], tableWrap = 2\<rparr>;
       a = JObj [(''name'', JStr ''a'')]; b = JObj [(''name'', JStr ''b'')]; c = switchView ''routes'' (boot [] [] 0) in
    \<exists>table. ckids (nodes (fulfil (KCrudLoad x) [JObj [(''routes'', JArr [a, b])]] c) ! 2) = [table] \<and>
      listeners table = [AEdit x a, ADelete x a, AEdit x b, ADelete x b]"
proof -
  let ?x = "\<lparr>entityName = ''routes'', entityLabel = ''Route'', columns = [(''name'', ''Name'')], tableWrap = 2\<rparr>"
  let ?a = "JObj [(''name'', JStr ''a'')]" and ?b = "JObj [(''name'', JStr ''b'')]"
  have "crud_items ?x (JObj [(''routes'', JArr [?a, ?b])]) = Some [?a, ?b]" by code_simp
  moreover have "2 < length (nodes (switchView ''routes'' (boot [] [] 0)))" by code_simp
  ultimately show ?thesis
    using crud_rows_act_on_their_item [of ?x "JObj [(''routes'', JArr [?a, ?b])]" "[?a, ?b]" "switchView ''routes'' (boot [] [] 0)"]
    by (simp add: Let_def nullish_def)
qed

section \<open>Dialogs and their promises\<close>

text \<open>
  A successful save closes its dialog and reloads the table; if the user has cancelled the dialog
  in the meantime, the success is treated as a failure: \<open>removeChild\<close> throws, the table is not reloaded
  although the gateway has accepted the change, and the failure message goes to the error line of the
  dialog that is no longer shown.
\<close>

theorem save_success_depends_on_dialog:
  assumes "k = KCreate x ov err \<or> k = KSave x ov err" and "err < length (nodes c)" and "tableWrap x < length (nodes c)"
    and "js_get result ''ok'' = Some (JBool True)" and "distinct (overlays c)"
  shows "(ov \<in> set (overlays c) \<longrightarrow> ov \<notin> set (overlays (fulfil k [result] c)) \<and>
      sent (fulfil k [result] c) = sent c @ [get_json (''/'' @ entityName x)] \<and>
      ckids (nodes (fulfil k [result] c) ! tableWrap x) = [loading_el]) \<and>
    (ov \<notin> set (overlays c) \<longrightarrow> sent (fulfil k [result] c) = sent c \<and>
      ckids (nodes (fulfil k [result] c) ! err) =
        [Text ((if k = KCreate x ov err then ''Create'' else ''Save'') @ '' failed: '' @ exnMsg c)])"
proof -
  have ok: "then_effs k [result] (overlays c) =
      (if ov \<in> set (overlays c) then Some (RemoveBody ov) else None) # map Some (loadTable x)"
    using assms(1,4) by (auto simp: then_effs_def dialog_then_def)
  have mapped: "done_effs (map Some es) = es" for es by (induction es) auto
  show ?thesis
  proof (cases "ov \<in> set (overlays c)")
    case True
    then have "fulfil k [result] c = do_effs (loadTable x) (do_eff (RemoveBody ov) c)"
      by (simp add: fulfil_effs settled_effs_def ok mapped image_iff)
    with True assms(3,5) show ?thesis by (simp add: loadTable_def frame_simps node_simps)
  next
    case False
    then have "fulfil k [result] c = do_effs (catch_effs k (exnMsg c)) c"
      by (simp add: fulfil_effs settled_effs_def ok)
    with False assms(1,2) show ?thesis
      by (auto simp: catch_effs_def dialog_catch_def frame_simps node_simps text_kids_def)
  qed
qed

theorem save_success_depends_on_dialog_witness:
  "let x = \<lparr>entityName = ''routes'', entityLabel = ''Route'', columns = [], tableWrap = 0\<rparr>;
       result = JObj [(''status'', jint 201), (''data'', JObj []), (''ok'', JBool True)];
       c = click (ACreate x) True (boot ''NotFoundError'' [] 0); d = click (ACancel 1) True c in
     overlays (fulfil (KCreate x 1 3) [result] c) = [] \<and> sent (fulfil (KCreate x 1 3) [result] d) = sent d \<and>
     ckids (nodes (fulfil (KCreate x 1 3) [result] d) ! 3) = [Text ''Create failed: NotFoundError'']"
proof -
  let ?x = "\<lparr>entityName = ''routes'', entityLabel = ''Route'', columns = [], tableWrap = 0\<rparr>"
  let ?result = "JObj [(''status'', jint 201), (''data'', JObj []), (''ok'', JBool True)]"
  let ?c = "click (ACreate ?x) True (boot ''NotFoundError'' [] 0)"
  let ?d = "click (ACancel 1) True ?c"
  have c: "overlays ?c = [1]" "3 < length (nodes ?c)" "overlays ?d = []" "3 < length (nodes ?d)" "0 < length (nodes ?d)"
    "exnMsg ?d = ''NotFoundError''" by code_simp+
  have r: "js_get ?result ''ok'' = Some (JBool True)" by code_simp
  have "overlays (fulfil (KCreate ?x 1 3) [?result] ?c) = []" by code_simp
  with save_success_depends_on_dialog [of "KCreate ?x 1 3" ?x 1 3 ?d ?result] c r show ?thesis by (simp add: Let_def)
qed

end
