(* ===== verification/Console_Editor.thy ===== *)
theory Console_Editor
  imports Console_Invariants
begin

text \<open>
  The configuration editor: the effect of the automatic refresh on the text being edited, the report of a
  publication, and the validation preview.
\<close>

section \<open>Refreshing the editor\<close>

lemma editor_page:
  assumes "currentView c = ''editor''" and "b = length (nodes c)"
  shows "content (tick c) = [card ''Config Editor'' (Ref b) None]" "length (nodes (tick c)) = b + 3"
    "ckids (nodes (tick c) ! b) = [editor_toolbar (b + 1) (b + 2), Ref (b + 1), Ref (b + 2)]" "ctag (nodes (tick c) ! b) = ''div''"
    "nodes (tick c) ! (b + 1) = \<lparr>ctag = ''textarea'', cattrs = textarea_attrs, ckids = [], cvalue = []\<rparr>"
    "nodes (tick c) ! (b + 2) = \<lparr>ctag = ''div'', cattrs = [], ckids = [], cvalue = []\<rparr>"
proof -
  have v: "views ''editor'' = Some REditor" by code_simp
  show "content (tick c) = [card ''Config Editor'' (Ref b) None]" "length (nodes (tick c)) = b + 3"
    "ckids (nodes (tick c) ! b) = [editor_toolbar (b + 1) (b + 2), Ref (b + 1), Ref (b + 2)]" "ctag (nodes (tick c) ! b) = ''div''"
    "nodes (tick c) ! (b + 1) = \<lparr>ctag = ''textarea'', cattrs = textarea_attrs, ckids = [], cvalue = []\<rparr>"
    "nodes (tick c) ! (b + 2) = \<lparr>ctag = ''div'', cattrs = [], ckids = [], cvalue = []\<rparr>"
    by (simp_all add: tick_def render_current_def render_def v assms render_effs_def renderEditor_def upd_node_def
        nth_append nth_Cons' list_update_append)
qed

lemma editor_in_content:
  assumes "in_content (tick c) i" and "currentView c = ''editor''"
  shows "i \<in> {length (nodes c) ..< length (nodes c) + 3}"
  using assms(1)
proof (induction rule: in_content.induct)
  case (root d i)
  then show ?case using editor_page(1) [OF assms(2) refl] by simp
next
  case (kid i d j)
  let ?b = "length (nodes c)"
  have "i = ?b \<or> i = ?b + 1 \<or> i = ?b + 2" using kid.IH by auto
  then show ?case using kid.hyps(3,4) editor_page(3,5,6) [OF assms(2) refl]
    by (auto simp: editor_toolbar_def)
qed

text \<open>
  The automatic refresh throws away what is being typed in the configuration editor: whenever the
  timer fires while the editor is open, \<open>#content\<close> holds a fresh text area, and every text area it reaches
  is empty until the configuration has been fetched again. The script's \<open>dirty\<close> flag cannot prevent it: it is
  false in every reachable state.
\<close>

theorem refresh_discards_edits:
  assumes "reachable c" and "currentView c = ''editor''"
  shows "(\<exists>i < length (nodes (tick c)). in_content (tick c) i \<and> ctag (nodes (tick c) ! i) = ''textarea'') \<and>
    (\<forall>i < length (nodes (tick c)). in_content (tick c) i \<and> ctag (nodes (tick c) ! i) = ''textarea'' \<longrightarrow>
       cvalue (nodes (tick c) ! i) = [] \<and> length (nodes c) \<le> i) \<and> \<not> editorDirty c"
proof -
  let ?b = "length (nodes c)"
  note pg = editor_page [OF assms(2) refl]
  have root: "in_content (tick c) ?b" by (rule in_content.root [of "card ''Config Editor'' (Ref ?b) None"]) (simp_all add: pg(1))
  have "in_content (tick c) (?b + 1)"
    by (rule in_content.kid [OF root, of "Ref (?b + 1)"]) (simp_all add: pg(2,3))
  then have "\<exists>i < length (nodes (tick c)). in_content (tick c) i \<and> ctag (nodes (tick c) ! i) = ''textarea''"
    unfolding pg(2) using pg(5) by (intro exI [of _ "?b + 1"]) simp
  moreover have "cvalue (nodes (tick c) ! i) = [] \<and> ?b \<le> i"
    if "in_content (tick c) i" "ctag (nodes (tick c) ! i) = ''textarea''" for i
  proof -
    have "i = ?b \<or> i = ?b + 1 \<or> i = ?b + 2" using editor_in_content [OF that(1) assms(2)] by auto
    with that(2) pg(4-6) show ?thesis by auto
  qed
  moreover have "\<not> editorDirty c" using dirty.loop.reach [OF assms(1)] by (simp add: never_dirty_def)
  ultimately show ?thesis by blast
qed

theorem refresh_discards_edits_witness:
  "let c = do_eff (SetValue 2 ''listeners: []'') (switchView ''editor'' (boot [] [] 0)) in
     value_of 2 c = ''listeners: []'' \<and>
     (\<forall>i < length (nodes (tick c)). in_content (tick c) i \<and> ctag (nodes (tick c) ! i) = ''textarea'' \<longrightarrow>
        cvalue (nodes (tick c) ! i) = [])"
proof -
  let ?e = "switchView ''editor'' (boot [] [] 0)"
  let ?c = "do_eff (SetValue 2 ''listeners: []'') ?e"
  have "\<exists>d \<in> set (content ?e). 1 \<in> set (refs d)" by code_simp
  then have 1: "in_content ?e 1" by (blast intro: in_content.root)
  have "1 < length (nodes ?e) \<and> (\<exists>d \<in> set (ckids (nodes ?e ! 1)). 2 \<in> set (refs d))" by code_simp
  then have 2: "shown ?e 2" using 1 by (blast intro: in_content.kid shown.content)
  have 3: "2 < length (nodes ?e)" "ctag (nodes ?e ! 2) = ''textarea''" "''editor'' \<in> set nav_views" by code_simp+
  have "reachable ?c"
    using reachable.step [OF reachable.step [OF reachable.start console_step.navigate [OF 3(3)]] console_step.typed [OF 2 3(1,2)]]
    by blast
  moreover have "currentView ?c = ''editor''" "value_of 2 ?c = ''listeners: []''" by code_simp+
  ultimately show ?thesis using refresh_discards_edits [of ?c] by (simp add: Let_def)
qed

section \<open>Publishing\<close>

lemma publish_clicked:
  assumes "pv < length (nodes c)"
  shows "ckids (nodes (click (APublish ta pv) True c) ! pv) = [text_el ''div'' ''stat-label'' ''Publishing...'']"
    "length (nodes (click (APublish ta pv) True c)) = length (nodes c)"
  using assms by (simp_all add: click_def click_effs_def Let_def publish_click_def frame_simps node_simps)

text \<open>
  The outcome of a publication is reported once and the configuration counts as saved only when the
  gateway accepted it: after the confirmed click, a 2xx answer adds the generation and records the
  published text, another status or a failed request adds the reason and leaves the recorded text. In all
  three cases the line \<open>Publishing...\<close> stays in front of the report.
\<close>

theorem publish_report:
  assumes "pv < length (nodes c)" and "body = value_of ta c" and "c1 = click (APublish ta pv) True c"
    and "data = JObj kvs" and "js_or (the (js_get data ''generation'')) (JStr ''?'') = g"
    and "error_detail data ''Unknown error'' = Some m"
    and "settle (send_yaml ''PATCH'' ''/config'' body) (Response st t (Inr data)) = Inr result"
    and "c2 = fulfil (KPublish pv body) [result] c1" and "c3 = reject (KPublish pv body) msg c1"
  shows "sent c1 = sent c @ [send_yaml ''PATCH'' ''/config'' body] \<and>
    ckids (nodes c2 ! pv) = [text_el ''div'' ''stat-label'' ''Publishing...'',
       if resp_ok st then preview_el ''valid'' (''Config published successfully (generation '' @ js_string g @ '').'')
       else preview_el ''invalid'' (''Publish failed: '' @ js_string m)] \<and>
    editorYaml c2 = (if resp_ok st then body else editorYaml c) \<and>
    ckids (nodes c3 ! pv) = [text_el ''div'' ''stat-label'' ''Publishing...'',
       preview_el ''invalid'' (''Publish request failed: '' @ msg)] \<and>
    editorYaml c3 = editorYaml c"
proof -
  have e: "editorYaml c1 = editorYaml c" "sent c1 = sent c @ [send_yaml ''PATCH'' ''/config'' body]"
    by (simp_all add: assms(2,3) click_def click_effs_def Let_def publish_click_def frame_simps)
  note c1 = publish_clicked [OF assms(1), of ta, folded assms(3)]
  have r: "result = JObj [(''status'', jnat st), (''data'', data)]"
    using assms(7) by (simp add: settle_def send_yaml_def status_data_def)
  have st: "status_2xx (jnat st) = resp_ok st"
    by (auto simp: status_2xx_def resp_ok_def)
  have "then_effs (KPublish pv body) [result] (overlays c1) =
     (if resp_ok st then [Some (Append pv (preview_el ''valid''
           (''Config published successfully (generation '' @ js_string g @ '').''))), Some (EditorLoaded body)]
      else [Some (Append pv (preview_el ''invalid'' (''Publish failed: '' @ js_string m)))])"
    using assms(4-6) st by (simp add: r then_effs_def publish_then_def get_or_def)
  then show ?thesis
    using c1 assms(1) e by (simp add: assms(8,9) fulfil_effs settled_effs_def reject_def catch_effs_def
        publish_catch_def frame_simps node_simps)
qed

theorem publish_report_witness:
  "let c1 = click (APublish 2 3) True (switchView ''editor'' (boot [] [] 0));
       result = JObj [(''status'', jint 200), (''data'', JObj [(''generation'', jint 7)])];
       c2 = fulfil (KPublish 3 []) [result] c1 in
     ckids (nodes c2 ! 3) = [text_el ''div'' ''stat-label'' ''Publishing...'',
       preview_el ''valid'' ''Config published successfully (generation 7).'']"
proof -
  let ?c = "switchView ''editor'' (boot [] [] 0)" and ?data = "JObj [(''generation'', jint 7)]"
  have "3 < length (nodes ?c)" "value_of 2 ?c = []" "js_or (the (js_get ?data ''generation'')) (JStr ''?'') = jint 7"
    "error_detail ?data ''Unknown error'' = Some (JStr ''Unknown error'')" "resp_ok 200"
    "settle (send_yaml ''PATCH'' ''/config'' []) (Response 200 [] (Inr ?data)) =
       Inr (JObj [(''status'', jint 200), (''data'', ?data)])" "js_string (jint 7) = ''7''" by code_simp+
  with publish_report [of 3 ?c "[]" 2 _ ?data, OF _ _ refl _ _ _ _ refl refl] show ?thesis by (simp add: Let_def)
qed

section \<open>Validation preview\<close>

definition issue_texts :: "jv \<Rightarrow> string list" where
  "issue_texts i = (let f = (\<lambda>k. js_string (the (js_get i k))) in
     [f ''entity'' @ ''.'' @ f ''name'' @ ''.'' @ f ''field'',
      [CHR 0x20, CHR 0xE2, CHR 0x80, CHR 0x94, CHR 0x20] @ f ''message''])"

lemma issue_el_texts: "\<not> nullish i \<Longrightarrow> \<exists>d. issue_el i = Some d \<and> texts d = issue_texts i"
proof -
  assume "\<not> nullish i"
  then obtain a b c d where "js_get i ''entity'' = Some a" "js_get i ''name'' = Some b" "js_get i ''field'' = Some c"
    "js_get i ''message'' = Some d"
    by (metis js_get_None option.exhaust)
  then show ?thesis
    by (simp add: issue_el_def issue_texts_def texts_el text_of_def nullish_def)
qed

lemma issue_els_texts:
  "\<forall>i \<in> set is. \<not> nullish i \<Longrightarrow>
     \<exists>ds. those (map issue_el is) = Some ds \<and> map texts ds = map issue_texts is"
proof (induction "is")
  case (Cons i "is")
  then show ?case using issue_el_texts [of i] by auto
qed simp

text \<open>
  The validation preview is complete: when the gateway answers that the configuration is invalid with
  a list of issues, the preview shows one report whose text is the number of issues followed by the
  place and the message of every issue, in the order of the response; when it is valid, the summary alone.
\<close>

theorem preview_lists_every_issue:
  assumes "js_get data ''valid'' = Some valid" and "js_get data ''issues'' = Some (JArr is)" and "data = JObj kvs"
    and "\<forall>i \<in> set is. \<not> nullish i" and "st \<noteq> 400" and "pv < length (nodes c)"
    and "result = JObj [(''status'', jnat st), (''data'', data)]"
  shows "\<exists>report. ckids (nodes (fulfil (KValidate pv) [result] c) ! pv) = [report] \<and>
    texts report = (if valid \<noteq> JBool False then [''Config is valid ('' @ js_string (jnat (length is)) @ '' issues).'']
      else (''Config has '' @ js_string (jnat (length is)) @ '' validation issue(s):'') # concat (map issue_texts is))"
proof -
  obtain ds where ds: "those (map issue_el is) = Some ds" "map texts ds = map issue_texts is"
    using issue_els_texts [OF assms(4)] by blast
  let ?n = "js_string (jnat (length is))"
  let ?report = "if valid \<noteq> JBool False
      then el ''div'' [(''class'', JStr ''validation-preview valid'')]
             [el ''div'' [(''text'', JStr (''Config is valid ('' @ ?n @ '' issues).''))] []]
      else el ''div'' [(''class'', JStr ''validation-preview invalid'')]
             (el ''div'' [(''text'', JStr (''Config has '' @ ?n @ '' validation issue(s):''))] [] # ds)"
  have "issues_el data = Some ?report"
    using assms(1,2) ds(1) by (simp add: issues_el_def get_or_def)
  then have "then_effs (KValidate pv) [result] (overlays c) = [Some (ClearKids pv), Some (Append pv ?report)]"
    using assms(5) by (simp add: then_effs_def renderValidationPreview_def assms(3,7))
  then have "ckids (nodes (fulfil (KValidate pv) [result] c) ! pv) = [?report]"
    using assms(6) by (simp add: fulfil_effs settled_effs_def frame_simps node_simps)
  then show ?thesis using ds(2) by (simp add: texts_el text_of_def nullish_def)
qed

theorem preview_lists_every_issue_witness:
  "let issue = JObj [(''entity'', JStr ''route''), (''name'', JStr ''api''), (''field'', JStr ''service''), (''message'', JStr ''unknown'')];
       result = JObj [(''status'', jint 200), (''data'', JObj [(''valid'', JBool False), (''issues'', JArr [issue])])];
       c = switchView ''editor'' (boot [] [] 0) in
     \<exists>report. ckids (nodes (fulfil (KValidate 3) [result] c) ! 3) = [report] \<and>
       texts report = [''Config has 1 validation issue(s):'', ''route.api.service'',
         [CHR 0x20, CHR 0xE2, CHR 0x80, CHR 0x94, CHR 0x20] @ ''unknown'']"
proof -
  let ?issue = "JObj [(''entity'', JStr ''route''), (''name'', JStr ''api''), (''field'', JStr ''service''), (''message'', JStr ''unknown'')]"
  let ?data = "JObj [(''valid'', JBool False), (''issues'', JArr [?issue])]"
  let ?c = "switchView ''editor'' (boot [] [] 0)"
  have "js_get ?data ''valid'' = Some (JBool False)" "js_get ?data ''issues'' = Some (JArr [?issue])" "3 < length (nodes ?c)"
    "js_string (jnat (length [?issue])) = ''1''" "issue_texts ?issue = [''route.api.service'',
         [CHR 0x20, CHR 0xE2, CHR 0x80, CHR 0x94, CHR 0x20] @ ''unknown'']" by code_simp+
  with preview_lists_every_issue [of ?data "JBool False" "[?issue]" _ 200 3 ?c, OF _ _ refl _ _ _ refl] show ?thesis
    by (simp add: Let_def nullish_def)
qed

end
