(* ===== verification/Console_Pages.thy ===== *)
theory Console_Pages
  imports Console_Invariants
begin

text \<open>
  Functional properties of the read-only views: the upstream table, the status badge, the live view
  without a gateway, the uptime text; and of navigation and the sample window.
\<close>

section \<open>Navigation\<close>

text \<open>
  C39. Navigation stays consistent: in every reachable state the current view is one of the ten views of
  the navigation bar, exactly its button is marked active, it has a render function, and exactly one
  refresh timer is running, the one the script remembers.
\<close>

theorem navigation_consistent:
  assumes "reachable c"
  shows "currentView c \<in> set nav_views \<and> navActive c = [currentView c] \<and> views (currentView c) \<noteq> None \<and>
    (\<exists>t. timers c = [t] \<and> refreshTimer c = Some t)"
  using nav.reach [OF assms] views_nav [of "currentView c"] by (auto simp: nav_ok_def)

theorem navigation_consistent_witness:
  "let c = tick (switchView ''fleet'' (boot [] [] 0)) in
     currentView c = ''fleet'' \<and> navActive c = [''fleet''] \<and> (\<exists>t. timers c = [t] \<and> refreshTimer c = Some t)"
proof -
  let ?c = "switchView ''fleet'' (boot [] [] 0)"
  have v: "''fleet'' \<in> set nav_views" and t: "1 \<in> set (timers ?c)" by code_simp+
  have "reachable (tick ?c)"
    by (rule reachable.step [OF reachable.step [OF reachable.start console_step.navigate [OF v]] console_step.ticked [OF t]])
  moreover have "currentView (tick ?c) = ''fleet''" by code_simp
  ultimately show ?thesis using navigation_consistent [of "tick ?c"] by (simp add: Let_def)
qed

section \<open>The sample window\<close>

text \<open>
  The live chart keeps the most recent samples: whatever sequence of samples is pushed, the window is
  exactly its last sixty, in order; and no reachable state has more.
\<close>

theorem window_keeps_latest:
  "foldl (\<lambda>h p. push_point p h) [] ps = drop (length ps - maxPoints) ps \<and>
   (reachable c \<longrightarrow> length (history c) \<le> maxPoints)"
  using live.pushes_suffix [of ps] window.loop.reach [of c] by (simp add: window_ok_def)

theorem window_keeps_latest_witness:
  "length (history (boot [] [] 0)) \<le> maxPoints"
  using window_keeps_latest [of "[]" "boot [] [] 0"] reachable.start by blast

section \<open>The status badge\<close>

text \<open>The badge a callback body sets first.\<close>

definition badge_after :: "eff option list \<Rightarrow> string option" where
  "badge_after es = (case [s. Some (ShowBadge s) \<leftarrow> es] of [] \<Rightarrow> None | s # _ \<Rightarrow> Some s)"

text \<open>
  The two views that set the health badge agree on a health report with a boolean \<open>ready\<close> field and
  disagree when the field is missing: the overview counts such a gateway as healthy, the health view as
  unhealthy.
\<close>

theorem badge_agreement:
  "badge_after (overview_then g (JObj kvs) stats config) =
     Some (if map_of kvs ''ready'' = Some (JBool False) then ''unhealthy'' else ''healthy'') \<and>
   badge_after (health_then w (JObj kvs)) =
     Some (case map_of kvs ''ready'' of Some v \<Rightarrow> if truthy v then ''healthy'' else ''unhealthy'' | None \<Rightarrow> ''unhealthy'') \<and>
   (map_of kvs ''ready'' = Some (JBool b) \<longrightarrow>
      badge_after (overview_then g (JObj kvs) stats config) = badge_after (health_then w (JObj kvs))) \<and>
   (map_of kvs ''ready'' = None \<longrightarrow>
      badge_after (overview_then g (JObj kvs) stats config) = Some ''healthy'' \<and>
      badge_after (health_then w (JObj kvs)) = Some ''unhealthy'')"
proof -
  have r: "proto_read [] ''ready'' = JUndef" by code_simp
  have o: "badge_after (Some (ShowBadge s) # es) = Some s" for s es by (simp add: badge_after_def)
  have "badge_after (overview_then g (JObj kvs) stats config) =
     Some (if map_of kvs ''ready'' = Some (JBool False) then ''unhealthy'' else ''healthy'')"
    by (simp add: overview_then_def o r split: option.split)
  moreover have "badge_after (health_then w (JObj kvs)) =
     Some (case map_of kvs ''ready'' of Some v \<Rightarrow> if truthy v then ''healthy'' else ''unhealthy'' | None \<Rightarrow> ''unhealthy'')"
    by (simp add: health_then_def badge_after_def r split: option.split)
  ultimately show ?thesis by simp
qed

theorem badge_agreement_witness:
  "badge_after (overview_then 0 (JObj []) (JObj []) (JObj [])) = Some ''healthy'' \<and>
   badge_after (health_then 0 (JObj [])) = Some ''unhealthy''"
  using badge_agreement [of 0 "[]" "JObj []" "JObj []" 0] by simp

section \<open>Uptime\<close>

text \<open>
  The uptime text is the number of whole hours and of the remaining whole minutes: for a positive
  number of seconds, the minutes are below 60 and the shown time is at most the uptime, by less than a minute.
\<close>

theorem formatUptime_hours_minutes:
  assumes "0 < n" and "n < 10 ^ 21"
  shows "\<exists>h m. formatUptime (jnat n) = nat_str h @ ''h '' @ nat_str m @ ''m'' \<and>
    m < 60 \<and> 3600 * h + 60 * m \<le> n \<and> n < 3600 * h + 60 * m + 60"
proof -
  have q: "\<lfloor>(of_nat a :: rat) / of_nat b\<rfloor> = int (a div b)" for a b by (simp add: floor_divide_of_nat_eq)
  have h: "\<lfloor>(of_nat n :: rat) / 3600\<rfloor> = int (n div 3600)" using q [of n 3600] by simp
  have r: "(of_nat n :: rat) - 3600 * of_nat (n div 3600) = of_nat (n mod 3600)"
    by (simp add: minus_mult_div_eq_mod [symmetric] of_nat_diff)
  have m: "\<lfloor>(of_nat (n mod 3600) :: rat) / 60\<rfloor> = int (n mod 3600 div 60)" using q [of "n mod 3600" 60] by simp
  have "n div 3600 < 10 ^ 21" "n mod 3600 div 60 < 10 ^ 21" using assms(2) by simp_all
  then have "formatUptime (jnat n) = nat_str (n div 3600) @ ''h '' @ nat_str (n mod 3600 div 60) @ ''m''"
    using assms(1) by (simp add: formatUptime_def Let_def h r m del: num_str.simps)
  moreover have "n mod 3600 div 60 < 60" by (simp add: div_less_iff_less_mult)
  moreover have "3600 * (n div 3600) + 60 * (n mod 3600 div 60) \<le> n \<and> n < 3600 * (n div 3600) + 60 * (n mod 3600 div 60) + 60"
    using mult_div_mod_eq [of 3600 n] mult_div_mod_eq [of 60 "n mod 3600"] mod_less_divisor [of 60 "n mod 3600"]
    by linarith
  ultimately show ?thesis by blast
qed

theorem formatUptime_hours_minutes_witness:
  "\<exists>h m. formatUptime (jnat 7325) = nat_str h @ ''h '' @ nat_str m @ ''m'' \<and>
    m < 60 \<and> 3600 * h + 60 * m \<le> 7325 \<and> 7325 < 3600 * h + 60 * m + 60"
  using formatUptime_hours_minutes [of 7325] by simp

section \<open>The upstream table\<close>

lemma those_map_Some: "(\<And>x. x \<in> set xs \<Longrightarrow> f x = Some (g x)) \<Longrightarrow> those (map f xs) = Some (map g xs)"
  by (induction xs) auto

lemma js_get_member: "obj_ok kvs \<Longrightarrow> (k, v) \<in> set kvs \<Longrightarrow> js_get (JObj kvs) k = Some v"
  by (simp add: obj_ok_def)

lemma endpoint_rows_all:
  assumes "obj_ok ups" "(u, JObj fs) \<in> set ups" "js_get (JObj fs) ''endpoints'' = Some (JObj eps)" "obj_ok eps"
  shows "endpoint_rows (JObj ups) u = Some (map (\<lambda>(a, h). (u, a, h)) eps)"
proof -
  have "those (map (\<lambda>addr. do { h \<leftarrow> js_get (JObj eps) addr; Some (u, addr, h) }) (map fst eps)) =
      those (map (\<lambda>p. do { h \<leftarrow> js_get (JObj eps) (fst p); Some (u, fst p, h) }) eps)"
    by (simp add: o_def)
  also have "\<dots> = Some (map (\<lambda>(a, h). (u, a, h)) eps)"
    by (rule those_map_Some) (use js_get_member [OF assms(4)] in \<open>auto simp del: js_get.simps\<close>)
  finally show ?thesis
    using js_get_member [OF assms(1,2)] assms(3)
    by (simp add: endpoint_rows_def get_or_def del: js_get.simps)
qed

text \<open>
  The upstream table is complete and exact: for a health report whose upstreams each have an object
  of endpoints, it has one row per endpoint of every upstream, in the order of the report, with the
  service name, the address and the reported health; an empty report gives the notice instead.
\<close>

theorem upstream_table_complete:
  assumes "js_get health ''upstreams'' = Some (JObj ups)" and "obj_ok ups"
    and "\<forall>(u, v) \<in> set ups. \<exists>fs. v = JObj fs \<and> js_get v ''endpoints'' = Some (JObj (eps u)) \<and> obj_ok (eps u)"
    and "w < length (nodes c)" and "rows = concat (map (\<lambda>(u, v). map (\<lambda>(a, h). (u, a, h)) (eps u)) ups)"
  shows "ckids (nodes (fulfil (KUpstreams w) [health] c) ! w) =
    (if rows = [] then [el ''p'' [(''text'', JStr ''No upstream data available.'')] []]
     else [table_el [''Service'', ''Address'', ''Health''] (map upstream_row rows)])"
proof -
  have "those (map (endpoint_rows (JObj ups)) (map fst ups)) = those (map (\<lambda>p. endpoint_rows (JObj ups) (fst p)) ups)"
    by (simp add: o_def)
  also have "\<dots> = Some (map (\<lambda>p. map (\<lambda>(a, h). (fst p, a, h)) (eps (fst p))) ups)"
    by (rule those_map_Some) (use assms(2,3) endpoint_rows_all in fastforce)
  finally have "upstream_rows health = Some rows"
    using assms(1) by (simp add: upstream_rows_def get_or_def assms(5) case_prod_unfold)
  then have "then_effs (KUpstreams w) [health] (overlays c) = Some (ClearKids w) #
      (if rows = [] then [Some (Append w (el ''p'' [(''text'', JStr ''No upstream data available.'')] []))]
       else [Some (Append w (table_el [''Service'', ''Address'', ''Health''] (map upstream_row rows))), Some MarkRefreshed])"
    by (cases rows) (simp_all add: then_effs_def upstreams_then_def)
  then show ?thesis using assms(4) by (simp add: fulfil_effs settled_effs_def frame_simps node_simps)
qed

theorem upstream_table_complete_witness:
  "let ups = [(''api'', JObj [(''endpoints'', JObj [(''10.0.0.1:80'', JStr ''up''), (''10.0.0.2:80'', JStr ''down'')])])];
       c = do_effs (renderUpstreams 0) (loaded_page [] [] 0) in
     ckids (nodes (fulfil (KUpstreams 0) [JObj [(''upstreams'', JObj ups)]] c) ! 0) =
       [table_el [''Service'', ''Address'', ''Health'']
          (map upstream_row [(''api'', ''10.0.0.1:80'', JStr ''up''), (''api'', ''10.0.0.2:80'', JStr ''down'')])]"
proof -
  let ?e = "[(''10.0.0.1:80'', JStr ''up''), (''10.0.0.2:80'', JStr ''down'')]"
  let ?ups = "[(''api'', JObj [(''endpoints'', JObj ?e)])]" and ?c = "do_effs (renderUpstreams 0) (loaded_page [] [] 0)"
  have "js_get (JObj [(''upstreams'', JObj ?ups)]) ''upstreams'' = Some (JObj ?ups)" "obj_ok ?ups" "obj_ok ?e"
    "js_get (JObj [(''endpoints'', JObj ?e)]) ''endpoints'' = Some (JObj ?e)" "0 < length (nodes ?c)" by code_simp+
  with upstream_table_complete [of "JObj [(''upstreams'', JObj ?ups)]" ?ups "\<lambda>_. ?e" 0 ?c, OF _ _ _ _ refl] show ?thesis
    by (simp add: Let_def del: js_get.simps)
qed

section \<open>The live view without a gateway\<close>

lemma fallback_settles: "\<exists>v. settle (get_json_or_empty p) out = Inr v"
  by (simp add: settle_def get_json_or_empty_def get_json_def split: sum.split)

text \<open>
  The live and the AI views never show a request failure: their requests fall back to an empty
  object, so their promises are never rejected by the network. With the gateway unreachable the live view
  records the sample 0/0/0, counts as refreshed, and shows zeros with an error rate of 0.00%.
\<close>

theorem live_view_hides_outage:
  assumes "w < length (nodes c)"
    and "c' = fulfil (KLive w) (map (\<lambda>p. projr (settle (get_json_or_empty p) (NetFail msg)))
                  [''/analytics/dashboard'', ''/analytics/live'', ''/stats'']) c"
  shows "(\<forall>p out. \<exists>x. settle (get_json_or_empty p) out = Inr x) \<and>
    history c' = push_point \<lparr>p50 = jint 0, p95 = jint 0, p99 = jint 0, ts = now c\<rparr> (history c) \<and>
    lastRefresh c' = Some (now c) \<and>
    texts (hd (ckids (nodes c' ! w))) = [''Active Requests'', ''0'', ''RPS'', ''0'', ''p50 (ms)'', ''n/a'', ''p95 (ms)'', ''n/a'',
       ''p99 (ms)'', ''n/a'', ''Error Rate'', ''0.00%'']"
proof -
  have v: "projr (settle (get_json_or_empty p) (NetFail msg)) = JObj []" for p
    by (simp add: settle_def get_json_or_empty_def get_json_def fetchJSON_def)
  obtain stats where s: "live_stats (JObj []) (JObj []) (JObj []) = Some stats"
    and t: "texts stats = [''Active Requests'', ''0'', ''RPS'', ''0'', ''p50 (ms)'', ''n/a'', ''p95 (ms)'', ''n/a'',
       ''p99 (ms)'', ''n/a'', ''Error Rate'', ''0.00%'']"
  proof -
    have "map_option texts (live_stats (JObj []) (JObj []) (JObj [])) = Some [''Active Requests'', ''0'', ''RPS'', ''0'',
       ''p50 (ms)'', ''n/a'', ''p95 (ms)'', ''n/a'', ''p99 (ms)'', ''n/a'', ''Error Rate'', ''0.00%'']" by code_simp
    then show ?thesis using that by (auto simp: map_option_case split: option.splits)
  qed
  have g: "get_or (JObj []) k (jint 0) = Some (jint 0)" if "k \<in> {''p50_ms'', ''p95_ms'', ''p99_ms''}" for k
    using that by (elim insertE emptyE; hypsubst) code_simp+
  have r: "js_get (JObj []) ''routes'' = Some JUndef" by code_simp
  have "then_effs (KLive w) [JObj [], JObj [], JObj []] (overlays c) =
      [Some (ClearKids w), Some (Append w stats), Some (PushPoint (jint 0) (jint 0) (jint 0)), Some (AppendChart w),
       Some MarkRefreshed]"
    by (simp add: then_effs_def live_then_def Let_def s g [simplified] r live_routes_def del: js_get.simps)
  then have c': "c' = do_effs [ClearKids w, Append w stats, PushPoint (jint 0) (jint 0) (jint 0), AppendChart w, MarkRefreshed] c"
    unfolding assms(2) v by (simp add: fulfil_effs settled_effs_def del: do_effs_simps)
  show ?thesis using assms(1) t fallback_settles by (simp add: c' frame_simps node_simps)
qed

theorem live_view_hides_outage_witness:
  "let c = switchView ''live'' (boot [] [] 5); c' = fulfil (KLive 1) [JObj [], JObj [], JObj []] c in
     history c' = [\<lparr>p50 = jint 0, p95 = jint 0, p99 = jint 0, ts = 5\<rparr>] \<and> lastRefresh c' = Some 5"
proof -
  let ?c = "switchView ''live'' (boot [] [] 5)"
  have "1 < length (nodes ?c)" "now ?c = 5" "history ?c = []" by code_simp+
  moreover have "projr (settle (get_json_or_empty p) (NetFail [])) = JObj []" for p
    by (simp add: settle_def get_json_or_empty_def get_json_def fetchJSON_def)
  ultimately show ?thesis
    using live_view_hides_outage [of 1 ?c _ "[]", OF _ refl] by (simp add: Let_def push_point_def maxPoints_def)
qed

end
