(* ===== verification/Freeze.thy ===== *)
theory Freeze
  imports Json
begin

text \<open>
  The release script of the documentation site, \<open>docs-site/scripts/freeze-version.mjs\<close>: it copies the current
  pages into \<open>versions/<version>/\<close> and writes a sidebar for them. The file system is a partial map from paths
  below \<open>docs-site/\<close> to directories and files; the calls of \<open>node:fs\<close> that the script makes are modelled with
  their failures. Symbolic links, permissions and a full disk are not.
\<close>

section \<open>The file system\<close>

type_synonym path = "string list"

datatype fsnode = Dir | File string

type_synonym fs = "path \<Rightarrow> fsnode option"

fun strip_prefix :: "path \<Rightarrow> path \<Rightarrow> path option" where
  "strip_prefix [] p = Some p"
| "strip_prefix (a # as) [] = None"
| "strip_prefix (a # as) (b # bs) = (if a = b then strip_prefix as bs else None)"

text \<open>\<open>existsSync(p)\<close>.\<close>

definition existsSync :: "path \<Rightarrow> fs \<Rightarrow> bool" where
  "existsSync p t = (t p \<noteq> None)"

text \<open>\<open>mkdirSync(p, { recursive: true })\<close>: creates the missing directories; fails on a file in the way.\<close>

fun prefixes_of :: "path \<Rightarrow> path list" where
  "prefixes_of [] = []"
| "prefixes_of (a # p) = [a] # map ((#) a) (prefixes_of p)"

fun is_file :: "fsnode option \<Rightarrow> bool" where
  "is_file (Some (File s)) = True"
| "is_file n = False"

definition mkdirSync :: "path \<Rightarrow> fs \<Rightarrow> fs option" where
  "mkdirSync p t = (if list_ex (\<lambda>q. is_file (t q)) (prefixes_of p) then None
     else Some (\<lambda>q. if q \<in> set (prefixes_of p) then Some Dir else t q))"

text \<open>\<open>cpSync(src, dst, { recursive: true })\<close> for an existing source.\<close>

definition cpSync :: "path \<Rightarrow> path \<Rightarrow> fs \<Rightarrow> fs" where
  "cpSync src dst t = (\<lambda>q. case strip_prefix dst q of None \<Rightarrow> t q
     | Some r \<Rightarrow> (case t (src @ r) of None \<Rightarrow> t q | Some n \<Rightarrow> Some n))"

text \<open>\<open>writeFileSync(p, s)\<close>: fails on a directory.\<close>

definition writeFileSync :: "path \<Rightarrow> string \<Rightarrow> fs \<Rightarrow> fs option" where
  "writeFileSync p s t = (if t p = Some Dir then None else Some (t(p \<mapsto> File s)))"

section \<open>The script\<close>

text \<open>\<open>/^\d+\.\d+\.\d+$/.test(version)\<close>.\<close>

definition is_version :: "string \<Rightarrow> bool" where
  "is_version v = (let ps = split_on (CHR ''.'') v in
     length ps = 3 \<and> list_all (\<lambda>p. p \<noteq> [] \<and> list_all is_digit p) ps)"

definition content_entries :: "string list" where
  "content_entries = [''index.md'', ''guide'', ''architecture'', ''reference'']"

definition version_dir :: "string \<Rightarrow> path" where
  "version_dir v = [''versions'', v]"

definition sidebar_dir :: path where
  "sidebar_dir = [''.vitepress'', ''sidebars'', ''versioned'']"

definition sidebar_file :: "string \<Rightarrow> path" where
  "sidebar_file v = sidebar_dir @ [v @ ''.json'']"

definition link_item :: "string \<Rightarrow> string \<Rightarrow> jv" where
  "link_item t l = JObj [(''text'', JStr t), (''link'', JStr l)]"

definition sidebar_group :: "string \<Rightarrow> jv list \<Rightarrow> jv" where
  "sidebar_group t items = JArr [JObj [(''text'', JStr t), (''items'', JArr items)]]"

definition guide_items :: "jv list" where
  "guide_items = [link_item ''Getting started'' ''/guide/getting-started'', link_item ''Installation'' ''/guide/installation'',
     link_item ''Configuration'' ''/guide/configuration'', link_item ''Deployment'' ''/guide/deployment'',
     link_item ''Operations'' ''/guide/operations'', link_item ''Observability'' ''/guide/observability'',
     link_item ''Admin API'' ''/guide/admin-api'', link_item ''CLI'' ''/guide/cli'']"

definition sidebar :: jv where
  "sidebar = JObj [(''/guide/'', sidebar_group ''Guide'' guide_items),
     (''/architecture/'', sidebar_group ''Architecture'' [link_item ''Overview'' ''/architecture/overview'']),
     (''/reference/'', sidebar_group ''Reference''
        [link_item ''Environment variables'' ''/reference/environment-variables'',
         link_item ''Configuration schema'' ''/reference/configuration-schema''])]"

definition sidebar_text :: string where
  "sidebar_text = js_string (opt_text (json_pretty sidebar)) @ [CHR 0x0A]"

text \<open>How a run ends: refused with a message and exit code 1, an exception, or success with its log.\<close>

datatype verdict = Refused string | Threw | Frozen "string list"

definition usage_msg :: string where
  "usage_msg = ''usage: node scripts/freeze-version.mjs <version>  (e.g. 1.2.0, no leading v)''"

definition bad_version_msg :: "string \<Rightarrow> string" where
  "bad_version_msg v = ''version must be a bare semver (e.g. '' @ [CHR 0x22] @ ''1.2.0'' @ [CHR 0x22] @ ''), got: '' @ v"

definition exists_msg :: "string \<Rightarrow> string" where
  "exists_msg v = ''versions/'' @ v @ '' already exists; refusing to overwrite. Remove it first if you need to re-freeze.''"

definition frozen_log :: "string \<Rightarrow> string list" where
  "frozen_log v = [''Froze docs-site content into versions/'' @ v @ ''/'',
     ''Wrote .vitepress/sidebars/versioned/'' @ v @ ''.json'',
     ''Review the diff, commit it, then tag the release.'']"

definition copy_entries :: "string \<Rightarrow> fs \<Rightarrow> fs" where
  "copy_entries v t = fold (\<lambda>e t. if existsSync [e] t then cpSync [e] (version_dir v @ [e]) t else t) content_entries t"

text \<open>The run of the script with \<open>process.argv[2]\<close>.\<close>

definition freeze :: "string option \<Rightarrow> fs \<Rightarrow> fs \<times> verdict" where
  "freeze arg t = (case arg of None \<Rightarrow> (t, Refused usage_msg)
     | Some v \<Rightarrow>
        if v = [] then (t, Refused usage_msg)
        else if \<not> is_version v then (t, Refused (bad_version_msg v))
        else if existsSync (version_dir v) t then (t, Refused (exists_msg v))
        else (case mkdirSync (version_dir v) t of None \<Rightarrow> (t, Threw)
          | Some t1 \<Rightarrow>
             let t2 = copy_entries v t1 in
             (case mkdirSync sidebar_dir t2 of None \<Rightarrow> (t2, Threw)
              | Some t3 \<Rightarrow>
                 (case writeFileSync (sidebar_file v) sidebar_text t3 of None \<Rightarrow> (t3, Threw)
                  | Some t4 \<Rightarrow> (t4, Frozen (frozen_log v))))))"

section \<open>Paths\<close>

lemma strip_prefix_append [simp]: "strip_prefix p (p @ r) = Some r"
  by (induction p) auto

lemma strip_prefix_Some: "strip_prefix p q = Some r \<longleftrightarrow> q = p @ r"
  by (induction p q rule: strip_prefix.induct) auto

lemma strip_prefix_None: "strip_prefix p q = None \<longleftrightarrow> (\<forall>r. q \<noteq> p @ r)"
  using strip_prefix_Some [of p q] by (metis not_None_eq option.distinct(1))

lemma prefixes_of_mem: "q \<in> set (prefixes_of p) \<longleftrightarrow> q \<noteq> [] \<and> (\<exists>r. p = q @ r)"
proof (induction p arbitrary: q)
  case (Cons a p)
  show ?case by (cases q) (auto simp: Cons image_iff)
qed auto

text \<open>Every node lies in a directory.\<close>

definition fs_ok :: "fs \<Rightarrow> bool" where
  "fs_ok t = (\<forall>p a. t (p @ [a]) \<noteq> None \<longrightarrow> p = [] \<or> t p = Some Dir)"

lemma fs_ok_prefix: "fs_ok t \<Longrightarrow> t (p @ r) \<noteq> None \<Longrightarrow> p \<noteq> [] \<Longrightarrow> r \<noteq> [] \<Longrightarrow> t p = Some Dir"
proof (induction r rule: rev_induct)
  case (snoc a r)
  then have "p @ r = [] \<or> t (p @ r) = Some Dir" by (metis append.assoc fs_ok_def)
  with snoc show ?case by (cases "r = []") auto
qed simp

lemma fs_ok_absent: "fs_ok t \<Longrightarrow> t p = None \<Longrightarrow> p \<noteq> [] \<Longrightarrow> t (p @ r) = None"
  by (metis append_Nil2 fs_ok_prefix option.distinct(1))

section \<open>The copy\<close>

definition step_copy :: "string \<Rightarrow> string \<Rightarrow> fs \<Rightarrow> fs" where
  "step_copy v e t = (if existsSync [e] t then cpSync [e] (version_dir v @ [e]) t else t)"

lemma step_copy_apply:
  assumes "\<And>r. t (e # r) \<noteq> None \<Longrightarrow> t [e] \<noteq> None"
  shows "step_copy v e t p = (case strip_prefix (version_dir v @ [e]) p of
     Some r \<Rightarrow> (case t (e # r) of None \<Rightarrow> t p | Some n \<Rightarrow> Some n) | None \<Rightarrow> t p)"
proof (cases "t [e]")
  case None
  then have "t (e # r) = None" for r using assms [of r] by blast
  then show ?thesis by (simp add: step_copy_def existsSync_def None split: option.split)
qed (simp add: step_copy_def existsSync_def cpSync_def split: option.split)

lemma step_copy_source: "e' \<noteq> ''versions'' \<Longrightarrow> step_copy v e t (e' # r) = t (e' # r)"
  by (simp add: step_copy_def cpSync_def version_dir_def)

text \<open>All entries at once: the paths below the version directory that belong to an entry get its nodes.\<close>

lemma copy_all:
  assumes "distinct es" "''versions'' \<notin> set es" "\<And>e r. e \<in> set es \<Longrightarrow> t (e # r) \<noteq> None \<Longrightarrow> t [e] \<noteq> None"
  shows "fold (step_copy v) es t p = (case strip_prefix (version_dir v) p of
     Some (e # r) \<Rightarrow> if e \<in> set es \<and> t (e # r) \<noteq> None then t (e # r) else t p | _ \<Rightarrow> t p)"
  using assms
proof (induction es arbitrary: t)
  case Nil
  then show ?case by (simp split: option.split list.split)
next
  case (Cons e es)
  let ?t = "step_copy v e t"
  have src: "?t (e' # r) = t (e' # r)" if "e' \<in> set (e # es)" for e' r
    using Cons.prems(2) that by (intro step_copy_source) auto
  have IH: "fold (step_copy v) es ?t p = (case strip_prefix (version_dir v) p of
     Some (e # r) \<Rightarrow> if e \<in> set es \<and> ?t (e # r) \<noteq> None then ?t (e # r) else ?t p | _ \<Rightarrow> ?t p)"
    using Cons.prems src by (intro Cons.IH) auto
  have here: "?t p = (case strip_prefix (version_dir v @ [e]) p of
     Some r \<Rightarrow> (case t (e # r) of None \<Rightarrow> t p | Some n \<Rightarrow> Some n) | None \<Rightarrow> t p)"
    using Cons.prems(3) by (intro step_copy_apply) auto
  show ?case
  proof (cases "strip_prefix (version_dir v) p")
    case None
    then have "strip_prefix (version_dir v @ [e]) p = None" by (simp add: strip_prefix_None)
    with IH here None show ?thesis by simp
  next
    case (Some s)
    then have p: "p = version_dir v @ s" by (simp add: strip_prefix_Some)
    have tail: "strip_prefix (version_dir v @ [e]) p = (case s of [] \<Rightarrow> None | a # r \<Rightarrow> if a = e then Some r else None)"
      unfolding p by (cases s) (auto simp: version_dir_def)
    show ?thesis
      using IH here Some tail Cons.prems(1) src by (cases s) (auto split: option.splits)
  qed
qed

lemma content_entries_facts: "distinct content_entries" "''versions'' \<notin> set content_entries"
  by (simp_all add: content_entries_def)

lemma copy_entries_fold: "copy_entries v = fold (step_copy v) content_entries"
  unfolding copy_entries_def by (intro ext) (simp add: step_copy_def [abs_def])

section \<open>Properties\<close>

lemma freeze_Frozen:
  assumes "freeze (Some v) t = (t', Frozen lg)"
  shows "is_version v" "t (version_dir v) = None" "lg = frozen_log v"
    "\<exists>t1 t3. mkdirSync (version_dir v) t = Some t1 \<and> mkdirSync sidebar_dir (copy_entries v t1) = Some t3 \<and>
       t' = t3(sidebar_file v \<mapsto> File sidebar_text)"
  using assms by (auto simp: freeze_def existsSync_def Let_def writeFileSync_def split: if_splits option.splits)

lemma mkdirSync_apply:
  "mkdirSync p t = Some t' \<Longrightarrow> t' q = (if q \<noteq> [] \<and> (\<exists>r. p = q @ r) then Some Dir else t q)"
  by (auto simp: mkdirSync_def prefixes_of_mem split: if_splits)

lemma sidebar_dir_other: "q \<noteq> [] \<Longrightarrow> sidebar_dir = q @ r \<Longrightarrow> hd q = ''.vitepress''"
  by (cases q) (auto simp: sidebar_dir_def)

lemma copied:
  assumes "fs_ok t" "t (version_dir v) = None" "mkdirSync (version_dir v) t = Some t1"
  shows "copy_entries v t1 p = (case strip_prefix (version_dir v) p of
     Some (e # r) \<Rightarrow> if e \<in> set content_entries then t (e # r) else None | _ \<Rightarrow> t1 p)"
proof -
  note t1 = mkdirSync_apply [OF assms(3)]
  have src: "t1 (e # r) = t (e # r)" if "e \<in> set content_entries" for e r
    using that content_entries_facts(2) by (auto simp: t1 version_dir_def)
  have top: "t1 [e] \<noteq> None" if "e \<in> set content_entries" "t1 (e # r) \<noteq> None" for e r
    using that src fs_ok_absent [OF assms(1), of "[e]" r] by (cases "t [e]") auto
  have "copy_entries v t1 p = (case strip_prefix (version_dir v) p of
     Some (e # r) \<Rightarrow> if e \<in> set content_entries \<and> t1 (e # r) \<noteq> None then t1 (e # r) else t1 p | _ \<Rightarrow> t1 p)"
    unfolding copy_entries_fold by (rule copy_all [OF content_entries_facts]) (rule top)
  moreover have "t1 p = None" if "strip_prefix (version_dir v) p = Some (e # r)" for e r
    using that fs_ok_absent [OF assms(1,2), of "e # r"] by (auto simp: t1 strip_prefix_Some version_dir_def)
  ultimately show ?thesis using src by (auto split: option.splits list.splits)
qed

lemma snapshot:
  assumes "fs_ok t" and "freeze (Some v) t = (t', Frozen lg)"
  shows snapshot_paths: "t' (version_dir v @ e # r) = (if e \<in> set content_entries then t (e # r) else None)"
    and snapshot_sidebar: "t' (sidebar_file v) = Some (File sidebar_text)"
    and snapshot_frame: "strip_prefix (version_dir v) p = None \<Longrightarrow> p \<noteq> [''versions''] \<Longrightarrow>
      p \<notin> set (prefixes_of sidebar_dir) \<Longrightarrow> p \<noteq> sidebar_file v \<Longrightarrow> t' p = t p"
proof -
  obtain t1 t3 where t: "mkdirSync (version_dir v) t = Some t1" "mkdirSync sidebar_dir (copy_entries v t1) = Some t3"
    "t' = t3(sidebar_file v \<mapsto> File sidebar_text)"
    using freeze_Frozen(4) [OF assms(2)] by blast
  note cp = copied [OF assms(1) freeze_Frozen(2) [OF assms(2)] t(1)]
  show "t' (version_dir v @ e # r) = (if e \<in> set content_entries then t (e # r) else None)"
    using cp [of "version_dir v @ e # r"] mkdirSync_apply [OF t(2), of "version_dir v @ e # r"]
    by (auto simp: t(3) version_dir_def sidebar_file_def sidebar_dir_def)
  show "t' (sidebar_file v) = Some (File sidebar_text)" by (simp add: t(3))
  assume p: "strip_prefix (version_dir v) p = None" "p \<noteq> [''versions'']" "p \<notin> set (prefixes_of sidebar_dir)"
    "p \<noteq> sidebar_file v"
  have "\<not> (p \<noteq> [] \<and> (\<exists>r. sidebar_dir = p @ r))" using p(3) unfolding prefixes_of_mem .
  then have "t3 p = copy_entries v t1 p" using mkdirSync_apply [OF t(2), of p] by argo
  also have "\<dots> = t1 p" using p(1) cp [of p] by simp
  also have "\<dots> = t p"
    using mkdirSync_apply [OF t(1), of p] p(1,2) by (auto simp: version_dir_def Cons_eq_append_conv)
  finally show "t' p = t p" using p(4) by (simp add: t(3))
qed

text \<open>
  C4. A successful freeze is an exact snapshot that touches nothing else: below \<open>versions/<version>/\<close> the
  four content entries have, path by path, the nodes they have in the root, and there is nothing besides
  them; the sidebar file has the generated text; every other path is as before, except that the parent
  directories exist.
\<close>

theorem freeze_is_snapshot:
  assumes "fs_ok t" and "freeze (Some v) t = (t', Frozen lg)"
  shows "t' (version_dir v @ e # r) = (if e \<in> set content_entries then t (e # r) else None) \<and>
    t' (sidebar_file v) = Some (File sidebar_text) \<and>
    (strip_prefix (version_dir v) p = None \<and> p \<noteq> [''versions''] \<and> p \<notin> set (prefixes_of sidebar_dir) \<and> p \<noteq> sidebar_file v
       \<longrightarrow> t' p = t p)"
  using snapshot [OF assms] by blast

text \<open>A small site: the home page, one guide, the theme, and a version frozen before.\<close>

definition demo_site :: fs where
  "demo_site = map_of [([''index.md''], File ''# Dwara''), ([''guide''], Dir), ([''guide'', ''cli.md''], File ''# CLI''),
     ([''.vitepress''], Dir), ([''versions''], Dir), ([''versions'', ''0.9.0''], Dir),
     ([''versions'', ''0.9.0'', ''index.md''], File ''# Old'')]"

lemma demo_site_ok: "fs_ok demo_site"
proof -
  have "\<forall>q \<in> set [[''index.md''], [''guide''], [''guide'', ''cli.md''], [''.vitepress''], [''versions''],
     [''versions'', ''0.9.0''], [''versions'', ''0.9.0'', ''index.md'']]. butlast q = [] \<or> demo_site (butlast q) = Some Dir"
    by code_simp
  moreover have "demo_site q \<noteq> None \<Longrightarrow> q \<in> set [[''index.md''], [''guide''], [''guide'', ''cli.md''], [''.vitepress''], [''versions''],
     [''versions'', ''0.9.0''], [''versions'', ''0.9.0'', ''index.md'']]" for q
    by (simp add: demo_site_def split: if_splits)
  ultimately show ?thesis unfolding fs_ok_def by (metis butlast_snoc)
qed

lemma demo_site_freezes: "snd (freeze (Some ''1.2.0'') demo_site) = Frozen (frozen_log ''1.2.0'')"
  by code_simp

theorem freeze_is_snapshot_witness:
  "let t' = fst (freeze (Some ''1.2.0'') demo_site) in
     t' [''versions'', ''1.2.0'', ''guide'', ''cli.md''] = Some (File ''# CLI'') \<and>
     t' [''versions'', ''1.2.0'', ''.vitepress''] = None \<and> t' [''guide'', ''cli.md''] = Some (File ''# CLI'')"
proof -
  let ?t = "fst (freeze (Some ''1.2.0'') demo_site)"
  have f: "freeze (Some ''1.2.0'') demo_site = (?t, Frozen (frozen_log ''1.2.0''))"
    using demo_site_freezes by (metis prod.collapse)
  have d: "demo_site [''guide'', ''cli.md''] = Some (File ''# CLI'')" "version_dir ''1.2.0'' = [''versions'', ''1.2.0'']"
    "''guide'' \<in> set content_entries" "''.vitepress'' \<notin> set content_entries"
    "strip_prefix (version_dir ''1.2.0'') [''guide'', ''cli.md''] = None"
    "[''guide'', ''cli.md''] \<notin> set (prefixes_of sidebar_dir)" "[''guide'', ''cli.md''] \<noteq> sidebar_file ''1.2.0''" by code_simp+
  show ?thesis
    using freeze_is_snapshot [OF demo_site_ok f, of "''guide''" "[''cli.md'']" "[''guide'', ''cli.md'']"]
      freeze_is_snapshot [OF demo_site_ok f, of "''.vitepress''" "[]" "[]"] d by (simp add: Let_def)
qed

text \<open>
  C5. Frozen versions are never modified: a run that is refused (no version, no bare \<open>x.y.z\<close> version, or
  a version that is already there) leaves the file system as it is, and a run that freezes another
  version leaves every node below an existing \<open>versions/<version>/\<close> as it is.
\<close>

theorem frozen_version_permanent:
  assumes "fs_ok t" and "t (version_dir w @ r) = Some n" and "freeze arg t = (t', verdict)"
  shows "(\<forall>msg. verdict = Refused msg \<longrightarrow> t' = t) \<and>
    ((arg = Some w \<or> arg = None \<or> (\<exists>v. arg = Some v \<and> \<not> is_version v)) \<longrightarrow> (\<exists>msg. verdict = Refused msg)) \<and>
    (\<forall>lg. verdict = Frozen lg \<longrightarrow> t' (version_dir w @ r) = Some n)"
proof -
  have w: "t (version_dir w) \<noteq> None" using fs_ok_absent [OF assms(1), of "version_dir w" r] assms(2) by (auto simp: version_dir_def)
  have 1: "\<forall>msg. verdict = Refused msg \<longrightarrow> t' = t" "arg = Some w \<or> arg = None \<or> (\<exists>v. arg = Some v \<and> \<not> is_version v) \<longrightarrow> (\<exists>msg. verdict = Refused msg)"
    using assms(3) w by (auto simp: freeze_def existsSync_def Let_def split: if_splits option.splits)
  have "t' (version_dir w @ r) = Some n" if F: "verdict = Frozen lg" for lg
  proof -
    obtain v where v: "arg = Some v" using F assms(3) by (cases arg) (auto simp: freeze_def)
    with F assms(3) have fz: "freeze (Some v) t = (t', Frozen lg)" by simp
    have "v \<noteq> w" using freeze_Frozen(2) [OF fz] w by auto
    then have "strip_prefix (version_dir v) (version_dir w @ r) = None"
      by (simp add: version_dir_def)
    moreover have "version_dir w @ r \<noteq> [''versions'']" "version_dir w @ r \<noteq> sidebar_file v"
      "version_dir w @ r \<notin> set (prefixes_of sidebar_dir)"
      by (auto simp: version_dir_def sidebar_file_def sidebar_dir_def)
    ultimately show ?thesis using snapshot_frame [OF assms(1) fz, of "version_dir w @ r"] assms(2) by simp
  qed
  with 1 show ?thesis by blast
qed

theorem frozen_version_permanent_witness:
  "fst (freeze (Some ''1.2.0'') demo_site) [''versions'', ''0.9.0'', ''index.md''] = Some (File ''# Old'') \<and>
   fst (freeze (Some ''0.9.0'') demo_site) = demo_site"
proof -
  have n: "demo_site (version_dir ''0.9.0'' @ [''index.md'']) = Some (File ''# Old'')" by code_simp
  have "fst (freeze (Some ''1.2.0'') demo_site) (version_dir ''0.9.0'' @ [''index.md'']) = Some (File ''# Old'')"
    using frozen_version_permanent [OF demo_site_ok n, of "Some ''1.2.0''"] demo_site_freezes by (metis prod.collapse)
  moreover have "fst (freeze (Some ''0.9.0'') demo_site) = demo_site"
    using frozen_version_permanent [OF demo_site_ok n, of "Some ''0.9.0''"] by (metis prod.collapse)
  ultimately show ?thesis by (simp add: version_dir_def)
qed

section \<open>Success and the sidebar\<close>

lemma mkdirSync_ok: "(\<And>q r. p = q @ r \<Longrightarrow> q \<noteq> [] \<Longrightarrow> \<not> is_file (t q)) \<Longrightarrow> mkdirSync p t \<noteq> None"
  by (auto simp: mkdirSync_def list_ex_iff prefixes_of_mem)

lemma version_not_reserved: "is_version v \<Longrightarrow> v \<noteq> [] \<and> CHR ''/'' \<notin> set v"
proof -
  assume v: "is_version v"
  have parts: "set s \<subseteq> insert c (\<Union>p \<in> set (split_on c s). set p)" for c s
    by (induction c s rule: split_on.induct) (fastforce split: list.splits if_splits)+
  have "is_digit c" if "p \<in> set (split_on (CHR ''.'') v)" "c \<in> set p" for p c
    using v that by (auto simp: is_version_def Let_def list_all_iff)
  then have "c = CHR ''.'' \<or> is_digit c" if "c \<in> set v" for c using parts [of v "CHR ''.''"] that by blast
  then have "CHR ''/'' \<notin> set v" by (force simp: is_digit_def)
  moreover have "v \<noteq> []" using v by (auto simp: is_version_def)
  ultimately show ?thesis by simp
qed

text \<open>
  The release step succeeds when it should: for a version of three dot-separated digit groups that
  is not frozen yet, in a file system where the directories the script creates are not taken by files,
  the run freezes it; the version is a single path component, so the snapshot lands directly below
  \<open>versions/\<close>.
\<close>

theorem freeze_succeeds:
  assumes "is_version v" and "t (version_dir v) = None" and "\<not> is_file (t [''versions''])"
    and "\<not> is_file (t [''.vitepress''])" and "\<not> is_file (t [''.vitepress'', ''sidebars''])"
    and "\<not> is_file (t sidebar_dir)" and "t (sidebar_file v) \<noteq> Some Dir" and "fs_ok t"
  shows "snd (freeze (Some v) t) = Frozen (frozen_log v) \<and> CHR ''/'' \<notin> set v \<and>
    snd (freeze (Some v) (fst (freeze (Some v) t))) = Refused (exists_msg v)"
proof -
  have "mkdirSync (version_dir v) t \<noteq> None"
    by (rule mkdirSync_ok) (use assms(2,3) in \<open>auto simp: version_dir_def Cons_eq_append_conv\<close>)
  then obtain t1 where t1: "mkdirSync (version_dir v) t = Some t1" by blast
  have t2: "copy_entries v t1 p = t p" if "hd p = ''.vitepress''" "p \<noteq> []" for p
    using copied [OF assms(8,2) t1, of p] mkdirSync_apply [OF t1, of p] that
    by (cases p) (auto simp: version_dir_def split: option.splits list.splits)
  have "mkdirSync sidebar_dir (copy_entries v t1) \<noteq> None"
  proof (rule mkdirSync_ok)
    fix q r assume q: "sidebar_dir = q @ r" "q \<noteq> []"
    then have "q \<in> {[''.vitepress''], [''.vitepress'', ''sidebars''], sidebar_dir}"
      by (auto simp: sidebar_dir_def Cons_eq_append_conv)
    then show "\<not> is_file (copy_entries v t1 q)"
      using assms(4-6) t2 [of q] by (auto simp: sidebar_dir_def)
  qed
  then obtain t3 where t3: "mkdirSync sidebar_dir (copy_entries v t1) = Some t3" by blast
  have "t3 (sidebar_file v) = t (sidebar_file v)"
    using mkdirSync_apply [OF t3, of "sidebar_file v"] t2 [of "sidebar_file v"]
    by (auto simp: sidebar_file_def sidebar_dir_def)
  then have fz: "freeze (Some v) t = (t3(sidebar_file v \<mapsto> File sidebar_text), Frozen (frozen_log v))"
    using assms(1,2,7) t1 t3 version_not_reserved [OF assms(1)]
    by (simp add: freeze_def existsSync_def writeFileSync_def)
  have "t3 (version_dir v) = Some Dir"
    using mkdirSync_apply [OF t3, of "version_dir v"] copied [OF assms(8,2) t1, of "version_dir v"]
      mkdirSync_apply [OF t1, of "version_dir v"] strip_prefix_append [of "version_dir v" "[]"]
    by (auto simp: version_dir_def sidebar_dir_def)
  moreover have "version_dir v \<noteq> sidebar_file v" by (simp add: version_dir_def sidebar_file_def sidebar_dir_def)
  ultimately have "snd (freeze (Some v) (fst (freeze (Some v) t))) = Refused (exists_msg v)"
    using assms(1) version_not_reserved [OF assms(1)] by (simp add: fz) (simp add: freeze_def existsSync_def)
  then show ?thesis using version_not_reserved [OF assms(1)] by (simp add: fz)
qed

theorem freeze_succeeds_witness:
  "snd (freeze (Some ''1.2.0'') demo_site) = Frozen (frozen_log ''1.2.0'') \<and>
   snd (freeze (Some ''1.2.0'') (fst (freeze (Some ''1.2.0'') demo_site))) = Refused (exists_msg ''1.2.0'')"
proof -
  have "is_version ''1.2.0''" "demo_site (version_dir ''1.2.0'') = None" "\<not> is_file (demo_site [''versions''])"
    "\<not> is_file (demo_site [''.vitepress''])" "\<not> is_file (demo_site [''.vitepress'', ''sidebars''])"
    "\<not> is_file (demo_site sidebar_dir)" "demo_site (sidebar_file ''1.2.0'') \<noteq> Some Dir" by code_simp+
  with freeze_succeeds [of "''1.2.0''" demo_site] demo_site_ok show ?thesis by blast
qed

text \<open>The links of one section of a sidebar.\<close>

definition section_links :: "jv \<Rightarrow> string list" where
  "section_links g = (case g of JArr gs \<Rightarrow> concat (map (\<lambda>x. case js_get x ''items'' of
      Some (JArr is) \<Rightarrow> map (\<lambda>i. js_string (the (js_get i ''link''))) is | _ \<Rightarrow> []) gs) | _ \<Rightarrow> [])"

text \<open>
  The generated sidebar file is JSON that reads back as the sidebar of the script, and each of its
  links points into the section it is listed under, all of which are frozen with the version.
\<close>

theorem sidebar_readable_and_closed:
  "(\<exists>s. sidebar_text = s @ [CHR 0x0A] \<and> json_parse s = Some sidebar) \<and>
   (case sidebar of JObj kvs \<Rightarrow> list_all (\<lambda>(k, g). section_links g \<noteq> [] \<and> list_all (is_prefix k) (section_links g) \<and>
       list_ex (\<lambda>e. k = ''/'' @ e @ ''/'') content_entries) kvs | _ \<Rightarrow> False)"
proof -
  have "json_ok sidebar" by code_simp
  then obtain s where "json_pretty sidebar = Some s" "json_parse s = Some sidebar" using json_pretty_parse by blast
  then have "\<exists>s. sidebar_text = s @ [CHR 0x0A] \<and> json_parse s = Some sidebar"
    by (simp add: sidebar_text_def opt_text_def)
  moreover have "case sidebar of JObj kvs \<Rightarrow> list_all (\<lambda>(k, g). section_links g \<noteq> [] \<and> list_all (is_prefix k) (section_links g) \<and>
       list_ex (\<lambda>e. k = ''/'' @ e @ ''/'') content_entries) kvs | _ \<Rightarrow> False" by code_simp
  ultimately show ?thesis by blast
qed

end
