(* ===== verification/Studio_Doc.thy ===== *)
theory Studio_Doc
  imports Json "HOL-Library.Multiset"
begin

text \<open>
  The document of config studio (\<open>tools/config-studio/src/app.template.html\<close>): reading, writing and deleting at a
  path, list and map editing on top of them, and the copy in the browser's local storage. The document is a
  JSON value that the editors change in place; it has no shared parts, so an update is a new value.

  The script runs in strict mode: a write to a primitive throws. A write that leaves the JSON values (a named
  property on an array, an array with holes, the prototype of an object) is outside of the model and marked so.
\<close>

section \<open>Keys and results\<close>

datatype key = KName string | KIdx nat

fun key_str :: "key \<Rightarrow> string" where
  "key_str (KName s) = s"
| "key_str (KIdx i) = nat_str i"

datatype 'a res = Ok 'a | Throw | Outside

fun res_bind :: "'a res \<Rightarrow> ('a \<Rightarrow> 'b res) \<Rightarrow> 'b res" where
  "res_bind (Ok x) f = f x"
| "res_bind Throw f = Throw"
| "res_bind Outside f = Outside"

section \<open>Reading\<close>

text \<open>\<open>getPath(path)\<close> on the document.\<close>

fun getPath :: "key list \<Rightarrow> jv \<Rightarrow> jv" where
  "getPath [] v = v"
| "getPath (k # ks) v = (if nullish v then JUndef
     else case js_get v (key_str k) of None \<Rightarrow> JUndef | Some x \<Rightarrow> getPath ks x)"

section \<open>Writing\<close>

text \<open>\<open>v[k] = x\<close>.\<close>

definition arr_put :: "jv list \<Rightarrow> nat \<Rightarrow> jv \<Rightarrow> jv res" where
  "arr_put vs i x = (if i < length vs then Ok (JArr (vs[i := x]))
     else if i = length vs then Ok (JArr (vs @ [x])) else Outside)"

fun js_put :: "jv \<Rightarrow> key \<Rightarrow> jv \<Rightarrow> jv res" where
  "js_put (JObj kvs) k x = (if key_str k = ''__proto__'' then Outside else Ok (JObj (obj_set (key_str k) x kvs)))"
| "js_put (JArr vs) k x = (case k of KIdx i \<Rightarrow> arr_put vs i x
     | KName s \<Rightarrow> if is_index_key s then arr_put vs (nat_of_digits 0 s) x else Outside)"
| "js_put (JFun f) k x = Outside"
| "js_put v k x = Throw"

text \<open>\<open>typeof path[i + 1] === "number" ? [] : {}\<close>.\<close>

fun fresh_for :: "key \<Rightarrow> jv" where
  "fresh_for (KIdx i) = JArr []"
| "fresh_for (KName s) = JObj []"

definition is_fun :: "jv \<Rightarrow> bool" where
  "is_fun v = (js_typeof v = ''function'')"

fun set_at :: "key list \<Rightarrow> jv \<Rightarrow> jv \<Rightarrow> jv res" where
  "set_at [] x v = Ok x"
| "set_at [k] x v = js_put v k x"
| "set_at (k # k' # ks) x v = (case js_get v (key_str k) of None \<Rightarrow> Throw
     | Some y \<Rightarrow> if is_fun y then Outside
        else res_bind (set_at (k' # ks) x (if nullish y then fresh_for k' else y)) (js_put v k))"

section \<open>Deleting\<close>

text \<open>The last step of \<open>delPath\<close>: \<open>splice\<close> on a list, \<open>delete\<close> on anything else that is truthy.\<close>

fun del_last :: "jv \<Rightarrow> key \<Rightarrow> jv res" where
  "del_last (JArr vs) k = Ok (JArr (case k of KIdx i \<Rightarrow> take i vs @ drop (Suc i) vs | KName s \<Rightarrow> vs))"
| "del_last (JObj kvs) k = Ok (JObj (obj_del (key_str k) kvs))"
| "del_last (JStr s) k = (if s \<noteq> [] \<and> (key_str k = ''length'' \<or>
       is_index_key (key_str k) \<and> nat_of_digits 0 (key_str k) < js_length s) then Throw else Ok (JStr s))"
| "del_last (JFun f) k = Outside"
| "del_last v k = Ok v"

text \<open>
  \<open>delPath\<close> below the root; \<open>Ok None\<close> is its early return. What was changed below a key is written back there.
\<close>

fun del_at :: "key list \<Rightarrow> jv \<Rightarrow> jv option res" where
  "del_at [] v = Ok (Some (JObj []))"
| "del_at [k] v = res_bind (del_last v k) (\<lambda>v'. Ok (Some v'))"
| "del_at (k # k' # ks) v =
     (let y = (if truthy v then (case js_get v (key_str k) of None \<Rightarrow> JUndef | Some y \<Rightarrow> y) else v) in
      if nullish y then Ok None
      else if is_fun y then Outside
      else res_bind (del_at (k' # ks) y) (\<lambda>r. case r of None \<Rightarrow> Ok None
        | Some y' \<Rightarrow> if y' = y then Ok (Some v) else res_bind (js_put v k y') (\<lambda>v'. Ok (Some v'))))"

section \<open>The document and its stored copy\<close>

text \<open>\<open>saveDue\<close>: the timer of \<open>persist\<close> is running.\<close>

record studio =
  sdoc :: jv
  saveDue :: bool
  stored :: "string option"

definition persist :: "studio \<Rightarrow> studio" where
  "persist s = s\<lparr>saveDue := True\<rparr>"

text \<open>The timer's callback: \<open>localStorage.setItem(LS_KEY, JSON.stringify(doc))\<close>.\<close>

definition save_now :: "studio \<Rightarrow> studio" where
  "save_now s = s\<lparr>saveDue := False, stored := Some (js_string (opt_text (json_compact (sdoc s))))\<rparr>"

text \<open>Start-up: the stored text if there is one and it is JSON, otherwise the empty document.\<close>

definition load_doc :: "string option \<Rightarrow> jv" where
  "load_doc saved = (case saved of None \<Rightarrow> JObj []
     | Some t \<Rightarrow> if t = [] then JObj [] else (case json_parse t of None \<Rightarrow> JObj [] | Some d \<Rightarrow> d))"

definition setPath :: "key list \<Rightarrow> jv \<Rightarrow> studio \<Rightarrow> studio res" where
  "setPath path x s = (if path = [] then Ok (s\<lparr>sdoc := x\<rparr>)
     else res_bind (set_at path x (sdoc s)) (\<lambda>d. Ok (persist (s\<lparr>sdoc := d\<rparr>))))"

definition delPath :: "key list \<Rightarrow> studio \<Rightarrow> studio res" where
  "delPath path s = (if path = [] then Ok (s\<lparr>sdoc := JObj []\<rparr>)
     else res_bind (del_at path (sdoc s)) (\<lambda>r. case r of None \<Rightarrow> Ok s | Some d \<Rightarrow> Ok (persist (s\<lparr>sdoc := d\<rparr>))))"

text \<open>\<open>removeAt(path, i)\<close>: drop the element, and the list itself when nothing is left.\<close>

definition removeAt :: "key list \<Rightarrow> nat \<Rightarrow> studio \<Rightarrow> studio res" where
  "removeAt path i s = res_bind (delPath (path @ [KIdx i]) s) (\<lambda>s1.
     let rest = getPath path (sdoc s1) in
     if rest = JUndef then Ok s1
     else (case js_get rest ''length'' of None \<Rightarrow> Throw
       | Some n \<Rightarrow> if n = jint 0 then delPath path s1 else Ok s1))"

text \<open>\<open>moveItem(path, i, dir)\<close> for \<open>dir\<close> 1 or -1, on a list.\<close>

definition moveItem :: "key list \<Rightarrow> nat \<Rightarrow> int \<Rightarrow> studio \<Rightarrow> studio res" where
  "moveItem path i dir s = (let arr = getPath path (sdoc s); j = int i + dir in
     case arr of
       JArr vs \<Rightarrow>
         if j < 0 \<or> j \<ge> int (length vs) then Ok s
         else if i \<ge> length vs then Outside
         else res_bind (set_at path (JArr (vs[i := vs ! nat j, nat j := vs ! i])) (sdoc s))
                (\<lambda>d. Ok (persist (s\<lparr>sdoc := d\<rparr>)))
     | _ \<Rightarrow> if truthy arr then Outside else Ok s)"

section \<open>Map entries\<close>

text \<open>The name field of an entry of \<open>mapEditor\<close>: the entry is deleted and set again under the new name.\<close>

definition rename_entry :: "key list \<Rightarrow> string \<Rightarrow> string \<Rightarrow> studio \<Rightarrow> studio res" where
  "rename_entry path k k' s = (if k' = [] \<or> k' = k then Ok s
     else let v = getPath (path @ [KName k]) (sdoc s) in
       res_bind (delPath (path @ [KName k]) s) (setPath (path @ [KName k']) v))"

text \<open>The remove button of an entry: the map goes with its last entry.\<close>

definition remove_entry :: "key list \<Rightarrow> string \<Rightarrow> studio \<Rightarrow> studio res" where
  "remove_entry path k s = res_bind (delPath (path @ [KName k]) s) (\<lambda>s1.
     let m = getPath path (sdoc s1) in
     if m = JUndef then Ok s1
     else (case object_keys m of None \<Rightarrow> Throw | Some ks \<Rightarrow> if ks = [] then delPath path s1 else Ok s1))"

text \<open>The add button: refused for an empty name and for a name that is defined already.\<close>

definition add_entry :: "key list \<Rightarrow> string \<Rightarrow> jv \<Rightarrow> studio \<Rightarrow> studio res" where
  "add_entry path k dflt s = (let value = js_or (getPath path (sdoc s)) (JObj []) in
     if k = [] \<or> js_get value k \<noteq> Some JUndef then Ok s
     else setPath (path @ [KName k]) dflt s)"

section \<open>One step\<close>

text \<open>Keys the engine treats as array indices or plain names.\<close>

definition idx_ok :: "key \<Rightarrow> bool" where
  "idx_ok k = (case k of KIdx i \<Rightarrow> int i < 4294967295 | KName s \<Rightarrow> s \<noteq> ''__proto__'')"

definition plain :: "key \<Rightarrow> bool" where
  "plain k = (key_str k \<notin> set object_proto \<and> key_str k \<notin> set array_proto \<and> key_str k \<noteq> ''length'')"

fun is_cont :: "jv \<Rightarrow> bool" where
  "is_cont (JObj kvs) = True"
| "is_cont (JArr vs) = True"
| "is_cont v = False"

lemma is_index_nat_str [simp]: "is_index_key (nat_str i) \<longleftrightarrow> i < 4294967295"
  using nat_str_digits [of i] by (auto simp: is_index_key_def nat_of_digits_nat_str list_all_iff)

lemma not_index_length [simp]: "\<not> is_index_key ''length''"
  by (simp add: is_index_key_def is_digit_def)

lemma nat_str_not_length [simp]: "nat_str i \<noteq> ''length''" "''length'' \<noteq> nat_str i"
proof -
  have "\<not> is_digit (CHR ''l'')" by (simp add: is_digit_def)
  then show "nat_str i \<noteq> ''length''" using nat_str_digits [of i] by force
  then show "''length'' \<noteq> nat_str i" by simp
qed

lemma nat_str_not_proto [simp]: "nat_str i \<noteq> ''__proto__''"
proof -
  have "\<not> is_digit (CHR ''_'')" by (simp add: is_digit_def)
  then show ?thesis using nat_str_digits [of i] by force
qed

lemma index_nat_str: "is_index_key s \<Longrightarrow> nat_str (nat_of_digits 0 s) = s"
  by (simp add: is_index_key_def)

text \<open>Reading what was written, and what was not.\<close>

lemma arr_get_idx: "i < 4294967295 \<Longrightarrow> js_get (JArr vs) (nat_str i) = Some (if i < length vs then vs ! i else JUndef)"
  by (simp add: nat_of_digits_nat_str)

lemma arr_put_same:
  "arr_put vs i x = Ok v' \<Longrightarrow> i < 4294967295 \<Longrightarrow> js_get v' (nat_str i) = Some x"
  by (auto simp: arr_put_def nat_of_digits_nat_str split: if_splits)

lemma arr_put_other:
  "arr_put vs i x = Ok v' \<Longrightarrow> s \<noteq> nat_str i \<Longrightarrow> s \<noteq> ''length'' \<Longrightarrow> js_get v' s = js_get (JArr vs) s"
proof -
  assume a: "arr_put vs i x = Ok v'" and s: "s \<noteq> nat_str i" "s \<noteq> ''length''"
  have "nat_of_digits 0 s \<noteq> i" if "is_index_key s" using index_nat_str [OF that] s(1) by auto
  with a s(2) show ?thesis by (auto simp: arr_put_def nth_append nth_list_update split: if_splits)
qed

lemma js_put_same: "js_put v k x = Ok v' \<Longrightarrow> idx_ok k \<Longrightarrow> js_get v' (key_str k) = Some x"
proof (cases v)
  case (JArr vs)
  assume p: "js_put v k x = Ok v'" and k: "idx_ok k"
  show ?thesis
  proof (cases k)
    case (KIdx i)
    then show ?thesis using p k JArr arr_put_same [of vs i x v'] by (simp add: idx_ok_def del: js_get.simps)
  next
    case (KName s)
    then show ?thesis using p JArr arr_put_same [of vs "nat_of_digits 0 s" x v'] index_nat_str [of s]
      by (simp add: is_index_key_def del: js_get.simps split: if_splits)
  qed
qed (auto simp: map_of_obj_set split: if_splits)

lemma js_put_other:
  assumes "js_put v k x = Ok v'" "s \<noteq> key_str k" "s \<noteq> ''length''"
  shows "js_get v' s = js_get v s"
proof (cases v)
  case (JArr vs)
  show ?thesis
  proof (cases k)
    case (KIdx i)
    then show ?thesis using assms JArr arr_put_other [of vs i x v' s] by (simp del: js_get.simps)
  next
    case (KName t)
    then show ?thesis using assms JArr arr_put_other [of vs "nat_of_digits 0 t" x v' s] index_nat_str [of t]
      by (simp del: js_get.simps split: if_splits)
  qed
qed (use assms in \<open>auto simp: map_of_obj_set split: if_splits\<close>)

lemma js_put_cont: "js_put v k x = Ok v' \<Longrightarrow> is_cont v \<and> is_cont v'"
  by (cases v) (auto simp: arr_put_def split: if_splits key.splits)

lemma cont_facts: "is_cont v \<Longrightarrow> \<not> nullish v \<and> truthy v \<and> \<not> is_fun v"
  by (cases v) (auto simp: nullish_def is_fun_def)

lemma getPath_nullish: "nullish v \<Longrightarrow> ks \<noteq> [] \<Longrightarrow> getPath ks v = JUndef"
  by (cases ks) auto

lemma getPath_undef [simp]: "getPath ks JUndef = JUndef"
  by (cases ks) (auto simp: nullish_def)

lemma getPath_Cons: "js_get v (key_str k) = Some y \<Longrightarrow> getPath (k # ks) v = getPath ks y"
  using js_get_None [of v "key_str k"] by auto

text \<open>Nothing below a primitive is a container.\<close>

lemma prim_get: "\<not> is_cont v \<Longrightarrow> js_get v s = Some y \<Longrightarrow> \<not> is_cont y"
  by (cases v) (auto simp: proto_read_def split: if_splits)

lemma prim_path: "\<not> is_cont v \<Longrightarrow> \<not> is_cont (getPath ks v)"
proof (induction ks arbitrary: v)
  case (Cons k ks)
  then show ?case using prim_get [of v "key_str k"] by (auto split: option.splits)
qed simp

lemma getPath_append: "getPath (ks @ ls) v = getPath ls (getPath ks v)"
  by (induction ks arbitrary: v) (auto split: option.splits)

text \<open>A container on the way to a container can be written at that key.\<close>

lemma js_put_back:
  assumes "js_get v (key_str k) = Some y" "is_cont y" "idx_ok k"
  shows "\<exists>v'. js_put v k x = Ok v' \<and> js_get v' (key_str k) = Some x"
proof -
  have "is_cont v" using prim_get assms(1,2) by blast
  then have "\<exists>v'. js_put v k x = Ok v'"
    using assms by (cases v; cases k)
      (auto simp: idx_ok_def arr_put_def proto_read_def nat_of_digits_nat_str split: if_splits)
  then show ?thesis using js_put_same [OF _ assms(3)] by blast
qed

section \<open>Laws of the document\<close>

text \<open>Writing below a container that is there: only its entry changes.\<close>

lemma set_at_ok:
  assumes "getPath pre v = y" "is_cont y" "list_all idx_ok pre" "js_put y k x = Ok y'"
  shows "\<exists>v'. set_at (pre @ [k]) x v = Ok v' \<and> getPath pre v' = y'"
  using assms(1,3)
proof (induction pre arbitrary: v)
  case Nil
  then show ?case using assms(4) by simp
next
  case (Cons k0 pre)
  have nn: "\<not> nullish v" using Cons.prems(1) assms(2) by (auto simp: nullish_def)
  then obtain z where z: "js_get v (key_str k0) = Some z" using js_get_None [of v] by fastforce
  then have gz: "getPath pre z = y" using Cons.prems(1) getPath_Cons by metis
  then have cz: "is_cont z" using prim_path assms(2) by blast
  obtain z' where z': "set_at (pre @ [k]) x z = Ok z'" "getPath pre z' = y'"
    using Cons.IH [OF gz] Cons.prems(2) by auto
  obtain v' where v': "js_put v k0 z' = Ok v'" "js_get v' (key_str k0) = Some z'"
    using js_put_back [OF z cz] Cons.prems(2) by auto
  obtain k1 ks where p: "pre @ [k] = k1 # ks" by (cases pre) auto
  have "set_at ((k0 # pre) @ [k]) x v = Ok v'"
    using z z'(1) v'(1) cont_facts [OF cz] by (simp add: p)
  then show ?case using z'(2) getPath_Cons [OF v'(2)] by blast
qed

lemma del_at_ok:
  assumes "getPath pre v = y" "is_cont y" "list_all idx_ok pre" "del_last y k = Ok y'"
  shows "\<exists>v'. del_at (pre @ [k]) v = Ok (Some v') \<and> getPath pre v' = y'"
  using assms(1,3)
proof (induction pre arbitrary: v)
  case Nil
  then show ?case using assms(4) by simp
next
  case (Cons k0 pre)
  have nn: "\<not> nullish v" using Cons.prems(1) assms(2) by (auto simp: nullish_def)
  then obtain z where z: "js_get v (key_str k0) = Some z" using js_get_None [of v] by fastforce
  then have gz: "getPath pre z = y" using Cons.prems(1) getPath_Cons by metis
  then have cz: "is_cont z" using prim_path assms(2) by blast
  then have cv: "is_cont v" using prim_get z by blast
  obtain z' where z': "del_at (pre @ [k]) z = Ok (Some z')" "getPath pre z' = y'"
    using Cons.IH [OF gz] Cons.prems(2) by auto
  obtain v' where v': "js_put v k0 z' = Ok v'" "js_get v' (key_str k0) = Some z'"
    using js_put_back [OF z cz] Cons.prems(2) by auto
  obtain k1 ks where p: "pre @ [k] = k1 # ks" by (cases pre) auto
  have "del_at ((k0 # pre) @ [k]) v = Ok (Some (if z' = z then v else v'))"
    using z z'(1) v'(1) cont_facts [OF cz] cont_facts [OF cv] by (simp add: p Let_def)
  moreover have "getPath (k0 # pre) (if z' = z then v else v') = y'"
    using z'(2) getPath_Cons [OF v'(2)] getPath_Cons [OF z] by auto
  ultimately show ?case by blast
qed

text \<open>Any successful write can be read back, also when it created the containers on the way.\<close>

lemma set_at_same:
  assumes "set_at path x v = Ok v'" "list_all idx_ok path"
  shows "getPath path v' = x"
  using assms
proof (induction path x v arbitrary: v' rule: set_at.induct)
  case (2 k x v)
  then show ?case using getPath_Cons [OF js_put_same [of v k x v'], of "[]"] by simp
next
  case (3 k k' ks x v)
  obtain y where y: "js_get v (key_str k) = Some y" "\<not> is_fun y"
    using "3.prems"(1) by (auto split: option.splits if_splits)
  then obtain z where z: "set_at (k' # ks) x (if nullish y then fresh_for k' else y) = Ok z" "js_put v k z = Ok v'"
    using "3.prems"(1) by (cases "set_at (k' # ks) x (if nullish y then fresh_for k' else y)") auto
  have "getPath (k' # ks) z = x" using "3.IH" [OF y z(1)] "3.prems"(2) by simp
  moreover have "js_get v' (key_str k) = Some z" using js_put_same [OF z(2)] "3.prems"(2) by simp
  ultimately show ?case using getPath_Cons by metis
qed simp

text \<open>Two paths part at a key, and the first goes on with a plain name or an index.\<close>

definition parts_from :: "key list \<Rightarrow> key list \<Rightarrow> bool" where
  "parts_from q p = (\<exists>pre k1 r1 k2 r2. q = pre @ k1 # r1 \<and> p = pre @ k2 # r2 \<and> key_str k1 \<noteq> key_str k2 \<and> plain k1)"

lemma plain_fresh: "plain k \<Longrightarrow> js_get (fresh_for k') (key_str k) = Some JUndef"
  by (cases k') (auto simp: plain_def proto_read_def)

lemma set_at_other_aux:
  assumes "set_at (pre @ k2 # r2) x v = Ok v'" "key_str k1 \<noteq> key_str k2" "plain k1" "list_all idx_ok pre"
  shows "getPath (pre @ k1 # r1) v' = getPath (pre @ k1 # r1) v"
  using assms(1,4)
proof (induction pre arbitrary: v v')
  case Nil
  obtain z where z: "js_put v k2 z = Ok v'"
  proof (cases r2)
    case Nil
    then show ?thesis using Nil.prems(1) that by simp
  next
    case (Cons k' ks)
    then show ?thesis using Nil.prems(1) that
      by (cases "js_get v (key_str k2)"; cases "set_at (k' # ks) x (if nullish (the (js_get v (key_str k2))) then fresh_for k' else the (js_get v (key_str k2)))")
         (auto split: if_splits)
  qed
  have "js_get v' (key_str k1) = js_get v (key_str k1)"
    using js_put_other [OF z assms(2)] assms(3) by (simp add: plain_def)
  then show ?case using js_put_cont [OF z] cont_facts [of v] cont_facts [of v'] by simp
next
  case (Cons k pre)
  obtain k' ks where p: "pre @ k2 # r2 = k' # ks" by (cases pre) auto
  obtain y where y: "js_get v (key_str k) = Some y" "\<not> is_fun y"
    using Cons.prems(1) by (auto simp: p split: option.splits if_splits)
  let ?y = "if nullish y then fresh_for k' else y"
  obtain z where z: "set_at (pre @ k2 # r2) x ?y = Ok z" "js_put v k z = Ok v'"
    using Cons.prems(1) y by (cases "set_at (pre @ k2 # r2) x ?y") (auto simp: p)
  have IH: "getPath (pre @ k1 # r1) z = getPath (pre @ k1 # r1) ?y"
    using Cons.IH [OF z(1)] Cons.prems(2) by simp
  have "getPath (pre @ k1 # r1) (fresh_for k') = JUndef" if null: "nullish y"
  proof (cases pre)
    case Nil
    then show ?thesis using getPath_Cons [OF plain_fresh [OF assms(3)]] by simp
  next
    case (Cons k0 pre')
    then have k0: "k0 = k'" using p by simp
    obtain k'' ks' where "pre' @ k2 # r2 = k'' # ks'" by (cases pre') auto
    then obtain u where u: "js_get (fresh_for k') (key_str k') = Some u" "\<not> is_fun u"
      using z(1) null Cons k0 by (auto split: option.splits if_splits)
    then have "u = JUndef" by (cases k') (auto simp: proto_read_def is_fun_def nat_of_digits_nat_str split: if_splits)
    then show ?thesis using getPath_Cons [OF u(1)] Cons k0 by simp
  qed
  then have "getPath (pre @ k1 # r1) ?y = getPath (pre @ k1 # r1) y"
    using getPath_nullish [of y "pre @ k1 # r1"] by simp
  moreover have "js_get v' (key_str k) = Some z" using js_put_same [OF z(2)] Cons.prems(2) by simp
  ultimately show ?case using IH getPath_Cons [of v' k z] getPath_Cons [OF y(1)] by simp
qed

lemma set_at_other:
  "set_at p x v = Ok v' \<Longrightarrow> parts_from q p \<Longrightarrow> list_all idx_ok p \<Longrightarrow> getPath q v' = getPath q v"
  unfolding parts_from_def by (auto intro: set_at_other_aux)

text \<open>
  The contract the editors rely on: a store with paths. Two writes at different places are both
  visible afterwards, in either order.
\<close>

locale path_store =
  fixes get :: "'p \<Rightarrow> 'd \<Rightarrow> 'v" and put :: "'p \<Rightarrow> 'v \<Rightarrow> 'd \<Rightarrow> 'd res" and apart :: "'p \<Rightarrow> 'p \<Rightarrow> bool" and good :: "'p \<Rightarrow> bool"
  assumes get_put: "put p x d = Ok d' \<Longrightarrow> good p \<Longrightarrow> get p d' = x"
    and get_put_other: "put p x d = Ok d' \<Longrightarrow> apart q p \<Longrightarrow> good p \<Longrightarrow> get q d' = get q d"
begin

lemma both_visible:
  "put p x d = Ok d1 \<Longrightarrow> put q y d1 = Ok d2 \<Longrightarrow> apart p q \<Longrightarrow> good p \<Longrightarrow> good q \<Longrightarrow> get p d2 = x \<and> get q d2 = y"
  using get_put [of p x d d1] get_put_other [of q y d1 d2 p] get_put [of q y d1 d2] by simp

lemma overwrite: "put p x d = Ok d1 \<Longrightarrow> put p y d1 = Ok d2 \<Longrightarrow> good p \<Longrightarrow> get p d2 = y"
  by (rule get_put)

end

interpretation doc: path_store getPath set_at parts_from "list_all idx_ok"
  by unfold_locales (auto intro: set_at_same set_at_other)

section \<open>Properties of the editors\<close>

text \<open>
  C38. Writing a field of the document changes that field and nothing beside it: after \<open>setPath\<close> the value is
  read back at its path, every path that parts from it reads as before (whether the containers on the
  way existed or were created), and the save timer is running.
\<close>

theorem setPath_local:
  assumes "setPath path x s = Ok s'" and "list_all idx_ok path" and "path \<noteq> []"
  shows "getPath path (sdoc s') = x \<and> (\<forall>q. parts_from q path \<longrightarrow> getPath q (sdoc s') = getPath q (sdoc s)) \<and> saveDue s'"
proof -
  obtain d where d: "set_at path x (sdoc s) = Ok d" "s' = persist (s\<lparr>sdoc := d\<rparr>)"
    using assms(1,3) by (cases "set_at path x (sdoc s)") (auto simp: setPath_def)
  then show ?thesis using doc.get_put [OF d(1) assms(2)] doc.get_put_other [OF d(1) _ assms(2)] by (simp add: persist_def)
qed

definition demo_doc :: jv where
  "demo_doc = JObj [(''routes'', JArr [JObj [(''name'', JStr ''a'')], JObj [(''name'', JStr ''b'')]]),
     (''labels'', JObj [(''x'', jint 1), (''y'', jint 2)])]"

definition demo_studio :: studio where
  "demo_studio = \<lparr>sdoc = demo_doc, saveDue = False, stored = None\<rparr>"

theorem setPath_local_witness:
  "\<exists>s'. setPath [KName ''routes'', KIdx 1, KName ''service''] (JStr ''web'') demo_studio = Ok s' \<and>
     getPath [KName ''routes'', KIdx 1, KName ''service''] (sdoc s') = JStr ''web'' \<and>
     getPath [KName ''routes'', KIdx 1, KName ''name''] (sdoc s') = getPath [KName ''routes'', KIdx 1, KName ''name''] demo_doc"
proof -
  let ?p = "[KName ''routes'', KIdx 1, KName ''service'']" and ?q = "[KName ''routes'', KIdx 1, KName ''name'']"
  have ok: "list_all idx_ok ?p" and pl: "plain (KName ''name'')" by code_simp+
  have "case setPath ?p (JStr ''web'') demo_studio of Ok s' \<Rightarrow> True | _ \<Rightarrow> False" by code_simp
  then obtain s' where s': "setPath ?p (JStr ''web'') demo_studio = Ok s'" by (auto split: res.splits)
  have "parts_from ?q ?p"
    unfolding parts_from_def using pl
    by (intro exI [of _ "[KName ''routes'', KIdx 1]"] exI [of _ "KName ''name''"] exI [of _ "[]"]
        exI [of _ "KName ''service''"] conjI) simp_all
  then have "getPath ?p (sdoc s') = JStr ''web'' \<and> getPath ?q (sdoc s') = getPath ?q (sdoc demo_studio)"
    using setPath_local [OF s' ok] by blast
  moreover have "sdoc demo_studio = demo_doc" by (simp add: demo_studio_def)
  ultimately show ?thesis using s' by metis
qed

lemma delPath_ok:
  assumes "getPath pre (sdoc s) = y" "is_cont y" "list_all idx_ok pre" "del_last y k = Ok y'"
  shows "\<exists>s'. delPath (pre @ [k]) s = Ok s' \<and> getPath pre (sdoc s') = y'"
  using del_at_ok [OF assms] by (auto simp: delPath_def persist_def)

lemma removeAt_unfold:
  assumes "delPath (p @ [KIdx i]) s = Ok s1" "getPath p (sdoc s1) = JArr ws"
  shows "removeAt p i s = (if ws = [] then delPath p s1 else Ok s1)"
  using assms by (simp add: removeAt_def)

text \<open>
  Removing an entry of a list keeps the others in order and never leaves an empty list behind: when a
  member of an object holds a list and \<open>i\<close> is one of its positions, \<open>removeAt\<close> yields the list without that
  position, or, when it was the only element, an object without the member.
\<close>

theorem removeAt_minimal:
  assumes "getPath pre (sdoc s) = JObj kvs" and "map_of kvs k = Some (JArr vs)" and "i < length vs"
    and "list_all idx_ok pre" and "idx_ok (KName k)" and "plain (KName k)" and "\<not> is_index_key k"
  shows "\<exists>s'. removeAt (pre @ [KName k]) i s = Ok s' \<and>
    getPath (pre @ [KName k]) (sdoc s') = (if length vs = 1 then JUndef else JArr (take i vs @ drop (Suc i) vs))"
proof -
  let ?p = "pre @ [KName k]" and ?vs = "take i vs @ drop (Suc i) vs"
  have g: "getPath ?p (sdoc s) = JArr vs" using assms(1,2) by (simp add: getPath_append nullish_def)
  obtain s1 where s1: "delPath (?p @ [KIdx i]) s = Ok s1" "getPath ?p (sdoc s1) = JArr ?vs"
    using delPath_ok [OF g, of "KIdx i" "JArr ?vs"] assms(4,5) by auto
  have len: "(?vs = []) = (length vs = 1)" using assms(3) by (cases vs) auto
  note rm = removeAt_unfold [OF s1]
  show ?thesis
  proof (cases "length vs = 1")
    case False
    then have "removeAt ?p i s = Ok s1" unfolding rm len by simp
    with s1(2) False show ?thesis by auto
  next
    case True
    have m: "getPath [KName k] (getPath pre (sdoc s1)) = JArr ?vs" using s1(2) by (simp add: getPath_append)
    then have "is_cont (getPath pre (sdoc s1))"
      using prim_path [of "getPath pre (sdoc s1)" "[KName k]"] by auto
    with m obtain kvs' where kvs': "getPath pre (sdoc s1) = JObj kvs'"
      using assms(6,7) by (cases "getPath pre (sdoc s1)") (auto simp: nullish_def plain_def proto_read_def)
    then obtain s2 where s2: "delPath ?p s1 = Ok s2" "getPath pre (sdoc s2) = JObj (obj_del k kvs')"
      using delPath_ok [of pre s1 "JObj kvs'" "KName k"] assms(4) by auto
    have "getPath ?p (sdoc s2) = JUndef"
      using s2(2) assms(6) by (simp add: getPath_append nullish_def map_of_obj_del plain_def proto_read_def)
    then show ?thesis unfolding rm len using s2(1) True by auto
  qed
qed
theorem removeAt_minimal_witness:
  "\<exists>s'. removeAt [KName ''routes''] 0 demo_studio = Ok s' \<and> getPath [KName ''routes''] (sdoc s') = JArr [JObj [(''name'', JStr ''b'')]]"
proof -
  have 1: "getPath [] (sdoc demo_studio) = JObj [(''routes'', JArr [JObj [(''name'', JStr ''a'')], JObj [(''name'', JStr ''b'')]]),
     (''labels'', JObj [(''x'', jint 1), (''y'', jint 2)])]"
    by (simp add: demo_studio_def demo_doc_def)
  have 2: "map_of [(''routes'', JArr [JObj [(''name'', JStr ''a'')], JObj [(''name'', JStr ''b'')]]),
     (''labels'', JObj [(''x'', jint 1), (''y'', jint 2)])] ''routes'' = Some (JArr [JObj [(''name'', JStr ''a'')], JObj [(''name'', JStr ''b'')]])"
    by simp
  have 3: "list_all idx_ok []" "idx_ok (KName ''routes'')" "plain (KName ''routes'')" "\<not> is_index_key ''routes''" by code_simp+
  show ?thesis using removeAt_minimal [OF 1 2 _ 3, of 0] by simp
qed

section \<open>Further laws of the editors\<close>

text \<open>Moving an element up and down again: the list has the same elements, and is the old one after both moves.\<close>

lemma swap_multiset: "i < length vs \<Longrightarrow> j < length vs \<Longrightarrow> mset (vs[i := vs ! j, j := vs ! i]) = mset vs"
  by (rule mset_swap)

lemma swap_back: "i < length vs \<Longrightarrow> j < length vs \<Longrightarrow>
    (let ws = vs[i := vs ! j, j := vs ! i] in ws[j := ws ! i, i := ws ! j]) = vs"
  by (rule nth_equalityI) (auto simp: Let_def nth_list_update)

lemma moveItem_list:
  assumes "getPath p (sdoc s) = JArr vs" "i < length vs" "0 \<le> int i + dir" "int i + dir < int (length vs)" "moveItem p i dir s = Ok s'"
    "list_all idx_ok p"
  shows "getPath p (sdoc s') = JArr (vs[i := vs ! nat (int i + dir), nat (int i + dir) := vs ! i])"
proof -
  obtain d where "set_at p (JArr (vs[i := vs ! nat (int i + dir), nat (int i + dir) := vs ! i])) (sdoc s) = Ok d" "sdoc s' = d"
    using assms by (cases "set_at p (JArr (vs[i := vs ! nat (int i + dir), nat (int i + dir) := vs ! i])) (sdoc s)")
      (auto simp: moveItem_def Let_def persist_def)
  then show ?thesis using doc.get_put assms(6) by simp
qed

text \<open>The stored copy reads back as the document.\<close>

lemma reload_saved: "json_ok (sdoc s) \<Longrightarrow> load_doc (stored (save_now s)) = sdoc s"
proof -
  assume "json_ok (sdoc s)"
  then obtain t where t: "json_compact (sdoc s) = Some t" "json_parse t = Some (sdoc s)" using json_compact_parse by blast
  have "json_parse [] = None" by code_simp
  then have "t \<noteq> []" using t(2) by auto
  then show ?thesis using t by (simp add: load_doc_def save_now_def opt_text_def)
qed

text \<open>An entry whose name every object inherits cannot be added: the button does nothing.\<close>

lemma inherited_name_refused:
  "getPath p (sdoc s) = JObj kvs \<Longrightarrow> map_of kvs k = None \<Longrightarrow> k \<in> set object_proto \<Longrightarrow> add_entry p k d s = Ok s"
  by (simp add: add_entry_def proto_read_def)

end
