(* ===== verification/Js_Numbers.thy ===== *)
theory Js_Numbers
  imports Json
begin

text \<open>
  Numbers as text, beyond JSON: \<open>parseFloat\<close>, addition, and the round trips of \<open>Number::toString\<close> and \<open>toFixed(2)\<close>
  with \<open>Number(...)\<close> and \<open>parseFloat\<close> for numbers with a finite decimal expansion.
\<close>

section \<open>Reading a prefix\<close>

text \<open>\<open>\\s\<close> of a regular expression and the blanks of \<open>trim\<close>, without the blanks outside of ASCII.\<close>

definition is_space :: "char \<Rightarrow> bool" where
  "is_space c = (let b = of_char c :: nat in b = 32 \<or> 9 \<le> b \<and> b \<le> 13)"

definition js_trim :: "string \<Rightarrow> string" where
  "js_trim s = rev (dropWhile is_space (rev (dropWhile is_space s)))"

text \<open>The unsigned decimal literal at the start of a text: digits, decimals and exponent, \<open>None\<close> when there is none.\<close>

definition dec_prefix :: "string \<Rightarrow> rat option" where
  "dec_prefix r = (case p_digits r of (ds, r1) \<Rightarrow>
     case (if r1 \<noteq> [] \<and> hd r1 = CHR ''.'' then p_digits (tl r1) else ([], r1)) of (fs, r2) \<Rightarrow>
     if ds = [] \<and> fs = [] then None
     else let e = (case p_exp r2 of None \<Rightarrow> 0 | Some (e, _) \<Rightarrow> e)
          in Some (of_nat (nat_of_digits 0 (ds @ fs)) * pow10 (e - int (length fs))))"

definition parseFloat :: "string \<Rightarrow> jnum" where
  "parseFloat s0 =
     (let s = dropWhile is_space s0;
          neg = (s \<noteq> [] \<and> hd s = CHR ''-'');
          r = (if s \<noteq> [] \<and> (hd s = CHR ''-'' \<or> hd s = CHR ''+'') then tl s else s)
      in if is_prefix ''Infinity'' r then (if neg then NInf else PInf)
         else case dec_prefix r of None \<Rightarrow> NaN | Some m \<Rightarrow> Fin (if neg then - m else m))"

fun num_add :: "jnum \<Rightarrow> jnum \<Rightarrow> jnum" where
  "num_add (Fin a) (Fin b) = Fin (a + b)"
| "num_add NaN b = NaN"
| "num_add a NaN = NaN"
| "num_add PInf NInf = NaN"
| "num_add NInf PInf = NaN"
| "num_add PInf b = PInf"
| "num_add NInf b = NInf"
| "num_add (Fin a) b = b"

fun num_less :: "jnum \<Rightarrow> jnum \<Rightarrow> bool" where
  "num_less (Fin a) (Fin b) = (a < b)"
| "num_less (Fin a) PInf = True"
| "num_less NInf (Fin b) = True"
| "num_less NInf PInf = True"
| "num_less _ _ = False"

section \<open>Decimal texts\<close>

definition exp_text :: "string \<Rightarrow> int \<Rightarrow> bool" where
  "exp_text x e = (x = [] \<and> e = 0 \<or> (\<exists>m. x = ''e-'' @ nat_str m \<and> e = - int m)
     \<or> (\<exists>m. x = ''e+'' @ nat_str m \<and> e = int m))"

definition dec_text :: "string \<Rightarrow> rat \<Rightarrow> bool" where
  "dec_text t v = (\<exists>ds fs x e. ds \<noteq> [] \<and> list_all is_digit ds \<and> list_all is_digit fs \<and> exp_text x e
     \<and> (t = ds @ ''.'' @ fs @ x \<or> fs = [] \<and> t = ds @ x)
     \<and> v = of_nat (nat_of_digits 0 (ds @ fs)) * pow10 (e - int (length fs)))"

lemma special_not_digit [simp]:
  "\<not> is_digit (CHR ''.'')" "\<not> is_digit (CHR ''e'')" "\<not> is_digit (CHR ''-'')" "\<not> is_digit (CHR ''+'')"
  "\<not> is_digit (CHR ''I'')" "\<not> is_digit (CHR '' '')"
  by code_simp+

lemma p_digits_nat_str: "p_digits (nat_str n) = (nat_str n, [])"
  using nat_str_digits [of n] by (simp add: p_digits_def takeWhile_eq_all_conv dropWhile_eq_Nil_conv)

lemma p_exp_text: "exp_text x e \<Longrightarrow> p_exp x = Some (e, [])"
  by (auto simp: exp_text_def p_exp_def p_digits_nat_str nat_of_digits_nat_str Let_def)

lemma exp_text_hd: "exp_text x e \<Longrightarrow> x \<noteq> [] \<Longrightarrow> hd x = CHR ''e''"
  by (auto simp: exp_text_def)

lemma p_digits_stop: "list_all is_digit ds \<Longrightarrow> r = [] \<or> \<not> is_digit (hd r) \<Longrightarrow> p_digits (ds @ r) = (ds, r)"
  by (cases r) (auto simp: p_digits_def list_all_iff takeWhile_append2 dropWhile_append2 takeWhile_eq_all_conv dropWhile_eq_Nil_conv)

text \<open>How both readers take a decimal text apart.\<close>

lemma dec_text_parts:
  assumes "dec_text t v"
  obtains ds r1 fs x e where "p_digits t = (ds, r1)" "ds \<noteq> []"
    "(if r1 \<noteq> [] \<and> hd r1 = CHR ''.'' then p_digits (tl r1) else ([], r1)) = (fs, x)" "p_exp x = Some (e, [])"
    "v = of_nat (nat_of_digits 0 (ds @ fs)) * pow10 (e - int (length fs))"
proof -
  obtain ds fs x e where a: "ds \<noteq> []" "list_all is_digit ds" "list_all is_digit fs" "exp_text x e"
    "t = ds @ ''.'' @ fs @ x \<or> fs = [] \<and> t = ds @ x"
    "v = of_nat (nat_of_digits 0 (ds @ fs)) * pow10 (e - int (length fs))"
    using assms unfolding dec_text_def by blast
  have x: "x = [] \<or> \<not> is_digit (hd x)" using exp_text_hd [OF a(4)] by auto
  have "\<not> (x \<noteq> [] \<and> hd x = CHR ''.'')" using exp_text_hd [OF a(4)] by auto
  then have "(if x \<noteq> [] \<and> hd x = CHR ''.'' then p_digits (tl x) else ([], x)) = ([], x)" by (rule if_not_P)
  with a(5) show ?thesis
    using that [of ds "''.'' @ fs @ x" fs x e] that [of ds x "[]" x e] a p_exp_text [OF a(4)]
      p_digits_stop [OF a(2), of "''.'' @ fs @ x"] p_digits_stop [OF a(2) x] p_digits_stop [OF a(3) x]
    by auto
qed

definition num_char :: "char \<Rightarrow> bool" where
  "num_char c = (is_digit c \<or> c \<in> set ''.e+-'')"

lemma dec_text_chars: "dec_text t v \<Longrightarrow> list_all num_char t"
  unfolding dec_text_def exp_text_def list_all_iff using nat_str_digits by (fastforce simp: num_char_def)

lemma dec_text_hd: "dec_text t v \<Longrightarrow> t \<noteq> [] \<and> is_digit (hd t)"
  unfolding dec_text_def by (auto simp: list_all_iff neq_Nil_conv)

lemma num_char_not_blank: "num_char c \<Longrightarrow> \<not> is_ws c \<and> \<not> is_space c"
  by (auto simp: num_char_def is_ws_def is_space_def is_digit_def Let_def)

lemma skip_ws_num: "list_all num_char t \<Longrightarrow> skip_ws t = t"
  using num_char_not_blank by (cases t) (auto simp: skip_ws_def)

lemma drop_space_num: "list_all num_char t \<Longrightarrow> dropWhile is_space t = t"
  using num_char_not_blank by (cases t) auto

text \<open>A decimal text is not a literal with a radix.\<close>

lemma num_not_radix:
  assumes "list_all num_char t" "\<not> num_char c"
  shows "\<not> is_prefix [d, c] t"
  using assms by (auto simp: is_prefix_iff)

lemma not_num_chars: "\<not> num_char (CHR ''x'')" "\<not> num_char (CHR ''X'')" "\<not> num_char (CHR ''o'')"
  "\<not> num_char (CHR ''O'')" "\<not> num_char (CHR ''b'')" "\<not> num_char (CHR ''B'')" "\<not> num_char (CHR ''I'')"
  by code_simp+

lemma str_to_num_sign:
  assumes "dec_text t v" "sg = [] \<or> sg = ''-''"
  shows "str_to_num (sg @ t) = Fin (if sg = [] then v else - v)"
proof -
  have c: "list_all num_char (sg @ t)" using dec_text_chars [OF assms(1)] assms(2) by (auto simp: num_char_def)
  have tr: "rev (skip_ws (rev (skip_ws (sg @ t)))) = sg @ t"
    using skip_ws_num [OF c] skip_ws_num [of "rev (sg @ t)"] c by simp
  have h: "t \<noteq> []" "hd t \<noteq> CHR ''-''" "hd t \<noteq> CHR ''+''" "hd t \<noteq> CHR ''I''" "t \<noteq> ''Infinity''"
    using dec_text_hd [OF assms(1)] by auto
  show ?thesis
    using dec_text_parts [OF assms(1)]
  proof cases
    case (1 ds r1 fs x e)
    have np: "\<not> is_prefix [d, c'] (sg @ t)" if "\<not> num_char c'" for d c' using num_not_radix [OF c that] .
    show ?thesis unfolding str_to_num_def Let_def tr using h assms(2) 1
      by (auto simp: np not_num_chars)
  qed
qed

lemma parseFloat_sign:
  assumes "dec_text t v" "sg = [] \<or> sg = ''-''"
  shows "parseFloat (sg @ t) = Fin (if sg = [] then v else - v)"
proof -
  have c: "list_all num_char (sg @ t)" using dec_text_chars [OF assms(1)] assms(2) by (auto simp: num_char_def)
  note sp = drop_space_num [OF c]
  have h: "t \<noteq> []" "hd t \<noteq> CHR ''-''" "hd t \<noteq> CHR ''+''" "hd t \<noteq> CHR ''I''"
    using dec_text_hd [OF assms(1)] by auto
  then have inf: "\<not> is_prefix ''Infinity'' t" by (cases t) auto
  show ?thesis
    using dec_text_parts [OF assms(1)]
  proof cases
    case (1 ds r1 fs x e)
    then have "dec_prefix t = Some v" by (simp add: dec_prefix_def)
    with assms(2) h inf show ?thesis unfolding parseFloat_def Let_def sp by auto
  qed
qed
section \<open>Printing is a decimal text of the number\<close>

text \<open>A number with at most 400 decimals.\<close>

definition decimal :: "rat \<Rightarrow> bool" where
  "decimal r = (snd (quotient_of r) dvd 10 ^ 400)"

lemma pow10_powi: "pow10 e = 10 powi e"
  by (simp add: pow10_def power_int_def power_one_over)

lemma pow10_add: "pow10 (a + b) = pow10 a * pow10 b"
  by (simp add: pow10_powi power_int_add)

lemma pow10_nat: "pow10 (int n) = 10 ^ n"
  by (simp add: pow10_def)

lemma find_scale_dvd: "d dvd 10 ^ (j + fuel) \<Longrightarrow> d dvd 10 ^ find_scale fuel j d"
  by (induction fuel arbitrary: j) auto

lemma find_scale_le: "find_scale fuel j d \<le> j + fuel"
proof (induction fuel arbitrary: j)
  case (Suc fuel)
  show ?case using Suc [of "Suc j"] by simp
qed simp

lemma scale_dvd_iff: "d dvd 10 ^ n \<longleftrightarrow> d dvd 10 ^ find_scale n 0 d" for d :: int
proof
  show "d dvd 10 ^ find_scale n 0 d" if "d dvd 10 ^ n" using find_scale_dvd [of d 0 n] that by simp
  have "(10 :: int) ^ find_scale n 0 d dvd 10 ^ n" using find_scale_le [of n 0 d] by (intro le_imp_power_dvd) simp
  then show "d dvd 10 ^ n" if "d dvd 10 ^ find_scale n 0 d" using that by (rule dvd_trans [rotated])
qed

lemma decimal_code [code]: "decimal r = (let d = snd (quotient_of r) in d dvd 10 ^ find_scale 400 0 d)"
  unfolding decimal_def Let_def by (rule scale_dvd_iff)

lemma strip_zeros_value:
  "strip_zeros s j = (s', j') \<Longrightarrow> 0 < s \<Longrightarrow> 0 < s' \<and> (of_int s * pow10 (- j) :: rat) = of_int s' * pow10 (- j')"
proof (induction s j arbitrary: s' j' rule: strip_zeros.induct)
  case (1 s j)
  show ?case
  proof (cases "s mod 10 = 0")
    case True
    then have st: "strip_zeros (s div 10) (j - 1) = (s', j')" using "1.prems" by (subst (asm) strip_zeros.simps) simp
    have s: "s = s div 10 * 10" "0 < s div 10" using True "1.prems"(2) by auto
    have "pow10 (- (j - 1)) = pow10 (- j) * 10" using pow10_add [of "- j" 1] pow10_nat [of 1] by (simp add: algebra_simps)
    moreover have "(of_int s :: rat) = of_int (s div 10) * 10"
      using arg_cong [OF s(1), of "of_int :: int \<Rightarrow> rat"] by simp
    ultimately show ?thesis using "1.IH" [OF _ st s(2)] True "1.prems"(2) by simp
  next
    case False
    then show ?thesis using "1.prems" by (subst (asm) strip_zeros.simps) simp
  qed
qed

lemma dec_scale_value:
  assumes "decimal q" "0 < q" "dec_scale q = (s, j)"
  shows "0 < s \<and> q = of_int s * pow10 (- j)"
proof -
  obtain p d where pd: "quotient_of q = (p, d)" by fastforce
  define i where "i = find_scale 400 0 d"
  have d: "0 < d" and q: "q = of_int p / of_int d" using quotient_of_denom_pos [OF pd] quotient_of_div [OF pd] by auto
  then have p: "0 < p" using assms(2) by (simp add: zero_less_divide_iff)
  have dvd: "d dvd 10 ^ i" using find_scale_dvd [of d 0 400] assms(1) pd by (simp add: decimal_def i_def)
  then obtain c where c: "10 ^ i = d * c" by blast
  have c0: "0 < c" using c d zero_less_mult_pos [of d c] by (metis zero_less_numeral zero_less_power)
  have div: "p * 10 ^ i div d = p * c" using c d by (simp add: mult.left_commute [of p])
  have st: "strip_zeros (p * c) (int i) = (s, j)" using assms(3) pd by (simp add: dec_scale_def Let_def i_def [symmetric] div)
  have "(10 :: rat) ^ i = of_int d * of_int c" using arg_cong [OF c, of "of_int :: int \<Rightarrow> rat"] by simp
  then have "q = of_int (p * c) * pow10 (- int i)"
    using d c0 q by (simp add: pow10_powi power_int_minus field_simps)
  with strip_zeros_value [OF st] p c0 show ?thesis by simp
qed

lemma nat_of_digits_shift: "nat_of_digits a t = a * 10 ^ length t + nat_of_digits 0 t"
proof (induction t arbitrary: a)
  case (Cons c t)
  show ?case using Cons [of "10 * a + digit_val c"] Cons [of "digit_val c"] by (simp add: nat_of_digits_def algebra_simps)
qed (simp add: nat_of_digits_def)

lemma nat_of_digits_zeros [simp]: "nat_of_digits 0 (replicate n (CHR ''0'') @ t) = nat_of_digits 0 t"
  "nat_of_digits 0 (CHR ''0'' # t) = nat_of_digits 0 t"
proof -
  show z: "nat_of_digits 0 (CHR ''0'' # t) = nat_of_digits 0 t" for t
    by (simp add: nat_of_digits_def digit_val_def)
  show "nat_of_digits 0 (replicate n (CHR ''0'') @ t) = nat_of_digits 0 t" by (induction n) (auto simp: z)
qed

lemma nat_of_digits_app_zeros: "nat_of_digits 0 (t @ replicate n (CHR ''0'')) = nat_of_digits 0 t * 10 ^ n"
  using nat_of_digits_shift [of "nat_of_digits 0 t" "replicate n (CHR ''0'')"] nat_of_digits_zeros(1) [of n "[]"]
  by (simp add: nat_of_digits_append) (simp add: nat_of_digits_def)

lemma digit_zero [simp]: "is_digit (CHR ''0'')"
  by code_simp

lemma dec_textI:
  "ds \<noteq> [] \<Longrightarrow> list_all is_digit (ds @ fs) \<Longrightarrow> exp_text x e \<Longrightarrow> t = ds @ ''.'' @ fs @ x \<or> fs = [] \<and> t = ds @ x
   \<Longrightarrow> v = of_nat (nat_of_digits 0 (ds @ fs)) * pow10 (e - int (length fs)) \<Longrightarrow> dec_text t v"
  unfolding dec_text_def by (intro exI [of _ ds] exI [of _ fs] exI [of _ x] exI [of _ e]) simp

lemma no_exp: "exp_text [] 0"
  by (simp add: exp_text_def)

lemma exp_textI: "exp_text ((if e < 0 then ''e-'' else ''e+'') @ nat_str (nat \<bar>e\<bar>)) e"
  unfolding exp_text_def by (cases "e < 0") (auto intro: exI [of _ "nat \<bar>e\<bar>"])

text \<open>The four layouts of the digits \<open>ds\<close> with exponent \<open>n\<close>.\<close>

lemma layout_text:
  assumes "list_all is_digit ds" "ds \<noteq> []" "k = int (length ds)" "v = of_nat (nat_of_digits 0 ds) * pow10 (n - k)"
  shows "dec_text (if k \<le> n \<and> n \<le> 21 then ds @ replicate (nat (n - k)) (CHR ''0'')
     else if 0 < n \<and> n \<le> 21 then take (nat n) ds @ ''.'' @ drop (nat n) ds
     else if -6 < n \<and> n \<le> 0 then ''0.'' @ replicate (nat (- n)) (CHR ''0'') @ ds
     else take 1 ds @ (if k = 1 then [] else ''.'' @ drop 1 ds) @ ''e'' @
          (if n - 1 < 0 then ''-'' else ''+'') @ nat_str (nat \<bar>n - 1\<bar>)) v" (is "dec_text (if ?A then _ else if ?B then _ else if ?C then _ else _) v")
proof -
  consider (int) "?A" | (point) "\<not> ?A" "?B" | (small) "\<not> ?A" "\<not> ?B" "?C" | (sci) "\<not> ?A" "\<not> ?B" "\<not> ?C" by blast
  then show ?thesis
  proof cases
    case int
    show ?thesis unfolding if_P [OF int]
      by (rule dec_textI [OF _ _ no_exp, of "ds @ replicate (nat (n - k)) (CHR ''0'')" "[]"])
         (use assms int in \<open>auto simp: nat_of_digits_app_zeros pow10_def list_all_iff\<close>)
  next
    case point
    show ?thesis unfolding if_not_P [OF point(1)] if_P [OF point(2)]
      by (rule dec_textI [OF _ _ no_exp, of "take (nat n) ds" "drop (nat n) ds"]) (use assms point in auto)
  next
    case small
    show ?thesis unfolding if_not_P [OF small(1)] if_not_P [OF small(2)] if_P [OF small(3)]
      by (rule dec_textI [OF _ _ no_exp, of "''0''" "replicate (nat (- n)) (CHR ''0'') @ ds"])
         (use assms small in \<open>auto simp: list_all_iff\<close>)
  next
    case sci
    have "(n - 1) - int (length (drop 1 ds)) = n - k" using assms(2,3) by (cases ds) auto
    then show ?thesis unfolding if_not_P [OF sci(1)] if_not_P [OF sci(2)] if_not_P [OF sci(3)]
      by (intro dec_textI [OF _ _ exp_textI [of "n - 1"], of "take 1 ds" "drop 1 ds"]) (use assms in auto)
  qed
qed

lemma pos_num_str_text:
  assumes "decimal q" "0 < q"
  shows "dec_text (pos_num_str q) q"
proof -
  obtain s j where sj: "dec_scale q = (s, j)" by fastforce
  have s: "0 < s" and q: "q = of_int s * pow10 (- j)" using dec_scale_value [OF assms sj] by auto
  show ?thesis unfolding pos_num_str_def sj prod.case Let_def
    by (rule layout_text) (use s q nat_str_digits in \<open>auto simp: list_all_iff nat_of_digits_nat_str\<close>)
qed

lemma nat_str_text: "dec_text (nat_str n) (of_nat n)"
  by (rule dec_textI [OF _ _ no_exp, of "nat_str n" "[]"])
     (use nat_str_digits in \<open>auto simp: list_all_iff nat_of_digits_nat_str pow10_def\<close>)

lemma num_str_text:
  assumes "decimal r"
  obtains sg t where "sg = [] \<or> sg = ''-''" "num_str (Fin r) = sg @ t" "dec_text t (if sg = [] then r else - r)"
proof -
  have m: "decimal (- r)" using assms by (simp add: decimal_def rat_uminus_code prod.case_eq_if)
  show ?thesis
  proof (cases "of_int \<lfloor>r\<rfloor> = r \<and> \<bar>r\<bar> < 10 ^ 21")
    case True
    then have i: "r = of_int \<lfloor>r\<rfloor>" by metis
    then have "(of_nat (nat (- \<lfloor>r\<rfloor>)) :: rat) = - r" if "\<lfloor>r\<rfloor> < 0"
      using that by (metis neg_0_le_iff_le of_int_minus of_nat_nat order_less_imp_le)
    moreover have "(of_nat (nat \<lfloor>r\<rfloor>) :: rat) = r" if "\<not> \<lfloor>r\<rfloor> < 0" using that i by simp
    ultimately show ?thesis
      using that [of "[]" "int_str \<lfloor>r\<rfloor>"] that [of "''-''" "nat_str (nat (- \<lfloor>r\<rfloor>))"] True
        nat_str_text [of "nat \<lfloor>r\<rfloor>"] nat_str_text [of "nat (- \<lfloor>r\<rfloor>)"]
      by (cases "\<lfloor>r\<rfloor> < 0") (auto simp: int_str_def)
  next
    case False
    then have "r \<noteq> 0" by auto
    then show ?thesis
      using that [of "[]" "pos_num_str r"] that [of "''-''" "pos_num_str (- r)"] False
        pos_num_str_text [OF assms] pos_num_str_text [OF m]
      by (cases "r < 0") auto
  qed
qed

text \<open>The round trips.\<close>

lemma str_to_num_num_str [simp]: "decimal r \<Longrightarrow> str_to_num (num_str (Fin r)) = Fin r"
  by (erule num_str_text) (use str_to_num_sign in fastforce)

lemma parseFloat_num_str [simp]: "decimal r \<Longrightarrow> parseFloat (num_str (Fin r)) = Fin r"
  by (erule num_str_text) (use parseFloat_sign in fastforce)

declare num_str.simps(4) [simp del]

lemma denominator_dvd: "snd (quotient_of r) dvd n \<longleftrightarrow> (\<exists>i. r * of_int n = of_int i)"
proof -
  obtain p d where pd: "quotient_of r = (p, d)" by fastforce
  have d: "0 < d" "coprime p d" and r: "r = of_int p / of_int d"
    using quotient_of_denom_pos [OF pd] quotient_of_coprime [OF pd] quotient_of_div [OF pd] by auto
  have "r * of_int n = of_int i \<longleftrightarrow> p * n = i * d" for i
  proof -
    have "r * of_int n = of_int i \<longleftrightarrow> (of_int (p * n) :: rat) = of_int (i * d)"
      unfolding r using d(1) by (simp add: field_simps)
    then show ?thesis by (simp only: of_int_eq_iff)
  qed
  then have "(\<exists>i. r * of_int n = of_int i) \<longleftrightarrow> d dvd p * n" by (auto simp: dvd_def mult.commute)
  also have "\<dots> \<longleftrightarrow> d dvd n" using d(2) by (simp add: coprime_commute coprime_dvd_mult_right_iff)
  finally show ?thesis by (simp add: pd)
qed

lemma decimal_iff: "decimal r \<longleftrightarrow> (\<exists>i. r * of_int (10 ^ 400) = of_int i)"
  unfolding decimal_def by (rule denominator_dvd)

lemma decimal_add [simp]: "decimal a \<Longrightarrow> decimal b \<Longrightarrow> decimal (a + b)"
  unfolding decimal_iff by (metis distrib_right of_int_add)

lemma decimal_minus [simp]: "decimal a \<Longrightarrow> decimal (- a)"
  unfolding decimal_iff by (metis minus_mult_left of_int_minus)

lemma decimal_diff [simp]: "decimal a \<Longrightarrow> decimal b \<Longrightarrow> decimal (a - b)"
  using decimal_add [of a "- b"] by simp

lemma decimal_int [simp]: "decimal (of_int i)"
  unfolding decimal_iff by (metis of_int_mult)

lemma decimal_numeral [simp]: "decimal (numeral n)" "decimal 0" "decimal 1"
  using decimal_int [of "numeral n"] decimal_int [of 0] decimal_int [of 1] by simp_all
section \<open>Rounding to hundredths\<close>

lemma to_fixed2_text:
  "\<exists>t. to_fixed2 r = (if r < 0 then ''-'' else []) @ t \<and> dec_text t (of_nat (nat \<lfloor>\<bar>r\<bar> * 100 + 1 / 2\<rfloor>) / 100)"
proof -
  define n where "n = nat \<lfloor>\<bar>r\<bar> * 100 + 1 / 2\<rfloor>"
  define fs where "fs = [digit (n div 10 mod 10), digit (n mod 10)]"
  have "nat_of_digits 0 (nat_str (n div 100) @ fs) = (n div 100 * 10 + n div 10 mod 10) * 10 + n mod 10"
    by (simp add: nat_of_digits_append nat_of_digits_nat_str fs_def) (simp add: nat_of_digits_def)
  also have "n div 100 * 10 + n div 10 mod 10 = n div 10"
    using div_mult_mod_eq [of "n div 10" 10] by (simp add: div_mult2_eq [symmetric])
  also have "n div 10 * 10 + n mod 10 = n" by (rule div_mult_mod_eq)
  finally have "dec_text (nat_str (n div 100) @ ''.'' @ fs) (of_nat n / 100)"
    by (intro dec_textI [OF _ _ no_exp, of "nat_str (n div 100)" fs])
       (use nat_str_digits in \<open>auto simp: list_all_iff fs_def pow10_def\<close>)
  then show ?thesis unfolding to_fixed2_def Let_def n_def [symmetric] fs_def by blast
qed

text \<open>\<open>+x.toFixed(2)\<close> is the nearest whole number of hundredths, whatever small error the sum \<open>x\<close> carries.\<close>

lemma to_fixed2_absorbs:
  assumes "\<bar>x - of_int k / 100\<bar> < 1 / 200" "0 < k"
  shows "str_to_num (to_fixed2 x) = Fin (of_int k / 100)"
proof -
  have "of_int k - 1 / 2 < x * 100" "x * 100 < of_int k + 1 / 2" "(1 :: rat) \<le> of_int k"
    using assms(1) [unfolded abs_less_iff] assms(2) by linarith+
  then have x: "0 < x" and fl: "\<lfloor>\<bar>x\<bar> * 100 + 1 / 2\<rfloor> = k" by (auto simp: floor_eq_iff)
  then show ?thesis using to_fixed2_text [of x] str_to_num_sign [of _ "of_int k / 100" "[]"] assms(2) by auto
qed

end
