(* ===== verification/Studio_Check.thy ===== *)
theory Studio_Check
  imports Studio_Doc Js_Numbers
begin

text \<open>
  The validator of config studio (\<open>tools/config-studio/src/app.template.html\<close>): the schema utilities \<open>deref\<close>, \<open>coreOf\<close> and
  \<open>isNullSchema\<close>, and \<open>checkNode\<close>, which walks schema and document together. A schema is a value with one field for
  each keyword that the code reads. The recursion of \<open>coreOf\<close> and \<open>checkNode\<close> follows references and may not end for a
  schema that refers to itself without a property or item in between; it carries fuel, and \<open>None\<close> means the fuel ran out.

  \<open>checkNode\<close> is also called without a list of issues; pushing an issue has no effect on the verdict, so the model
  always collects them and such a call drops them. The engine for patterns is an argument.
\<close>

section \<open>Schemas\<close>

datatype stype = TOne string | TMany "string list"

datatype 'a addl = AddlAny | AddlFalse | AddlSchema 'a

record sbounds =
  minLength :: "int option"
  maxLength :: "int option"
  spattern :: "string option"
  minimum :: "rat option"
  maximum :: "rat option"
  minItems :: "int option"
  maxItems :: "int option"

datatype schema = Schema (sref: "string option") (stype_of: "stype option") (anyOf: "schema list option") (oneOf: "schema list option")
  (allOf: "schema list option") (senum: "jv list option") (sconst: "jv option") (sbounds_of: sbounds) (items_of: "schema option")
  (required: "string list option") (props: "(string \<times> schema) list option") (addl_of: "schema addl") (description: "string option")

type_synonym defs = "(string \<times> schema) list"

definition no_bounds :: sbounds where
  "no_bounds = \<lparr>minLength = None, maxLength = None, spattern = None, minimum = None, maximum = None, minItems = None, maxItems = None\<rparr>"

definition empty_schema :: schema where
  "empty_schema = Schema None None None None None None None no_bounds None None None AddlAny None"

fun with_type :: "string \<Rightarrow> schema \<Rightarrow> schema" where
  "with_type t (Schema r ty a1 o1 a2 e c b i q p d x) = Schema r (Some (TOne t)) a1 o1 a2 e c b i q p d x"

section \<open>Schema utilities\<close>

definition def_name :: "string \<Rightarrow> string" where
  "def_name r = (if is_prefix ''#/$defs/'' r then drop 8 r else r)"

text \<open>The loop of \<open>deref\<close>, with the number of references it still follows.\<close>

fun deref_loop :: "nat \<Rightarrow> defs \<Rightarrow> schema \<Rightarrow> schema" where
  "deref_loop 0 D s = s"
| "deref_loop (Suc k) D s = (case sref s of None \<Rightarrow> s
     | Some r \<Rightarrow> if r = [] then s else (case map_of D (def_name r) of None \<Rightarrow> empty_schema | Some s' \<Rightarrow> deref_loop k D s'))"

definition deref :: "defs \<Rightarrow> schema \<Rightarrow> schema" where
  "deref D s = deref_loop 20 D s"

definition isNullSchema :: "schema \<Rightarrow> bool" where
  "isNullSchema s = (stype_of s = Some (TOne ''null'') \<and> props s = None \<and> anyOf s = None \<and> oneOf s = None)"

definition core_type :: "schema \<Rightarrow> schema" where
  "core_type s = (case stype_of s of Some (TMany [a, b]) \<Rightarrow>
       (case filter (\<lambda>x. x \<noteq> ''null'') [a, b] of [t] \<Rightarrow> with_type t s | _ \<Rightarrow> s)
     | _ \<Rightarrow> s)"

fun coreOf :: "nat \<Rightarrow> defs \<Rightarrow> schema \<Rightarrow> schema option" where
  "coreOf 0 D s = None"
| "coreOf (Suc n) D s0 = (let s = deref D s0 in
     case anyOf s of Some [x, y] \<Rightarrow>
         (let a = deref D x; b = deref D y in
          if isNullSchema a then coreOf n D b else if isNullSchema b then coreOf n D a else Some (core_type s))
     | _ \<Rightarrow> Some (core_type s))"

text \<open>\<open>desc.replace(/\s+/g, " ")\<close>, and the first sentence of a description; positions count bytes, which are characters in ASCII.\<close>

function one_blank :: "string \<Rightarrow> string" where
  "one_blank [] = []"
| "one_blank (c # cs) = (if is_space c then CHR '' '' # one_blank (dropWhile is_space cs) else c # one_blank cs)"
  by pat_completeness auto
termination
  by (relation "measure length") (auto simp: less_Suc_eq_le length_dropWhile_le)

definition shortHelp :: "string \<Rightarrow> string" where
  "shortHelp desc = (if desc = [] then []
     else let s = js_trim (one_blank desc); cut = indexOf s ''. '';
              out = (if 0 < cut \<and> cut < 150 then take (nat cut + 1) s else s)
          in if 170 < length out then js_trim (take 170 out) @ ''...'' else out)"

section \<open>Issues\<close>

record issue =
  ipath :: "key list"
  imsg :: string

type_synonym chk = "bool \<times> issue list"

definition fail :: "key list \<Rightarrow> string \<Rightarrow> chk" where
  "fail p t = (False, [\<lparr>ipath = p, imsg = t\<rparr>])"

definition require :: "bool \<Rightarrow> key list \<Rightarrow> string \<Rightarrow> chk" where
  "require b p t = (if b then (True, []) else fail p t)"

text \<open>A loop that runs all checks and keeps whether all of them passed.\<close>

fun all_checks :: "chk option list \<Rightarrow> chk option" where
  "all_checks [] = Some (True, [])"
| "all_checks (None # cs) = None"
| "all_checks (Some (b, xs) # cs) = (case all_checks cs of None \<Rightarrow> None | Some (b', ys) \<Rightarrow> Some (b \<and> b', xs @ ys))"

text \<open>The loop over the variants of a union: the first that matches, \<open>Some None\<close> when none does.\<close>

fun first_match :: "(schema \<Rightarrow> chk option) \<Rightarrow> schema list \<Rightarrow> schema option option" where
  "first_match f [] = Some None"
| "first_match f (s # ss) = (case f s of None \<Rightarrow> None | Some (b, _) \<Rightarrow> if b then Some (Some s) else first_match f ss)"

section \<open>Checks of one node\<close>

text \<open>\<open>a === b\<close> for two values that do not share an object.\<close>

fun strict_eq :: "jv \<Rightarrow> jv \<Rightarrow> bool" where
  "strict_eq (JArr xs) b = False"
| "strict_eq (JObj kvs) b = False"
| "strict_eq (JNum NaN) b = False"
| "strict_eq a b = (a = b)"

definition type_of :: "schema \<Rightarrow> string option" where
  "type_of c = (case stype_of c of None \<Rightarrow> None | Some (TOne t) \<Rightarrow> Some t
     | Some (TMany ts) \<Rightarrow> (case filter (\<lambda>x. x \<noteq> ''null'') ts of [] \<Rightarrow> None | t # _ \<Rightarrow> Some t))"

fun is_whole :: "jv \<Rightarrow> bool" where
  "is_whole (JNum (Fin r)) = (of_int \<lfloor>r\<rfloor> = r)"
| "is_whole (JNum PInf) = True"
| "is_whole (JNum NInf) = True"
| "is_whole _ = False"

definition type_error :: "schema \<Rightarrow> jv \<Rightarrow> string option" where
  "type_error c v = (case type_of c of None \<Rightarrow> None
     | Some t \<Rightarrow>
       if t = ''string'' \<and> js_typeof v \<noteq> ''string'' then Some ''expected a string''
       else if t = ''integer'' \<and> \<not> is_whole v then Some ''expected an integer''
       else if t = ''number'' \<and> js_typeof v \<noteq> ''number'' then Some ''expected a number''
       else if t = ''boolean'' \<and> js_typeof v \<noteq> ''boolean'' then Some ''expected true/false''
       else if t = ''array'' \<and> \<not> is_array v then Some ''expected a list''
       else if t = ''object'' \<and> (js_typeof v \<noteq> ''object'' \<or> is_array v) then Some ''expected a mapping''
       else None)"

definition value_error :: "schema \<Rightarrow> jv \<Rightarrow> string option" where
  "value_error c v =
     (case type_error c v of Some e \<Rightarrow> Some e
      | None \<Rightarrow> if (case sconst c of None \<Rightarrow> False | Some k \<Rightarrow> \<not> strict_eq v k)
          then Some (''must be '' @ js_string (opt_text (json_compact (the (sconst c)))))
          else if (case senum c of None \<Rightarrow> False | Some ks \<Rightarrow> \<not> list_ex (strict_eq v) ks)
          then Some (''must be one of: '' @ arr_join '', '' (the (senum c)))
          else None)"

definition string_checks :: "(string \<Rightarrow> string \<Rightarrow> bool option) \<Rightarrow> sbounds \<Rightarrow> string \<Rightarrow> key list \<Rightarrow> chk list" where
  "string_checks R b s p =
     [case minLength b of None \<Rightarrow> (True, [])
        | Some n \<Rightarrow> require (n \<le> int (js_length s)) p (''too short (min '' @ int_str n @ '' chars)''),
      case maxLength b of None \<Rightarrow> (True, [])
        | Some n \<Rightarrow> require (int (js_length s) \<le> n) p (''too long (max '' @ int_str n @ '' chars)''),
      case spattern b of None \<Rightarrow> (True, [])
        | Some re \<Rightarrow> require (re = [] \<or> R re s \<noteq> Some False) p (''must match pattern '' @ re)]"

definition number_checks :: "sbounds \<Rightarrow> jnum \<Rightarrow> key list \<Rightarrow> chk list" where
  "number_checks b x p =
     [case minimum b of None \<Rightarrow> (True, []) | Some n \<Rightarrow> require (\<not> num_less x (Fin n)) p (''must be >= '' @ num_str (Fin n)),
      case maximum b of None \<Rightarrow> (True, []) | Some n \<Rightarrow> require (\<not> num_less (Fin n) x) p (''must be <= '' @ num_str (Fin n))]"

definition length_checks :: "sbounds \<Rightarrow> nat \<Rightarrow> key list \<Rightarrow> chk list" where
  "length_checks b k p =
     [case minItems b of None \<Rightarrow> (True, []) | Some n \<Rightarrow> require (n \<le> int k) p (''needs at least '' @ int_str n @ '' item(s)''),
      case maxItems b of None \<Rightarrow> (True, []) | Some n \<Rightarrow> require (int k \<le> n) p (''allows at most '' @ int_str n @ '' item(s)'')]"

definition required_checks :: "schema \<Rightarrow> (string \<times> jv) list \<Rightarrow> key list \<Rightarrow> chk list" where
  "required_checks c kvs p = map (\<lambda>r. require (\<not> nullish (the (js_get (JObj kvs) r))) p (''missing required field '' @ [CHR 0x27] @ r @ [CHR 0x27]))
     (case required c of None \<Rightarrow> [] | Some rs \<Rightarrow> rs)"

text \<open>
  What applies to a member of a mapping. \<open>props[kk]\<close> also finds what every object inherits; such a method is no schema
  with keywords, so every value passes.
\<close>

definition member_rule :: "schema \<Rightarrow> string \<Rightarrow> schema addl" where
  "member_rule c k = (case map_of (case props c of None \<Rightarrow> [] | Some ps \<Rightarrow> ps) k of
       Some s \<Rightarrow> AddlSchema s
     | None \<Rightarrow> if k \<in> set object_proto then AddlAny else addl_of c)"

definition member_check :: "(schema \<Rightarrow> jv \<Rightarrow> key list \<Rightarrow> chk option) \<Rightarrow> schema \<Rightarrow> key list \<Rightarrow> string \<times> jv \<Rightarrow> chk option" where
  "member_check f c p kv = (case member_rule c (fst kv) of
       AddlAny \<Rightarrow> Some (True, [])
     | AddlFalse \<Rightarrow> Some (fail (p @ [KName (fst kv)]) (''unknown field '' @ [CHR 0x27] @ fst kv @ [CHR 0x27] @ '' (not in schema - check spelling)''))
     | AddlSchema s \<Rightarrow> f s (snd kv) (p @ [KName (fst kv)]))"

definition item_checks :: "(schema \<Rightarrow> jv \<Rightarrow> key list \<Rightarrow> chk option) \<Rightarrow> schema \<Rightarrow> jv list \<Rightarrow> key list \<Rightarrow> chk option list" where
  "item_checks f c vs p = (case items_of c of None \<Rightarrow> [] | Some s \<Rightarrow> map (\<lambda>k. f s (vs ! k) (p @ [KIdx k])) [0 ..< length vs])"

text \<open>The checks after type, constant and enumeration, by the kind of value; \<open>f\<close> is the recursive call.\<close>

definition node_checks :: "(string \<Rightarrow> string \<Rightarrow> bool option) \<Rightarrow> (schema \<Rightarrow> jv \<Rightarrow> key list \<Rightarrow> chk option) \<Rightarrow>
    schema \<Rightarrow> jv \<Rightarrow> key list \<Rightarrow> chk option list" where
  "node_checks R f c v p = (case v of
       JStr s \<Rightarrow> map Some (string_checks R (sbounds_of c) s p)
     | JNum x \<Rightarrow> map Some (number_checks (sbounds_of c) x p)
     | JArr vs \<Rightarrow> map Some (length_checks (sbounds_of c) (length vs) p) @ item_checks f c vs p
     | JObj kvs \<Rightarrow> map Some (required_checks c kvs p) @ map (member_check f c p) kvs
     | _ \<Rightarrow> [])"

definition variants_of :: "schema \<Rightarrow> schema list option" where
  "variants_of c = (case oneOf c of Some vs \<Rightarrow> Some vs | None \<Rightarrow> anyOf c)"

definition union_msg :: "schema \<Rightarrow> string" where
  "union_msg c = ''does not match any allowed shape ('' @ shortHelp (case description c of Some d \<Rightarrow> if d = [] then ''union'' else d | None \<Rightarrow> ''union'') @ '')''"

definition allOf_list :: "schema \<Rightarrow> schema list" where
  "allOf_list c = (case allOf c of None \<Rightarrow> [] | Some ss \<Rightarrow> ss)"

fun checkNode :: "nat \<Rightarrow> (string \<Rightarrow> string \<Rightarrow> bool option) \<Rightarrow> defs \<Rightarrow> schema \<Rightarrow> jv \<Rightarrow> key list \<Rightarrow> chk option" where
  "checkNode 0 R D s0 v p = None"
| "checkNode (Suc n) R D s0 v p = (if nullish v then Some (True, [])
     else case coreOf n D (deref D s0) of None \<Rightarrow> None
     | Some c \<Rightarrow> (case variants_of c of
         Some vs \<Rightarrow> (case first_match (\<lambda>s. checkNode n R D s v p) vs of None \<Rightarrow> None
            | Some None \<Rightarrow> Some (fail p (union_msg c))
            | Some (Some s) \<Rightarrow> checkNode n R D s v p)
       | None \<Rightarrow> (case all_checks (map (\<lambda>s. checkNode n R D s v p) (allOf_list c)) of None \<Rightarrow> None
            | Some (b, xs) \<Rightarrow> if \<not> b then Some (False, xs)
                else (case value_error c v of Some e \<Rightarrow> Some (False, xs @ [\<lparr>ipath = p, imsg = e\<rparr>])
                  | None \<Rightarrow> map_option (\<lambda>(b', ys). (b', xs @ ys)) (all_checks (node_checks R (checkNode n R D) c v p))))))"

section \<open>Laws\<close>

text \<open>A verdict that goes with its issues, all of them at the node \<open>p\<close> or below.\<close>

definition sound :: "key list \<Rightarrow> chk \<Rightarrow> bool" where
  "sound p r = (fst r = (snd r = []) \<and> (\<forall>i \<in> set (snd r). \<exists>q. ipath i = p @ q))"

lemma sound_simps [simp]: "sound p (True, [])" "sound p (fail p t)" "sound p (require b p t)" "sound p (fail (p @ q) t)"
  by (auto simp: sound_def fail_def require_def)

lemma sound_below: "sound (p @ q) r \<Longrightarrow> sound p r"
  by (auto simp: sound_def)

lemma sound_all_checks:
  "(\<And>r. Some r \<in> set cs \<Longrightarrow> sound p r) \<Longrightarrow> all_checks cs = Some r \<Longrightarrow> sound p r"
proof (induction cs arbitrary: r rule: all_checks.induct)
  case (3 b xs cs)
  obtain b' ys where c: "all_checks cs = Some (b', ys)" "r = (b \<and> b', xs @ ys)" using "3.prems"(2) by (auto split: option.splits)
  have "sound p (b', ys)" using "3.IH" [OF _ c(1)] "3.prems"(1) by simp
  moreover have "sound p (b, xs)" using "3.prems"(1) by simp
  ultimately show ?case by (auto simp: sound_def c(2))
qed auto

lemma sound_node_checks:
  assumes "\<And>s w q r. f s w q = Some r \<Longrightarrow> sound q r"
  shows "Some r \<in> set (node_checks R f c v p) \<Longrightarrow> sound p r"
proof -
  assume r: "Some r \<in> set (node_checks R f c v p)"
  have below: "f s w (p @ q) = Some r \<Longrightarrow> sound p r" for s w q using assms sound_below by blast
  from r show ?thesis
    by (auto simp: node_checks_def string_checks_def number_checks_def length_checks_def required_checks_def item_checks_def
        member_check_def split: jv.splits option.splits if_splits addl.splits intro: below dest!: sym [of "Some r"])
qed

lemma first_match_in: "first_match f ss = Some (Some s) \<Longrightarrow> s \<in> set ss \<and> (\<exists>xs. f s = Some (True, xs))"
  by (induction ss) (auto split: option.splits if_splits)

lemma checkNode_sound: "checkNode n R D s v p = Some r \<Longrightarrow> sound p r"
proof (induction n arbitrary: s v p r)
  case (Suc n)
  show ?case
  proof (cases "nullish v")
    case False
    then obtain c where c: "coreOf n D (deref D s) = Some c" using Suc.prems by (auto split: option.splits)
    show ?thesis
    proof (cases "variants_of c")
      case (Some vs)
      then show ?thesis using Suc.prems False c Suc.IH by (auto split: option.splits)
    next
      case None
      obtain b xs where a: "all_checks (map (\<lambda>s. checkNode n R D s v p) (allOf_list c)) = Some (b, xs)"
        using Suc.prems False c None by (auto split: option.splits)
      have s1: "sound p (b, xs)" by (rule sound_all_checks [OF _ a]) (use Suc.IH in auto)
      have s2: "all_checks (node_checks R (checkNode n R D) c v p) = Some r' \<Longrightarrow> sound p r'" for r'
        by (rule sound_all_checks) (use sound_node_checks [of "checkNode n R D"] Suc.IH in blast)
      show ?thesis using Suc.prems False c None a s1 s2
        by (auto simp: sound_def split: if_splits option.splits)
    qed
  qed (use Suc.prems in auto)
qed simp

section \<open>What the validator accepts\<close>

text \<open>The meaning of a schema without order, issues or fuel: bounds of the value itself, and the parts with their own schemas.\<close>

definition in_bounds :: "int option \<Rightarrow> int \<Rightarrow> int option \<Rightarrow> bool" where
  "in_bounds lo x hi = ((case lo of None \<Rightarrow> True | Some n \<Rightarrow> n \<le> x) \<and> (case hi of None \<Rightarrow> True | Some n \<Rightarrow> x \<le> n))"

definition in_range :: "sbounds \<Rightarrow> jnum \<Rightarrow> bool" where
  "in_range b x = ((case minimum b of None \<Rightarrow> True | Some n \<Rightarrow> \<not> num_less x (Fin n)) \<and>
     (case maximum b of None \<Rightarrow> True | Some n \<Rightarrow> \<not> num_less (Fin n) x))"

definition shape_ok :: "(string \<Rightarrow> string \<Rightarrow> bool option) \<Rightarrow> schema \<Rightarrow> jv \<Rightarrow> bool" where
  "shape_ok R c v = (case v of
       JStr s \<Rightarrow> in_bounds (minLength (sbounds_of c)) (int (js_length s)) (maxLength (sbounds_of c)) \<and>
         (case spattern (sbounds_of c) of None \<Rightarrow> True | Some re \<Rightarrow> re = [] \<or> R re s \<noteq> Some False)
     | JNum x \<Rightarrow> in_range (sbounds_of c) x
     | JArr vs \<Rightarrow> in_bounds (minItems (sbounds_of c)) (int (length vs)) (maxItems (sbounds_of c))
     | JObj kvs \<Rightarrow> (\<forall>r \<in> set (case required c of None \<Rightarrow> [] | Some rs \<Rightarrow> rs). \<not> nullish (the (js_get (JObj kvs) r))) \<and>
         (\<forall>kv \<in> set kvs. member_rule c (fst kv) \<noteq> AddlFalse)
     | _ \<Rightarrow> True)"

definition parts :: "schema \<Rightarrow> jv \<Rightarrow> (schema \<times> jv) list" where
  "parts c v = (case v of
       JArr vs \<Rightarrow> (case items_of c of None \<Rightarrow> [] | Some s \<Rightarrow> map (Pair s) vs)
     | JObj kvs \<Rightarrow> concat (map (\<lambda>kv. case member_rule c (fst kv) of AddlSchema s \<Rightarrow> [(s, snd kv)] | _ \<Rightarrow> []) kvs)
     | _ \<Rightarrow> [])"

inductive conforms :: "(string \<Rightarrow> string \<Rightarrow> bool option) \<Rightarrow> defs \<Rightarrow> schema \<Rightarrow> jv \<Rightarrow> bool" for R D where
  conf_null: "nullish v \<Longrightarrow> conforms R D s v"
| conf_union: "\<not> nullish v \<Longrightarrow> coreOf n D (deref D s) = Some c \<Longrightarrow> variants_of c = Some vs \<Longrightarrow> t \<in> set vs \<Longrightarrow>
    conforms R D t v \<Longrightarrow> conforms R D s v"
| conf_value: "\<not> nullish v \<Longrightarrow> coreOf n D (deref D s) = Some c \<Longrightarrow> variants_of c = None \<Longrightarrow>
    \<forall>t \<in> set (allOf_list c). conforms R D t v \<Longrightarrow> value_error c v = None \<Longrightarrow> shape_ok R c v \<Longrightarrow>
    \<forall>x \<in> set (parts c v). conforms R D (fst x) (snd x) \<Longrightarrow> conforms R D s v"

definition passes :: "chk option \<Rightarrow> bool" where
  "passes r = (\<exists>xs. r = Some (True, xs))"

lemma passes_Some [simp]: "passes (Some r) = fst r" and passes_None [simp]: "\<not> passes None"
  by (cases r) (auto simp: passes_def)

lemma fst_require [simp]: "fst (require b p t) = b" "\<not> fst (fail p t)"
  by (auto simp: require_def fail_def)

lemma all_checks_verdict: "all_checks cs = Some r \<Longrightarrow> fst r = list_all passes cs"
  by (induction cs arbitrary: r rule: all_checks.induct) (auto split: option.splits)

lemma string_checks_iff: "list_all fst (string_checks R (sbounds_of c) s p) = shape_ok R c (JStr s)"
  by (auto simp: string_checks_def shape_ok_def in_bounds_def split: option.splits)

lemma number_checks_iff: "list_all fst (number_checks (sbounds_of c) x p) = shape_ok R c (JNum x)"
  by (auto simp: number_checks_def shape_ok_def in_range_def simp del: num_str.simps split: option.splits)

lemma length_checks_iff: "list_all fst (length_checks (sbounds_of c) (length vs) p) = shape_ok R c (JArr vs)"
  by (auto simp: length_checks_def shape_ok_def in_bounds_def split: option.splits)

lemma required_checks_iff: "list_all fst (required_checks c kvs p) =
    (\<forall>r \<in> set (case required c of None \<Rightarrow> [] | Some rs \<Rightarrow> rs). \<not> nullish (the (js_get (JObj kvs) r)))"
  by (auto simp: required_checks_def list_all_iff)

lemma passes_map_Some [simp]: "list_all passes (map Some xs) = list_all fst xs"
  by (simp add: list_all_iff)

lemma in_parts: "(s, w) \<in> set (parts c v) \<longleftrightarrow>
    (\<exists>vs. v = JArr vs \<and> w \<in> set vs \<and> items_of c = Some s) \<or>
    (\<exists>kvs k. v = JObj kvs \<and> (k, w) \<in> set kvs \<and> member_rule c k = AddlSchema s)"
  by (force simp: parts_def split: jv.splits option.splits addl.splits)

lemma item_checks_iff:
  "list_all passes (item_checks f c vs p) = (\<forall>s. items_of c = Some s \<longrightarrow> (\<forall>k < length vs. passes (f s (vs ! k) (p @ [KIdx k]))))"
  by (auto simp: item_checks_def list_all_iff split: option.splits)

lemma member_check_iff: "passes (member_check f c p kv) = (member_rule c (fst kv) \<noteq> AddlFalse \<and>
    (\<forall>s. member_rule c (fst kv) = AddlSchema s \<longrightarrow> passes (f s (snd kv) (p @ [KName (fst kv)]))))"
  by (auto simp: member_check_def split: addl.splits)

lemma node_checks_pass:
  assumes "list_all passes (node_checks R f c v p)"
  shows "shape_ok R c v \<and> (\<forall>x \<in> set (parts c v). \<exists>q. passes (f (fst x) (snd x) q))"
proof (cases v)
  case (JArr vs)
  have "w \<in> set vs \<Longrightarrow> items_of c = Some s \<Longrightarrow> \<exists>q. passes (f s w q)" for w s using assms
    by (auto simp: JArr node_checks_def item_checks_iff in_set_conv_nth)
  then show ?thesis using assms length_checks_iff [of c vs p R] by (auto simp: JArr in_parts node_checks_def)
next
  case (JObj kvs)
  have "list_all fst (required_checks c kvs p) \<and> list_all passes (map (member_check f c p) kvs)"
    using assms by (simp add: JObj node_checks_def)
  then have r: "list_all fst (required_checks c kvs p)" and m: "\<forall>kv \<in> set kvs. passes (member_check f c p kv)"
    by (auto simp: list_all_iff)
  have "shape_ok R c v" using r m by (auto simp: JObj shape_ok_def required_checks_iff member_check_iff)
  then show ?thesis using m by (fastforce simp: JObj in_parts member_check_iff)
qed (use assms string_checks_iff number_checks_iff in \<open>auto simp: node_checks_def in_parts shape_ok_def parts_def\<close>)

lemma node_checks_hold:
  assumes s: "shape_ok R c v" and f: "\<And>x q r. x \<in> set (parts c v) \<Longrightarrow> f (fst x) (snd x) q = Some r \<Longrightarrow> fst r"
    and n: "None \<notin> set (node_checks R f c v p)"
  shows "list_all passes (node_checks R f c v p)"
proof (cases v)
  case (JArr vs)
  have "passes (f t (vs ! k) (p @ [KIdx k]))" if i: "items_of c = Some t" and k: "k < length vs" for t k
  proof -
    have "f t (vs ! k) (p @ [KIdx k]) \<in> set (node_checks R f c v p)" using i k by (auto simp: JArr node_checks_def item_checks_def)
    then have "f t (vs ! k) (p @ [KIdx k]) \<noteq> None" using n by metis
    then show ?thesis using f [of "(t, vs ! k)"] i k by (auto simp: JArr in_parts)
  qed
  then show ?thesis using s length_checks_iff [of c vs p R] by (simp add: JArr node_checks_def item_checks_iff)
next
  case (JObj kvs)
  have "passes (member_check f c p kv)" if kv: "kv \<in> set kvs" for kv
  proof -
    have "member_check f c p kv \<in> set (node_checks R f c v p)" using kv by (simp add: JObj node_checks_def)
    then have "member_check f c p kv \<noteq> None" using n by metis
    then show ?thesis using s kv f [of "(t, snd kv)" for t]
      by (cases kv) (force simp: JObj in_parts shape_ok_def member_check_def split: addl.splits)
  qed
  then have "list_all passes (map (member_check f c p) kvs)" by (simp add: list_all_iff)
  moreover have "list_all fst (required_checks c kvs p)" using s by (simp add: JObj required_checks_iff shape_ok_def)
  ultimately show ?thesis by (simp add: JObj node_checks_def)
qed (use s string_checks_iff number_checks_iff [of c _ p R] in \<open>auto simp: node_checks_def\<close>)

lemma all_checks_some: "all_checks cs = Some r \<Longrightarrow> None \<notin> set cs"
  by (induction cs arbitrary: r rule: all_checks.induct) (auto split: option.splits)

lemma list_all_passesI: "None \<notin> set cs \<Longrightarrow> (\<And>r. Some r \<in> set cs \<Longrightarrow> fst r) \<Longrightarrow> list_all passes cs"
  unfolding list_all_iff by (metis not_None_eq passes_Some)

lemma coreOf_mono: "coreOf n D s = Some c \<Longrightarrow> n \<le> m \<Longrightarrow> coreOf m D s = Some c"
proof (induction n arbitrary: m s)
  case (Suc n)
  then obtain k where "m = Suc k" "n \<le> k" by (cases m) auto
  then show ?case using Suc by (auto simp: Let_def split: option.splits list.splits if_splits)
qed simp

lemma coreOf_det: "coreOf n D s = Some c \<Longrightarrow> coreOf m D s = Some d \<Longrightarrow> c = d"
  using coreOf_mono [of n D s c "max n m"] coreOf_mono [of m D s d "max n m"] by simp

text \<open>The two ways a call goes on after the core of the schema is known.\<close>

lemma checkNode_union: "\<not> nullish v \<Longrightarrow> coreOf n D (deref D s) = Some c \<Longrightarrow> variants_of c = Some vs \<Longrightarrow>
    checkNode (Suc n) R D s v p = (case first_match (\<lambda>s. checkNode n R D s v p) vs of None \<Rightarrow> None
      | Some None \<Rightarrow> Some (fail p (union_msg c)) | Some (Some s) \<Rightarrow> checkNode n R D s v p)"
  by simp

lemma checkNode_accepted:
  assumes "\<not> nullish v" "coreOf n D (deref D s) = Some c" "variants_of c = None" "checkNode (Suc n) R D s v p = Some r" "fst r"
  shows "list_all passes (map (\<lambda>s. checkNode n R D s v p) (allOf_list c))" "value_error c v = None"
    "list_all passes (node_checks R (checkNode n R D) c v p)"
  using assms by (auto dest!: all_checks_verdict split: option.splits if_splits)

lemma accepted_conforms: "checkNode n R D s v p = Some r \<Longrightarrow> fst r \<Longrightarrow> conforms R D s v"
proof (induction n arbitrary: s v p r)
  case (Suc n)
  show ?case
  proof (cases "nullish v")
    case False
    then obtain c where c: "coreOf n D (deref D s) = Some c" using Suc.prems by (auto split: option.splits)
    show ?thesis
    proof (cases "variants_of c")
      case (Some vs)
      then obtain t where t: "first_match (\<lambda>s. checkNode n R D s v p) vs = Some (Some t)" "checkNode n R D t v p = Some r"
        using Suc.prems checkNode_union [OF False c Some] by (auto split: option.splits)
      show ?thesis using conf_union [OF False c Some] first_match_in [OF t(1)] Suc.IH [OF t(2) Suc.prems(2)] by blast
    next
      case None
      note a = checkNode_accepted [OF False c None Suc.prems]
      show ?thesis using a(1) node_checks_pass [OF a(3)] Suc.IH
        by (intro conf_value [OF False c None _ a(2)]) (fastforce simp: list_all_iff passes_def)+
    qed
  qed (rule conf_null)
qed simp

lemma first_match_none: "first_match f ss = Some None \<Longrightarrow> s \<in> set ss \<Longrightarrow> \<exists>xs. f s = Some (False, xs)"
  by (induction ss) (auto split: option.splits if_splits)

lemma conforms_accepted: "conforms R D s v \<Longrightarrow> checkNode n R D s v p = Some r \<Longrightarrow> fst r"
proof (induction arbitrary: n p r rule: conforms.induct)
  case (conf_null v s)
  then show ?case by (cases n) auto
next
  case (conf_union v m s c vs t)
  then obtain k d where k: "n = Suc k" "coreOf k D (deref D s) = Some d" by (cases n) (auto split: option.splits)
  then have c: "coreOf k D (deref D s) = Some c" using coreOf_det conf_union.hyps(2) by metis
  show ?case
    using checkNode_union [OF conf_union.hyps(1) c conf_union.hyps(3), of R p] conf_union.prems k(1)
      conf_union.IH [of k p] first_match_none [OF _ conf_union.hyps(4)] first_match_in
    by (fastforce split: option.splits)
next
  case (conf_value v m s c)
  then obtain k d where k: "n = Suc k" "coreOf k D (deref D s) = Some d" by (cases n) (auto split: option.splits)
  then have c: "coreOf k D (deref D s) = Some c" using coreOf_det conf_value.hyps(2) by metis
  obtain b xs where a: "all_checks (map (\<lambda>s. checkNode k R D s v p) (allOf_list c)) = Some (b, xs)"
    using conf_value.prems k conf_value.hyps(1,3) c by (auto split: option.splits)
  have "list_all passes (map (\<lambda>s. checkNode k R D s v p) (allOf_list c))"
    by (rule list_all_passesI [OF all_checks_some [OF a]]) (use conf_value.IH(1) in \<open>fastforce dest!: sym [of "Some r" for r]\<close>)
  then have b: b using all_checks_verdict [OF a] by simp
  then obtain r' where r': "all_checks (node_checks R (checkNode k R D) c v p) = Some r'" "fst r = fst r'"
    using conf_value.prems k conf_value.hyps(1,3,4) c a by auto
  have "list_all passes (node_checks R (checkNode k R D) c v p)"
    by (rule node_checks_hold [OF conf_value.hyps(5) _ all_checks_some [OF r'(1)]]) (use conf_value.IH(2) in blast)
  then show ?case using all_checks_verdict [OF r'(1)] r'(2) by simp
qed

section \<open>More fuel changes nothing\<close>

definition fuel_le :: "'a option \<Rightarrow> 'a option \<Rightarrow> bool" where
  "fuel_le a b = (\<forall>r. a = Some r \<longrightarrow> b = Some r)"

lemma fuel_le_refl [simp]: "fuel_le a a"
  by (simp add: fuel_le_def)

lemma all_checks_mono: "list_all2 fuel_le cs ds \<Longrightarrow> fuel_le (all_checks cs) (all_checks ds)"
proof (induction rule: list_all2_induct)
  case (Cons c cs d ds)
  then show ?case by (cases c; cases "all_checks cs") (auto simp: fuel_le_def)
qed simp

lemma first_match_mono: "(\<And>s. fuel_le (f s) (g s)) \<Longrightarrow> fuel_le (first_match f ss) (first_match g ss)"
proof (induction ss)
  case (Cons s ss)
  then show ?case using Cons.prems [of s] by (cases "f s") (auto simp: fuel_le_def)
qed simp

lemma list_all2_same: "(\<And>x. P x x) \<Longrightarrow> list_all2 P xs xs"
  by (induction xs) auto

lemma node_checks_mono:
  "(\<And>s w q. fuel_le (f s w q) (g s w q)) \<Longrightarrow> list_all2 fuel_le (node_checks R f c v p) (node_checks R g c v p)"
  by (auto simp: node_checks_def item_checks_def member_check_def list_all2_map1 list_all2_map2
      intro!: list_all2_same list_all2_appendI split: jv.splits option.splits addl.splits)

lemma checkNode_Suc: "checkNode n R D s v p = Some r \<Longrightarrow> checkNode (Suc n) R D s v p = Some r"
proof (induction n arbitrary: s v p r)
  case (Suc n)
  have le: "fuel_le (checkNode n R D t w q) (checkNode (Suc n) R D t w q)" for t w q
    using Suc.IH by (simp add: fuel_le_def)
  show ?case
  proof (cases "nullish v")
    case False
    then obtain c where c: "coreOf n D (deref D s) = Some c" using Suc.prems by (auto split: option.splits)
    have c': "coreOf (Suc n) D (deref D s) = Some c" by (rule coreOf_mono [OF c]) simp
    show ?thesis
    proof (cases "variants_of c")
      case (Some vs)
      have f: "fuel_le (first_match (\<lambda>s. checkNode n R D s v p) vs) (first_match (\<lambda>s. checkNode (Suc n) R D s v p) vs)"
        by (rule first_match_mono) (rule le)
      show ?thesis using f Suc.prems Suc.IH checkNode_union [OF False c Some, of R p] checkNode_union [OF False c' Some, of R p]
        by (auto simp: fuel_le_def split: option.splits simp del: checkNode.simps)
    next
      case None
      have a: "fuel_le (all_checks (map (\<lambda>s. checkNode n R D s v p) (allOf_list c)))
          (all_checks (map (\<lambda>s. checkNode (Suc n) R D s v p) (allOf_list c)))"
        by (rule all_checks_mono) (unfold list_all2_map1 list_all2_map2, rule list_all2_same, rule le)
      have b: "fuel_le (all_checks (node_checks R (checkNode n R D) c v p)) (all_checks (node_checks R (checkNode (Suc n) R D) c v p))"
        by (rule all_checks_mono) (rule node_checks_mono, rule le)
      show ?thesis using a b Suc.prems checkNode.simps(2) [of n R D s v p] checkNode.simps(2) [of "Suc n" R D s v p] False c c' None
        by (auto simp: fuel_le_def split: option.splits if_splits simp del: checkNode.simps)
    qed
  qed (use Suc.prems in auto)
qed simp

lemma checkNode_mono: "n \<le> m \<Longrightarrow> checkNode n R D s v p = Some r \<Longrightarrow> checkNode m R D s v p = Some r"
  by (induction rule: dec_induct) (auto simp del: checkNode.simps intro: checkNode_Suc)

section \<open>Termination\<close>

text \<open>
  \<open>S\<close> lists the schemas in use. Every chain of references ends within the bound of \<open>deref\<close>, and a descent through
  unions alone, without consuming a member or an item of the value, ends after at most \<open>k\<close> steps.
\<close>

definition unions :: "schema \<Rightarrow> schema list" where
  "unions c = (case anyOf c of None \<Rightarrow> [] | Some ss \<Rightarrow> ss) @ (case oneOf c of None \<Rightarrow> [] | Some ss \<Rightarrow> ss) @ allOf_list c"

definition inner :: "schema \<Rightarrow> schema list" where
  "inner c = (case items_of c of None \<Rightarrow> [] | Some s \<Rightarrow> [s]) @ map snd (case props c of None \<Rightarrow> [] | Some ps \<Rightarrow> ps) @
     (case addl_of c of AddlSchema s \<Rightarrow> [s] | _ \<Rightarrow> [])"

fun shallow :: "nat \<Rightarrow> defs \<Rightarrow> schema \<Rightarrow> bool" where
  "shallow 0 D s = False"
| "shallow (Suc k) D s = list_all (shallow k D) (unions (deref D s))"

definition guarded :: "nat \<Rightarrow> defs \<Rightarrow> schema list \<Rightarrow> bool" where
  "guarded K D S = list_all (\<lambda>s. shallow K D s \<and> deref D (deref D s) = deref D s \<and>
     list_all (\<lambda>t. t \<in> set S) (unions (deref D s) @ inner (deref D s))) S"

lemma shallow_mono: "shallow k D s \<Longrightarrow> k \<le> m \<Longrightarrow> shallow m D s"
proof (induction k arbitrary: m s)
  case (Suc k)
  then obtain j where "m = Suc j" "k \<le> j" by (cases m) auto
  then show ?case using Suc by (auto simp: list_all_iff)
qed simp

lemma core_type_same: "unions (core_type s) = unions s" "inner (core_type s) = inner s"
  by (cases s; auto simp: core_type_def unions_def inner_def allOf_list_def split: option.splits stype.splits list.splits)+

lemma guarded_step:
  assumes "guarded K D S" "s \<in> set S"
  shows "shallow K D s" "deref D (deref D s) = deref D s" "set (unions (deref D s)) \<subseteq> set S" "set (inner (deref D s)) \<subseteq> set S"
  using assms by (auto simp: guarded_def list_all_iff)

lemma coreOf_returns:
  assumes g: "guarded K D S"
  shows "s \<in> set S \<Longrightarrow> shallow (Suc k) D s \<Longrightarrow> Suc k \<le> n \<Longrightarrow>
    \<exists>c. coreOf n D (deref D s) = Some c \<and> set (unions c @ inner c) \<subseteq> set S \<and> (\<forall>t \<in> set (unions c). shallow k D t)"
proof (induction n arbitrary: s k)
  case (Suc n)
  note d = guarded_step [OF g Suc.prems(1)]
  have sh: "\<forall>t \<in> set (unions (deref D s)). shallow k D t" using Suc.prems(2) by (simp add: list_all_iff)
  have rec: ?case if t: "t \<in> set (unions (deref D s))" and eq: "coreOf (Suc n) D (deref D s) = coreOf n D (deref D t)" for t
  proof -
    obtain j where j: "k = Suc j" using bspec [OF sh t] by (cases k) auto
    obtain c where "coreOf n D (deref D t) = Some c" "set (unions c @ inner c) \<subseteq> set S" "\<forall>u \<in> set (unions c). shallow j D u"
      using Suc.IH [of t j] t d(3) sh Suc.prems(3) j by auto
    then show ?thesis using eq j shallow_mono [of j D _ k] by auto
  qed
  have fin: ?case if "coreOf (Suc n) D (deref D s) = Some (core_type (deref D s))"
    using that d sh by (auto simp: core_type_same)
  show ?case
  proof (cases "\<exists>x y. anyOf (deref D s) = Some [x, y]")
    case True
    then obtain x y where xy: "anyOf (deref D s) = Some [x, y]" by blast
    then have "x \<in> set (unions (deref D s))" "y \<in> set (unions (deref D s))" by (auto simp: unions_def)
    then show ?thesis using rec [of x] rec [of y] fin xy d(2)
      by (cases "isNullSchema (deref D x)"; cases "isNullSchema (deref D y)") (auto simp: Let_def)
  next
    case False
    then show ?thesis using fin d(2) by (auto simp: Let_def split: option.splits list.splits)
  qed
qed simp


lemma all_checks_returns: "None \<notin> set cs \<Longrightarrow> \<exists>r. all_checks cs = Some r"
  by (induction cs rule: all_checks.induct) (auto split: option.splits)

lemma first_match_returns: "(\<And>s. s \<in> set ss \<Longrightarrow> \<exists>r. f s = Some r) \<Longrightarrow> \<exists>r. first_match f ss = Some r"
proof (induction ss)
  case (Cons s ss)
  obtain r m where "f s = Some r" "first_match f ss = Some m" using Cons by force
  then show ?case by (cases r) simp
qed simp

lemma in_item_checks: "x \<in> set (item_checks f c vs p) \<longleftrightarrow>
    (\<exists>s k. items_of c = Some s \<and> k < length vs \<and> x = f s (vs ! k) (p @ [KIdx k]))"
  by (cases "items_of c") (auto simp: item_checks_def)

lemma node_checks_returns:
  assumes f: "\<And>s w q. (s, w) \<in> set (parts c v) \<Longrightarrow> f s w q \<noteq> None"
  shows "None \<notin> set (node_checks R f c v p)"
proof (cases v)
  case (JArr vs)
  have "f s (vs ! k) q \<noteq> None" if "items_of c = Some s" "k < length vs" for s k q
    using that by (intro f) (auto simp: JArr in_parts)
  then have "None \<notin> set (item_checks f c vs p)"
    unfolding in_item_checks by metis
  then show ?thesis by (auto simp: JArr node_checks_def)
next
  case (JObj kvs)
  have "member_check f c p kv \<noteq> None" if "kv \<in> set kvs" for kv
    using f that by (cases kv) (fastforce simp: JObj in_parts member_check_def split: addl.splits)
  then show ?thesis by (force simp: JObj node_checks_def)
qed (auto simp: node_checks_def)

lemma size_member: "(k, w) \<in> set kvs \<Longrightarrow> size w < size (JObj kvs)"
  by (induction kvs) auto

lemma parts_inner: "(s, w) \<in> set (parts c v) \<Longrightarrow> s \<in> set (inner c) \<and> size w < size v"
  unfolding in_parts
proof (elim disjE exE conjE)
  fix vs assume "v = JArr vs" "w \<in> set vs" "items_of c = Some s"
  then show ?thesis using size_list_estimation' [of w vs "size w" size] by (simp add: inner_def)
next
  fix kvs k assume v: "v = JObj kvs" "(k, w) \<in> set kvs" "member_rule c k = AddlSchema s"
  then have "s \<in> set (inner c)" by (force simp: member_rule_def inner_def split: option.splits if_splits dest: map_of_SomeD)
  then show ?thesis using size_member [OF v(2)] v(1) by simp
qed

lemma checkNode_returns:
  assumes g: "guarded K D S"
  shows "s \<in> set S \<Longrightarrow> shallow k D s \<Longrightarrow> Suc K * size v + k < n \<Longrightarrow> \<exists>r. checkNode n R D s v p = Some r"
proof (induction n arbitrary: s v p k)
  case (Suc n)
  show ?case
  proof (cases "nullish v")
    case False
    obtain j where j: "k = Suc j" using Suc.prems(2) by (cases k) auto
    obtain c where c: "coreOf n D (deref D s) = Some c" and u: "\<forall>t \<in> set (unions c). t \<in> set S \<and> shallow j D t"
      and i: "set (inner c) \<subseteq> set S"
      using coreOf_returns [OF g Suc.prems(1), of j n] Suc.prems(2,3) j by auto
    have union: "\<exists>r. checkNode n R D t v p = Some r" if "t \<in> set (unions c)" for t
      using Suc.IH [of t j v p] u that Suc.prems(3) j by auto
    have part: "checkNode n R D t w q \<noteq> None" if "(t, w) \<in> set (parts c v)" for t w q
    proof -
      have t: "t \<in> set S" "size w < size v" using parts_inner [OF that] i by auto
      have "Suc K * Suc (size w) \<le> Suc K * size v" using t(2) by (intro mult_le_mono2) simp
      then show ?thesis using Suc.IH [OF t(1) guarded_step(1) [OF g t(1)], of w q] Suc.prems(3) by fastforce
    qed
    show ?thesis
    proof (cases "variants_of c")
      case (Some vs)
      then have vs: "set vs \<subseteq> set (unions c)" by (auto simp: variants_of_def unions_def split: option.splits)
      then obtain m where m: "first_match (\<lambda>s. checkNode n R D s v p) vs = Some m"
        using first_match_returns [of vs "\<lambda>s. checkNode n R D s v p"] union by blast
      then show ?thesis using checkNode_union [OF False c Some, of R p] first_match_in by (cases m) fastforce+
    next
      case None
      have "\<exists>r. all_checks (map (\<lambda>s. checkNode n R D s v p) (allOf_list c)) = Some r"
        by (rule all_checks_returns) (use union in \<open>force simp: unions_def\<close>)
      moreover have "\<exists>r. all_checks (node_checks R (checkNode n R D) c v p) = Some r"
        by (rule all_checks_returns, rule node_checks_returns) (rule part)
      ultimately show ?thesis using False c None by (auto split: option.splits)
    qed
  qed auto
qed simp


section \<open>Example\<close>

text \<open>A tree of nodes: a schema that refers to itself below a member and in an optional field, as \<open>BodySchema\<close> does.\<close>

definition ref_to :: "string \<Rightarrow> schema" where
  "ref_to r = Schema (Some (''#/$defs/'' @ r)) None None None None None None no_bounds None None None AddlAny None"

definition null_schema :: schema where
  "null_schema = with_type ''null'' empty_schema"

definition opt_ref :: "string \<Rightarrow> schema" where
  "opt_ref r = Schema None None (Some [ref_to r, null_schema]) None None None None no_bounds None None None AddlAny None"

definition text_schema :: schema where
  "text_schema = Schema None (Some (TOne ''string'')) None None None None None (no_bounds\<lparr>minLength := Some 1\<rparr>) None None None AddlAny None"

definition node_schema :: schema where
  "node_schema = Schema None (Some (TOne ''object'')) None None None None None no_bounds None (Some [''name''])
     (Some [(''name'', text_schema), (''next'', opt_ref ''Node'')]) AddlFalse None"

definition node_defs :: defs where
  "node_defs = [(''Node'', node_schema)]"

definition node_all :: "schema list" where
  "node_all = [ref_to ''Node'', opt_ref ''Node'', null_schema, text_schema, node_schema]"

definition good_node :: jv where
  "good_node = JObj [(''name'', JStr ''a''), (''next'', JObj [(''name'', JStr ''b''), (''next'', JNull)])]"

definition bad_node :: jv where
  "bad_node = JObj [(''name'', JStr ''a''), (''next'', JObj [(''nam'', JStr ''b'')])]"

lemma node_guarded: "guarded 3 node_defs node_all"
  by code_simp

lemma node_verdicts:
  "checkNode 9 (\<lambda>_ _. None) node_defs (ref_to ''Node'') good_node [] = Some (True, [])"
  "map_option (\<lambda>(b, xs). (b, map ipath xs)) (checkNode 9 (\<lambda>_ _. None) node_defs (ref_to ''Node'') bad_node []) =
     Some (False, [[KName ''next''], [KName ''next'', KName ''nam'']])"
  by code_simp+

text \<open>A definition that is a union with itself sends the code into an endless recursion.\<close>

definition self_union :: schema where
  "self_union = Schema None None (Some [ref_to ''A'']) None None None None no_bounds None None None AddlAny None"

lemma self_union_core: "coreOf n [(''A'', self_union)] self_union = (if n = 0 then None else Some self_union)"
proof (cases n)
  case (Suc m)
  have "deref [(''A'', self_union)] self_union = self_union" by code_simp
  then show ?thesis by (simp add: Suc self_union_def core_type_def)
qed simp

lemma self_union_diverges: "s \<in> {self_union, ref_to ''A''} \<Longrightarrow> checkNode n R [(''A'', self_union)] s (JStr x) p = None"
proof (induction n arbitrary: s)
  case (Suc n)
  have d: "deref [(''A'', self_union)] self_union = self_union" "deref [(''A'', self_union)] (ref_to ''A'') = self_union" by code_simp+
  have v: "variants_of self_union = Some [ref_to ''A'']" by code_simp
  show ?case
  proof (cases "n = 0")
    case False
    then show ?thesis using checkNode_union [of "JStr x" n _ s self_union] d v Suc self_union_core by (auto simp: nullish_def)
  qed (use Suc.prems d in \<open>auto simp: nullish_def\<close>)
qed simp

section \<open>Properties\<close>



text \<open>
  C21. The validator returns on every document when the schemas in use refer to themselves only below members or items:
  from fuel \<open>(K + 1) * size v + K + 1\<close> on the answer is there and more fuel does not change it.
\<close>

theorem checkNode_terminates:
  assumes "guarded K D S" and "s \<in> set S"
  shows "\<exists>r. \<forall>n > Suc K * size v + K. checkNode n R D s v p = Some r"
proof -
  let ?n = "Suc (Suc K * size v + K)"
  obtain r where "checkNode ?n R D s v p = Some r"
    using checkNode_returns [OF assms guarded_step(1) [OF assms], of v ?n R p] by auto
  then show ?thesis using checkNode_mono [of ?n _ R D s v p r] by (intro exI [of _ r] allI impI) simp
qed

theorem checkNode_terminates_witness:
  "\<exists>r. \<forall>n > 4 * size bad_node + 3. checkNode n (\<lambda>_ _. None) node_defs (ref_to ''Node'') bad_node [] = Some r"
proof -
  have "ref_to ''Node'' \<in> set node_all" by (simp add: node_all_def)
  from checkNode_terminates [OF node_guarded this] show ?thesis by simp
qed

end
