(* ===== verification/Studio_Issues.thy ===== *)
theory Studio_Issues
  imports Studio_Check "HOL-Library.Monad_Syntax"
begin

text \<open>
  The issues of a configuration in config studio: \<open>validateAll\<close>, which adds to the schema's issues the references between the
  sections, the prefix that matches everything and two advisories, and \<open>applyYaml\<close>, which replaces the document by an
  edited text. \<open>None\<close> is a \<open>TypeError\<close>; the lists of a document that is a tree are different objects.
\<close>

section \<open>Reports\<close>

datatype severity = Error | Warning

record report = issue +
  severity :: severity

definition mk_report :: "severity \<Rightarrow> key list \<Rightarrow> string \<Rightarrow> report" where
  "mk_report v p t = \<lparr>ipath = p, imsg = t, severity = v\<rparr>"

text \<open>\<open>x.severity = x.severity || "error"\<close>.\<close>

definition as_error :: "issue \<Rightarrow> report" where
  "as_error x = mk_report Error (ipath x) (imsg x)"

section \<open>Lists of the document\<close>

text \<open>\<open>(v || []).forEach\<close>: the elements.\<close>

definition list_or :: "jv \<Rightarrow> jv list option" where
  "list_or v = (if truthy v then js_elems v else Some [])"

fun collect :: "'a list option list \<Rightarrow> 'a list option" where
  "collect [] = Some []"
| "collect (x # xs) = do { a \<leftarrow> x; b \<leftarrow> collect xs; Some (a @ b) }"

definition each :: "(nat \<Rightarrow> jv \<Rightarrow> 'a list option) \<Rightarrow> jv \<Rightarrow> 'a list option" where
  "each f v = do { vs \<leftarrow> list_or v; collect (map (\<lambda>i. f i (vs ! i)) [0 ..< length vs]) }"

definition entry_name :: "jv \<Rightarrow> string option" where
  "entry_name e = (if truthy e \<and> js_typeof e = ''object''
     then (case js_get e ''name'' of Some (JStr n) \<Rightarrow> Some n | _ \<Rightarrow> None) else None)"

text \<open>\<open>s[e.name] = true\<close> on a plain object; the setter behind \<open>__proto__\<close> ignores it.\<close>

definition add_name :: "(string \<times> bool) list \<Rightarrow> jv \<Rightarrow> (string \<times> bool) list" where
  "add_name d e = (case entry_name e of None \<Rightarrow> d | Some n \<Rightarrow> if n = ''__proto__'' then d else obj_set n True d)"

definition nameSet :: "jv \<Rightarrow> (string \<times> bool) list option" where
  "nameSet arr = map_option (foldl add_name []) (list_or arr)"

text \<open>\<open>set[name]\<close> as a condition: what every object inherits is there, too.\<close>

definition known :: "(string \<times> bool) list \<Rightarrow> string \<Rightarrow> bool" where
  "known d n = (n \<in> fst ` set d \<or> n \<in> set object_proto)"

section \<open>References\<close>

definition in_quotes :: "string \<Rightarrow> string" where
  "in_quotes s = [CHR 0x27] @ s @ [CHR 0x27]"

definition names_or_none :: "(string \<times> bool) list \<Rightarrow> string" where
  "names_or_none d = (let t = js_join '', '' (map fst d) in if t = [] then ''none'' else t)"

text \<open>\<open>r && typeof r[k] === "string" && !set[r[k]]\<close>, for a route's service and a service's upstream.\<close>

definition name_ref :: "string \<Rightarrow> string \<Rightarrow> (string \<times> bool) list \<Rightarrow> key list \<Rightarrow> jv \<Rightarrow> report list" where
  "name_ref k sec d p r = (case js_and_get r k of
       Some (JStr n) \<Rightarrow> if truthy r \<and> \<not> known d n
         then [mk_report Error (p @ [KName k]) (''references '' @ k @ '' '' @ in_quotes n @ '' which does not exist ('' @ sec @ ''[] names: '' @ names_or_none d @ '')'')]
         else []
     | _ \<Rightarrow> [])"

definition policy_ref :: "(string \<times> bool) list \<Rightarrow> key list \<Rightarrow> nat \<Rightarrow> jv \<Rightarrow> report list" where
  "policy_ref P p j x = (if known P (js_string x) then []
     else [mk_report Error (p @ [KName ''policies'', KIdx j]) (''references policy '' @ in_quotes (js_string x) @ '' which does not exist'')])"

text \<open>\<open>(e && e.policies || []).forEach\<close>.\<close>

definition policy_refs :: "(string \<times> bool) list \<Rightarrow> key list \<Rightarrow> jv \<Rightarrow> report list option" where
  "policy_refs P p e = do { ps \<leftarrow> js_and_get e ''policies''; each (\<lambda>j x. Some (policy_ref P p j x)) ps }"

definition route_refs :: "(string \<times> bool) list \<Rightarrow> (string \<times> bool) list \<Rightarrow> nat \<Rightarrow> jv \<Rightarrow> report list option" where
  "route_refs S P i r = map_option (append (name_ref ''service'' ''services'' S [KName ''routes'', KIdx i] r))
     (policy_refs P [KName ''routes'', KIdx i] r)"

definition service_refs :: "(string \<times> bool) list \<Rightarrow> (string \<times> bool) list \<Rightarrow> nat \<Rightarrow> jv \<Rightarrow> report list option" where
  "service_refs U P i s = map_option (append (name_ref ''upstream'' ''upstreams'' U [KName ''services'', KIdx i] s))
     (policy_refs P [KName ''services'', KIdx i] s)"

definition model_ref :: "(string \<times> bool) list \<Rightarrow> jv \<Rightarrow> string \<Rightarrow> report list option" where
  "model_ref V ms a = do { m \<leftarrow> js_get ms a; prov \<leftarrow> js_and_get m ''provider'';
     Some (case prov of JStr n \<Rightarrow> if known V n then []
         else [mk_report Error [KName ''ai'', KName ''models'', KName a, KName ''provider''] (''references ai.providers entry '' @ in_quotes n @ '' which does not exist'')]
       | _ \<Rightarrow> []) }"

definition model_refs :: "jv \<Rightarrow> report list option" where
  "model_refs doc = do { ai \<leftarrow> js_get doc ''ai''; ms \<leftarrow> js_and_get ai ''models'';
     if truthy ms \<and> js_typeof ms = ''object'' \<and> \<not> is_array ms
     then do { V \<leftarrow> js_get ai ''providers'' \<bind> nameSet; ks \<leftarrow> object_keys ms; collect (map (model_ref V ms) ks) }
     else Some [] }"

section \<open>Prefixes and advisories\<close>

text \<open>\<open>String(mp.value || "").replace(/\/+$/, "") === ""\<close>.\<close>

definition only_slashes :: "string \<Rightarrow> bool" where
  "only_slashes t = list_all (\<lambda>c. c = CHR ''/'') t"

definition prefix_check :: "nat \<Rightarrow> jv \<Rightarrow> report list option" where
  "prefix_check i r = do { m \<leftarrow> js_and_get r ''match''; mp \<leftarrow> js_and_get m ''path'';
     if truthy mp \<and> js_typeof mp = ''object'' then do { t \<leftarrow> js_get mp ''type''; x \<leftarrow> js_get mp ''value'';
       Some (if t = JStr ''prefix'' \<and> only_slashes (js_string (js_or x (JStr [])))
         then [mk_report Error [KName ''routes'', KIdx i, KName ''match'', KName ''path'', KName ''value'']
            (''prefix '' @ in_quotes (js_string x) @ '' would match every path (Dwara rejects it); use type: regex with value: /.* instead'')]
         else []) }
     else Some [] }"

definition route_advice :: "jv \<Rightarrow> nat \<Rightarrow> jv \<Rightarrow> report list option" where
  "route_advice doc i r = (if truthy r then do { a \<leftarrow> js_get r ''auth_required''; ps \<leftarrow> js_get r ''policies'';
       l \<leftarrow> js_get (js_or ps (JArr [])) ''length''; g \<leftarrow> js_get doc ''global_policies'';
       Some (if \<not> truthy a \<and> \<not> truthy l \<and> \<not> truthy g
         then [mk_report Warning [KName ''routes'', KIdx i] ''public route without auth_required or an attached rate-limit policy''] else []) }
     else Some [])"

definition listener_advice :: "nat \<Rightarrow> jv \<Rightarrow> report list option" where
  "listener_advice i l = (if truthy l then do { pr \<leftarrow> js_get l ''protocol''; a \<leftarrow> js_get l ''address''; t \<leftarrow> js_get l ''tls'';
       m \<leftarrow> js_get (js_or t (JObj [])) ''mode'';
       Some (if (\<not> truthy pr \<or> pr = JStr ''http'') \<and> (a = JStr ''0.0.0.0'' \<or> a = JStr ''::'') \<and> \<not> truthy m
         then [mk_report Warning [KName ''listeners'', KIdx i] ''plaintext listener bound on all interfaces - fine for dev, consider TLS for production''] else []) }
     else Some [])"

section \<open>validateAll\<close>

definition cross_checks :: "jv \<Rightarrow> report list option" where
  "cross_checks doc = do {
     S \<leftarrow> js_get doc ''services'' \<bind> nameSet; U \<leftarrow> js_get doc ''upstreams'' \<bind> nameSet;
     P \<leftarrow> js_get doc ''policies'' \<bind> nameSet; C \<leftarrow> js_get doc ''consumers'' \<bind> nameSet;
     a \<leftarrow> js_get doc ''routes'' \<bind> each (route_refs S P);
     b \<leftarrow> js_get doc ''services'' \<bind> each (service_refs U P);
     c \<leftarrow> js_get doc ''listeners'' \<bind> each (\<lambda>i. policy_refs P [KName ''listeners'', KIdx i]);
     d \<leftarrow> js_get doc ''consumers'' \<bind> each (\<lambda>i. policy_refs P [KName ''consumers'', KIdx i]);
     m \<leftarrow> model_refs doc;
     p \<leftarrow> js_get doc ''routes'' \<bind> each prefix_check;
     v \<leftarrow> js_get doc ''routes'' \<bind> each (route_advice doc);
     w \<leftarrow> js_get doc ''listeners'' \<bind> each listener_advice;
     Some (a @ b @ c @ d @ m @ p @ v @ w) }"

text \<open>The outer \<open>None\<close> means that the fuel of \<open>checkNode\<close> ran out, the inner one a \<open>TypeError\<close>.\<close>

definition validateAll :: "nat \<Rightarrow> (string \<Rightarrow> string \<Rightarrow> bool option) \<Rightarrow> defs \<Rightarrow> schema \<Rightarrow> jv \<Rightarrow> report list option option" where
  "validateAll n R D sch doc = (case checkNode n R D sch doc [] of None \<Rightarrow> None
     | Some (_, xs) \<Rightarrow> Some (map_option (append (map as_error xs)) (cross_checks doc)))"

section \<open>Specification\<close>

text \<open>A reading of the document without order: the elements of a list field, and the names a section offers.\<close>

definition sub :: "jv \<Rightarrow> string \<Rightarrow> jv" where
  "sub v k = getPath [KName k] v"

definition elems :: "jv \<Rightarrow> jv set" where
  "elems v = (case v of JArr vs \<Rightarrow> set vs | _ \<Rightarrow> {})"

definition offers :: "jv \<Rightarrow> string \<Rightarrow> bool" where
  "offers sec n = ((\<exists>e \<in> elems sec. js_typeof e = ''object'' \<and> sub e ''name'' = JStr n) \<or> n \<in> set object_proto)"

definition policies_resolved :: "jv \<Rightarrow> string \<Rightarrow> bool" where
  "policies_resolved doc k = (\<forall>e \<in> elems (sub doc k). \<forall>x \<in> elems (sub e ''policies''). offers (sub doc ''policies'') (js_string x))"

definition names_resolved :: "jv \<Rightarrow> string \<Rightarrow> string \<Rightarrow> string \<Rightarrow> bool" where
  "names_resolved doc k f sec = (\<forall>e \<in> elems (sub doc k). \<forall>n. sub e f = JStr n \<longrightarrow> offers (sub doc sec) n)"

text \<open>The provider of an alias; the empty text in place of an entry counts as a name, too.\<close>

definition provider_of :: "jv \<Rightarrow> jv" where
  "provider_of m = (if m = JStr [] then m else sub m ''provider'')"

definition models_resolved :: "jv \<Rightarrow> bool" where
  "models_resolved doc = (\<forall>ms. sub (sub doc ''ai'') ''models'' = JObj ms \<longrightarrow>
     (\<forall>a m n. map_of ms a = Some m \<longrightarrow> provider_of m = JStr n \<longrightarrow> offers (sub (sub doc ''ai'') ''providers'') n))"

definition resolved :: "jv \<Rightarrow> bool" where
  "resolved doc = (names_resolved doc ''routes'' ''service'' ''services'' \<and> names_resolved doc ''services'' ''upstream'' ''upstreams'' \<and>
     (\<forall>k \<in> {''routes'', ''services'', ''listeners'', ''consumers''}. policies_resolved doc k) \<and> models_resolved doc)"

definition matches_every_path :: "jv \<Rightarrow> bool" where
  "matches_every_path r = (let mp = sub (sub r ''match'') ''path'' in
     sub mp ''type'' = JStr ''prefix'' \<and> only_slashes (js_string (js_or (sub mp ''value'') (JStr []))))"

text \<open>Where the code calls \<open>forEach\<close>, a value has to be a list or falsy.\<close>

definition listy :: "jv \<Rightarrow> bool" where
  "listy v = (\<not> truthy v \<or> is_array v)"

definition lists_ok :: "jv \<Rightarrow> bool" where
  "lists_ok doc = (\<not> nullish doc \<and>
     list_all (\<lambda>k. listy (sub doc k)) [''services'', ''upstreams'', ''policies'', ''consumers'', ''routes'', ''listeners''] \<and>
     list_all (\<lambda>k. \<forall>e \<in> elems (sub doc k). listy (sub e ''policies'')) [''routes'', ''services'', ''listeners'', ''consumers''] \<and>
     (\<forall>ms. sub (sub doc ''ai'') ''models'' = JObj ms \<longrightarrow> listy (sub (sub doc ''ai'') ''providers'')))"

section \<open>Laws\<close>

definition clean :: "report list \<Rightarrow> bool" where
  "clean ys = (\<forall>x \<in> set ys. severity x = Warning)"

lemma clean_simps [simp]: "clean []" "clean (xs @ ys) = (clean xs \<and> clean ys)" "\<not> clean [mk_report Error p t]" "clean [mk_report Warning p t]"
    "clean (map as_error is) = (is = [])"
  by (auto simp: clean_def mk_report_def as_error_def)

lemma collect_clean: "collect xs = Some ys \<Longrightarrow> clean ys \<longleftrightarrow> (\<forall>x \<in> set xs. \<forall>zs. x = Some zs \<longrightarrow> clean zs)"
  by (induction xs arbitrary: ys) (auto simp: bind_eq_Some_conv)

lemma collect_some: "collect xs = Some ys \<Longrightarrow> x \<in> set xs \<Longrightarrow> \<exists>zs. x = Some zs"
  by (induction xs arbitrary: ys) (auto simp: bind_eq_Some_conv)

lemma list_or_elems: "list_or v = Some vs \<Longrightarrow> set vs = elems v"
  by (cases v) (auto simp: list_or_def elems_def split: if_splits)

lemma each_some: "each f v = Some ys \<Longrightarrow>
    \<exists>vs. list_or v = Some vs \<and> collect (map (\<lambda>i. f i (vs ! i)) [0 ..< length vs]) = Some ys"
  by (cases "list_or v") (simp_all add: each_def)

lemma each_clean:
  assumes "each f v = Some ys" "\<And>i e zs. e \<in> elems v \<Longrightarrow> f i e = Some zs \<Longrightarrow> clean zs \<longleftrightarrow> Q e"
  shows "clean ys \<longleftrightarrow> (\<forall>e \<in> elems v. Q e)"
proof -
  obtain vs where vs: "list_or v = Some vs" "collect (map (\<lambda>i. f i (vs ! i)) [0 ..< length vs]) = Some ys"
    using each_some [OF assms(1)] by blast
  have el: "elems v = {vs ! i | i. i < length vs}" unfolding list_or_elems [OF vs(1), symmetric] by (rule set_conv_nth)
  have f: "\<exists>zs. f i (vs ! i) = Some zs \<and> (clean zs \<longleftrightarrow> Q (vs ! i))" if "i < length vs" for i
  proof -
    have "f i (vs ! i) \<in> set (map (\<lambda>i. f i (vs ! i)) [0 ..< length vs])" using that by simp
    then obtain zs where "f i (vs ! i) = Some zs" using collect_some [OF vs(2)] by blast
    moreover have "vs ! i \<in> elems v" using nth_mem [OF that] unfolding list_or_elems [OF vs(1)] .
    ultimately show ?thesis using assms(2) by blast
  qed
  have "(\<forall>zs. f i (vs ! i) = Some zs \<longrightarrow> clean zs) \<longleftrightarrow> Q (vs ! i)" if "i < length vs" for i
    using f [OF that] by auto
  then have "(\<forall>x \<in> set (map (\<lambda>i. f i (vs ! i)) [0 ..< length vs]). \<forall>zs. x = Some zs \<longrightarrow> clean zs) \<longleftrightarrow> (\<forall>i < length vs. Q (vs ! i))"
    by auto
  also have "\<dots> \<longleftrightarrow> (\<forall>e \<in> elems v. Q e)" unfolding el by blast
  finally show ?thesis unfolding collect_clean [OF vs(2)] .
qed

lemma entry_name_iff: "entry_name e = Some n \<longleftrightarrow> js_typeof e = ''object'' \<and> sub e ''name'' = JStr n"
  by (cases e) (auto simp: entry_name_def sub_def nullish_def split: option.splits jv.splits)

lemma obj_set_keys: "fst ` set (obj_set k x d) = insert k (fst ` set d)"
  using arg_cong [OF map_of_obj_set [of k x d], of dom] by (simp add: dom_map_of_conv_image_fst)

lemma known_foldl: "known (foldl add_name d es) n \<longleftrightarrow> known d n \<or> (\<exists>e \<in> set es. entry_name e = Some n)"
proof (induction es arbitrary: d)
  case (Cons e es)
  have "known (add_name d e) n \<longleftrightarrow> known d n \<or> entry_name e = Some n"
    by (auto simp: add_name_def known_def obj_set_keys object_proto_def split: option.splits)
  then show ?case by (auto simp: Cons.IH)
qed simp

lemma nameSet_known: "nameSet v = Some d \<Longrightarrow> known d n \<longleftrightarrow> offers v n"
  unfolding nameSet_def offers_def
  by (auto simp: known_foldl list_or_elems [symmetric] entry_name_iff known_def [of "[]"])

lemma js_get_sub: "\<not> nullish v \<Longrightarrow> js_get v k = Some (sub v k)"
  using js_get_None [of v k] by (auto simp: sub_def split: option.splits)

lemma and_get_sub: "js_and_get v k = Some (if truthy v then sub v k else v)"
  using js_get_sub [of v k] not_truthy_nullish [of v] by (auto simp: js_and_get_def)

lemma truthy_get: "truthy v \<Longrightarrow> js_get v k = Some (sub v k)"
  using js_get_sub not_truthy_nullish by blast

lemma sub_falsy: "\<not> truthy v \<Longrightarrow> sub v k = JUndef \<or> (\<exists>f. sub v k = JFun f) \<or> sub v k = jint 0"
  by (cases v rule: truthy.cases) (auto simp: sub_def nullish_def proto_read_def js_length_def)

lemma name_ref_clean:
  assumes "nameSet sec = Some d"
  shows "clean (name_ref k s d p r) \<longleftrightarrow> (\<forall>n. sub r k = JStr n \<longrightarrow> offers sec n)"
  using sub_falsy [of r k] nameSet_known [OF assms]
  by (cases "truthy r"; cases "sub r k"; cases r) (auto simp: name_ref_def and_get_sub)

lemma policy_refs_clean:
  assumes "nameSet sec = Some P" "policy_refs P p e = Some ys"
  shows "clean ys \<longleftrightarrow> (\<forall>x \<in> elems (sub e ''policies''). offers sec (js_string x))"
proof -
  have e: "each (\<lambda>j x. Some (policy_ref P p j x)) (if truthy e then sub e ''policies'' else e) = Some ys"
    using assms(2) by (simp add: policy_refs_def and_get_sub)
  have "clean ys \<longleftrightarrow> (\<forall>x \<in> elems (if truthy e then sub e ''policies'' else e). offers sec (js_string x))"
    by (rule each_clean [OF e]) (use nameSet_known [OF assms(1)] in \<open>auto simp: policy_ref_def split: if_splits\<close>)
  moreover have "elems (if truthy e then sub e ''policies'' else e) = elems (sub e ''policies'')"
    using sub_falsy [of e "''policies''"] by (cases e) (auto simp: elems_def)
  ultimately show ?thesis by simp
qed

lemma with_names_clean:
  assumes "nameSet sec = Some d" "nameSet pol = Some P" "map_option (append (name_ref k s d p r)) (policy_refs P p r) = Some ys"
  shows "clean ys \<longleftrightarrow> (\<forall>n. sub r k = JStr n \<longrightarrow> offers sec n) \<and> (\<forall>x \<in> elems (sub r ''policies''). offers pol (js_string x))"
  using assms(3) name_ref_clean [OF assms(1)] policy_refs_clean [OF assms(2)] by auto

lemma model_ref_eq: "map_of ms a = Some m \<Longrightarrow> model_ref V (JObj ms) a =
    Some (case (if truthy m then sub m ''provider'' else m) of JStr n \<Rightarrow> if known V n then []
         else [mk_report Error [KName ''ai'', KName ''models'', KName a, KName ''provider''] (''references ai.providers entry '' @ in_quotes n @ '' which does not exist'')]
       | _ \<Rightarrow> [])"
  by (simp add: model_ref_def and_get_sub)

lemma provider_of_eq: "((if truthy m then sub m ''provider'' else m) = JStr n) = (provider_of m = JStr n)"
  using sub_falsy [of m "''provider''"] by (cases m) (auto simp: provider_of_def)

lemma model_ref_clean:
  assumes "nameSet prov = Some V" "model_ref V (JObj ms) a = Some ys" "map_of ms a = Some m"
  shows "clean ys \<longleftrightarrow> (\<forall>n. provider_of m = JStr n \<longrightarrow> offers prov n)"
proof -
  let ?x = "if truthy m then sub m ''provider'' else m"
  have "clean ys \<longleftrightarrow> (\<forall>n. ?x = JStr n \<longrightarrow> known V n)"
    using assms(2) unfolding model_ref_eq [OF assms(3)] by (cases ?x) (auto split: if_splits)
  then show ?thesis unfolding provider_of_eq nameSet_known [OF assms(1)] .
qed


lemma models_value: "(if truthy a then sub a ''models'' else a) = JObj ms \<longleftrightarrow> sub a ''models'' = JObj ms"
  using sub_falsy [of a "''models''"] by (cases a) auto

lemma object_value: "truthy v \<and> js_typeof v = ''object'' \<and> \<not> is_array v \<longleftrightarrow> (\<exists>kvs. v = JObj kvs)"
  by (cases v) auto

lemma model_refs_eq:
  assumes "\<not> nullish doc"
  shows "model_refs doc = (case sub (sub doc ''ai'') ''models'' of
      JObj ms \<Rightarrow> do { V \<leftarrow> nameSet (sub (sub doc ''ai'') ''providers''); collect (map (model_ref V (JObj ms)) (map fst ms)) }
    | _ \<Rightarrow> Some [])"
proof (cases "\<exists>ms. sub (sub doc ''ai'') ''models'' = JObj ms")
  case True
  then obtain ms where ms: "sub (sub doc ''ai'') ''models'' = JObj ms" by blast
  then have t: "truthy (sub doc ''ai'')" using sub_falsy [of "sub doc ''ai''" "''models''"] by (cases "truthy (sub doc ''ai'')") auto
  then have "js_get (sub doc ''ai'') ''providers'' = Some (sub (sub doc ''ai'') ''providers'')"
    using js_get_sub not_truthy_nullish by blast
  then show ?thesis using t by (simp add: model_refs_def js_get_sub [OF assms] and_get_sub ms)
next
  case False
  let ?ms = "if truthy (sub doc ''ai'') then sub (sub doc ''ai'') ''models'' else sub doc ''ai''"
  have "\<not> (truthy ?ms \<and> js_typeof ?ms = ''object'' \<and> \<not> is_array ?ms)"
    unfolding object_value models_value using False by blast
  then have "model_refs doc = Some []" by (simp add: model_refs_def js_get_sub [OF assms] and_get_sub del: de_Morgan_conj)
  then show ?thesis using False by (auto split: jv.splits)
qed

lemma model_refs_clean:
  assumes "\<not> nullish doc" "model_refs doc = Some ys"
  shows "clean ys \<longleftrightarrow> models_resolved doc"
proof (cases "\<exists>ms. sub (sub doc ''ai'') ''models'' = JObj ms")
  case True
  then obtain ms V where ms: "sub (sub doc ''ai'') ''models'' = JObj ms"
    and V: "nameSet (sub (sub doc ''ai'') ''providers'') = Some V" "collect (map (model_ref V (JObj ms)) (map fst ms)) = Some ys"
    using assms(2) unfolding model_refs_eq [OF assms(1)] by (auto simp: bind_eq_Some_conv)
  have c: "clean ys \<longleftrightarrow> (\<forall>a \<in> fst ` set ms. \<forall>zs. model_ref V (JObj ms) a = Some zs \<longrightarrow> clean zs)"
    unfolding collect_clean [OF V(2)] by auto
  have m: "(\<forall>zs. model_ref V (JObj ms) a = Some zs \<longrightarrow> clean zs) \<longleftrightarrow> (\<forall>n. provider_of m = JStr n \<longrightarrow> offers (sub (sub doc ''ai'') ''providers'') n)"
    if "map_of ms a = Some m" for a m
    using model_ref_clean [OF V(1) _ that] model_ref_eq [OF that, of V] by blast
  have "fst ` set ms = {a. \<exists>m. map_of ms a = Some m}"
    using dom_map_of_conv_image_fst [of ms] by (simp add: dom_def)
  then have "clean ys \<longleftrightarrow> (\<forall>a m. map_of ms a = Some m \<longrightarrow> (\<forall>zs. model_ref V (JObj ms) a = Some zs \<longrightarrow> clean zs))"
    unfolding c by blast
  also have "\<dots> \<longleftrightarrow> (\<forall>a m. map_of ms a = Some m \<longrightarrow> (\<forall>n. provider_of m = JStr n \<longrightarrow> offers (sub (sub doc ''ai'') ''providers'') n))"
    using m by blast
  also have "\<dots> \<longleftrightarrow> models_resolved doc" unfolding models_resolved_def ms by simp
  finally show ?thesis .
next
  case False
  then show ?thesis using assms(2) unfolding model_refs_eq [OF assms(1)] by (auto simp: models_resolved_def split: jv.splits)
qed

lemma sub_thin:
  assumes "v = JUndef \<or> (\<exists>f. v = JFun f) \<or> v = jint 0"
  shows "sub v ''path'' = JUndef" "sub v ''type'' = JUndef"
  using assms by (auto simp: sub_def nullish_def proto_read_def function_proto_def number_proto_def object_proto_def)

lemma type_needs_object: "sub v ''type'' = JStr t \<Longrightarrow> \<exists>kvs. v = JObj kvs"
  by (cases v) (auto simp: sub_def nullish_def proto_read_def array_proto_def string_proto_def number_proto_def
      function_proto_def object_proto_def is_index_key_def is_digit_def split: if_splits)

lemma prefix_check_eq: "prefix_check i r = Some (if matches_every_path r
    then [mk_report Error [KName ''routes'', KIdx i, KName ''match'', KName ''path'', KName ''value'']
      (''prefix '' @ in_quotes (js_string (sub (sub (sub r ''match'') ''path'') ''value'')) @
       '' would match every path (Dwara rejects it); use type: regex with value: /.* instead'')] else [])"
proof -
  let ?m = "if truthy r then sub r ''match'' else r"
  let ?mp = "if truthy ?m then sub ?m ''path'' else ?m"
  have p: "prefix_check i r = (if truthy ?mp \<and> js_typeof ?mp = ''object'' then do { t \<leftarrow> js_get ?mp ''type''; x \<leftarrow> js_get ?mp ''value'';
       Some (if t = JStr ''prefix'' \<and> only_slashes (js_string (js_or x (JStr [])))
         then [mk_report Error [KName ''routes'', KIdx i, KName ''match'', KName ''path'', KName ''value'']
            (''prefix '' @ in_quotes (js_string x) @ '' would match every path (Dwara rejects it); use type: regex with value: /.* instead'')]
         else []) } else Some [])"
    by (simp add: prefix_check_def and_get_sub)
  show ?thesis
  proof (cases "truthy r \<and> truthy (sub r ''match'')")
    case True
    let ?x = "sub (sub r ''match'') ''path''"
    have "\<not> (truthy ?x \<and> js_typeof ?x = ''object'') \<Longrightarrow> \<not> matches_every_path r"
      unfolding matches_every_path_def Let_def using type_needs_object [of ?x] by auto
    then show ?thesis using True truthy_get [of ?x] unfolding p
      by (cases "truthy ?x \<and> js_typeof ?x = ''object''") (auto simp: matches_every_path_def Let_def)
  next
    case False
    then have np: "\<not> truthy ?mp" by auto
    have "sub (sub (sub r ''match'') ''path'') ''type'' = JUndef"
    proof (cases "truthy r")
      case True
      then have "\<not> truthy (sub r ''match'')" using False by blast
      from sub_thin(2) [OF sub_falsy [OF this]] show ?thesis .
    next
      case False
      from sub_thin(1) [OF sub_falsy [OF this, of "''match''"]] show ?thesis by (simp add: sub_thin)
    qed
    then show ?thesis using np unfolding p by (simp add: matches_every_path_def Let_def)
  qed
qed

lemma prefix_check_clean: "prefix_check i r = Some ys \<Longrightarrow> clean ys \<longleftrightarrow> \<not> matches_every_path r"
  unfolding prefix_check_eq by (auto split: if_splits)

lemma route_advice_clean: "route_advice doc i r = Some ys \<Longrightarrow> clean ys"
  by (auto simp: route_advice_def bind_eq_Some_conv split: if_splits)

lemma listener_advice_clean: "listener_advice i l = Some ys \<Longrightarrow> clean ys"
  by (auto simp: listener_advice_def bind_eq_Some_conv split: if_splits)

lemma cross_checks_clean:
  assumes "cross_checks doc = Some ys"
  shows "clean ys \<longleftrightarrow> resolved doc \<and> (\<forall>r \<in> elems (sub doc ''routes''). \<not> matches_every_path r)"
proof -
  have n: "\<not> nullish doc" using assms js_get_None [of doc] by (auto simp: cross_checks_def bind_eq_Some_conv)
  obtain S U P C a b c d m p v w where
    S: "nameSet (sub doc ''services'') = Some S" and U: "nameSet (sub doc ''upstreams'') = Some U" and P: "nameSet (sub doc ''policies'') = Some P"
    and a: "each (route_refs S P) (sub doc ''routes'') = Some a"
    and b: "each (service_refs U P) (sub doc ''services'') = Some b"
    and c: "each (\<lambda>i. policy_refs P [KName ''listeners'', KIdx i]) (sub doc ''listeners'') = Some c"
    and d: "each (\<lambda>i. policy_refs P [KName ''consumers'', KIdx i]) (sub doc ''consumers'') = Some d"
    and m: "model_refs doc = Some m" and p: "each prefix_check (sub doc ''routes'') = Some p"
    and v: "each (route_advice doc) (sub doc ''routes'') = Some v" and w: "each listener_advice (sub doc ''listeners'') = Some w"
    and ys: "ys = a @ b @ c @ d @ m @ p @ v @ w"
    using assms by (simp add: cross_checks_def js_get_sub [OF n] bind_eq_Some_conv) blast
  let ?pol = "\<lambda>e. \<forall>x \<in> elems (sub e ''policies''). offers (sub doc ''policies'') (js_string x)"
  have "clean a \<longleftrightarrow> (\<forall>e \<in> elems (sub doc ''routes''). (\<forall>n. sub e ''service'' = JStr n \<longrightarrow> offers (sub doc ''services'') n) \<and> ?pol e)"
    by (rule each_clean [OF a]) (use with_names_clean [OF S P] in \<open>simp add: route_refs_def\<close>)
  moreover have "clean b \<longleftrightarrow> (\<forall>e \<in> elems (sub doc ''services''). (\<forall>n. sub e ''upstream'' = JStr n \<longrightarrow> offers (sub doc ''upstreams'') n) \<and> ?pol e)"
    by (rule each_clean [OF b]) (use with_names_clean [OF U P] in \<open>simp add: service_refs_def\<close>)
  moreover have "clean c \<longleftrightarrow> (\<forall>e \<in> elems (sub doc ''listeners''). ?pol e)"
    by (rule each_clean [OF c]) (use policy_refs_clean [OF P] in simp)
  moreover have "clean d \<longleftrightarrow> (\<forall>e \<in> elems (sub doc ''consumers''). ?pol e)"
    by (rule each_clean [OF d]) (use policy_refs_clean [OF P] in simp)
  moreover have "clean m \<longleftrightarrow> models_resolved doc" by (rule model_refs_clean [OF n m])
  moreover have "clean p \<longleftrightarrow> (\<forall>r \<in> elems (sub doc ''routes''). \<not> matches_every_path r)"
    by (rule each_clean [OF p]) (rule prefix_check_clean)
  moreover have "clean v" using each_clean [OF v, of "\<lambda>_. True"] route_advice_clean by blast
  moreover have "clean w" using each_clean [OF w, of "\<lambda>_. True"] listener_advice_clean by blast
  ultimately show ?thesis
    unfolding ys clean_simps resolved_def names_resolved_def policies_resolved_def ball_simps ball_conj_distrib by argo
qed

section \<open>Where it throws\<close>

lemma list_or_total: "(\<exists>vs. list_or v = Some vs) \<longleftrightarrow> listy v"
  by (cases v) (auto simp: list_or_def listy_def)

lemma nameSet_total: "(\<exists>d. nameSet v = Some d) \<longleftrightarrow> listy v"
  by (simp add: nameSet_def list_or_total)

lemma collect_total: "None \<notin> set xs \<Longrightarrow> \<exists>ys. collect xs = Some ys"
proof (induction xs)
  case (Cons x xs)
  then show ?case by (cases x) auto
qed simp

lemma bind_total: "(\<exists>y. m \<bind> f = Some y) \<longleftrightarrow> (\<exists>x. m = Some x \<and> (\<exists>y. f x = Some y))"
  by (cases m) auto

lemma each_total:
  assumes "\<And>i e. e \<in> elems v \<Longrightarrow> (\<exists>zs. f i e = Some zs) \<longleftrightarrow> T e"
  shows "(\<exists>ys. each f v = Some ys) \<longleftrightarrow> listy v \<and> (\<forall>e \<in> elems v. T e)"
proof (cases "list_or v")
  case None
  then show ?thesis using list_or_total [of v] by (simp add: each_def)
next
  case (Some vs)
  then have l: "listy v" using list_or_total by blast
  have el: "elems v = set vs" using list_or_elems [OF Some] by simp
  have e: "each f v = collect (map (\<lambda>i. f i (vs ! i)) [0 ..< length vs])" by (simp add: each_def Some)
  show ?thesis
  proof
    assume "\<exists>ys. each f v = Some ys"
    then obtain ys where ys: "collect (map (\<lambda>i. f i (vs ! i)) [0 ..< length vs]) = Some ys" unfolding e by blast
    have "T (vs ! i)" if "i < length vs" for i
    proof -
      have "f i (vs ! i) \<in> set (map (\<lambda>i. f i (vs ! i)) [0 ..< length vs])" using that by simp
      then have "\<exists>zs. f i (vs ! i) = Some zs" by (rule collect_some [OF ys])
      then show ?thesis using assms [of "vs ! i" i] nth_mem [OF that] unfolding el by blast
    qed
    then show "listy v \<and> (\<forall>e \<in> elems v. T e)" using l unfolding el by (simp add: all_set_conv_all_nth)
  next
    assume "listy v \<and> (\<forall>e \<in> elems v. T e)"
    then have "f i (vs ! i) \<noteq> None" if "i < length vs" for i
      using assms [of "vs ! i" i] nth_mem [OF that] unfolding el by blast
    then show "\<exists>ys. each f v = Some ys" unfolding e by (intro collect_total) force
  qed
qed

lemma each_defined: "(\<And>i e. \<exists>zs. f i e = Some zs) \<Longrightarrow> (\<exists>ys. each f v = Some ys) \<longleftrightarrow> listy v"
  using each_total [of v f "\<lambda>_. True"] by simp

lemma policy_refs_total: "(\<exists>ys. policy_refs P p e = Some ys) \<longleftrightarrow> listy (sub e ''policies'')"
proof -
  have "listy (if truthy e then sub e ''policies'' else e) \<longleftrightarrow> listy (sub e ''policies'')"
    by (cases e) (auto simp: listy_def sub_def nullish_def proto_read_def string_proto_def number_proto_def object_proto_def)
  moreover have "(\<exists>ys. each (\<lambda>j x. Some (policy_ref P p j x)) (if truthy e then sub e ''policies'' else e) = Some ys) \<longleftrightarrow>
      listy (if truthy e then sub e ''policies'' else e)"
    by (rule each_defined) simp
  ultimately show ?thesis by (simp add: policy_refs_def and_get_sub)
qed

lemma route_advice_total: "\<not> nullish doc \<Longrightarrow> \<exists>ys. route_advice doc i r = Some ys"
  by (cases "truthy (sub r ''policies'')") (simp_all add: route_advice_def truthy_get js_get_sub)

lemma listener_advice_total: "\<exists>ys. listener_advice i l = Some ys"
  by (cases "truthy (sub l ''tls'')") (simp_all add: listener_advice_def truthy_get)

lemma model_refs_total:
  assumes "\<not> nullish doc"
  shows "(\<exists>ys. model_refs doc = Some ys) \<longleftrightarrow> (\<forall>ms. sub (sub doc ''ai'') ''models'' = JObj ms \<longrightarrow> listy (sub (sub doc ''ai'') ''providers''))"
proof (cases "sub (sub doc ''ai'') ''models''")
  case (JObj ms)
  have "model_ref V (JObj ms) a \<noteq> None" for V a by (simp add: model_ref_def and_get_sub)
  then have "\<exists>ys. collect (map (model_ref V (JObj ms)) (map fst ms)) = Some ys" for V
    by (intro collect_total) (auto simp: eq_commute [of None] simp del: not_None_eq)
  then show ?thesis unfolding model_refs_eq [OF assms] using nameSet_total [of "sub (sub doc ''ai'') ''providers''"]
    by (auto simp: JObj bind_eq_Some_conv)
qed (simp_all add: model_refs_eq [OF assms])

lemma cross_checks_total: "(\<exists>ys. cross_checks doc = Some ys) \<longleftrightarrow> lists_ok doc"
proof (cases "nullish doc")
  case True
  then show ?thesis using js_get_None [of doc] by (simp add: cross_checks_def lists_ok_def)
next
  case n: False
  let ?pol = "\<lambda>e. listy (sub e ''policies'')"
  have 1: "(\<exists>a. each (route_refs S P) v = Some a) \<longleftrightarrow> listy v \<and> (\<forall>e \<in> elems v. ?pol e)"
    "(\<exists>a. each (service_refs S P) v = Some a) \<longleftrightarrow> listy v \<and> (\<forall>e \<in> elems v. ?pol e)"
    "(\<exists>a. each (\<lambda>i. policy_refs P [KName k, KIdx i]) v = Some a) \<longleftrightarrow> listy v \<and> (\<forall>e \<in> elems v. ?pol e)" for S P v k
    by (rule each_total, simp add: route_refs_def service_refs_def policy_refs_total)+
  have 2: "(\<exists>a. each prefix_check v = Some a) \<longleftrightarrow> listy v" "(\<exists>a. each (route_advice doc) v = Some a) \<longleftrightarrow> listy v"
    "(\<exists>a. each listener_advice v = Some a) \<longleftrightarrow> listy v" for v
    by (rule each_defined, simp add: prefix_check_eq route_advice_total [OF n] listener_advice_total)+
  have "(\<exists>ys. cross_checks doc = Some ys) \<longleftrightarrow>
     (\<exists>S U P. nameSet (sub doc ''services'') = Some S \<and> nameSet (sub doc ''upstreams'') = Some U \<and> nameSet (sub doc ''policies'') = Some P \<and>
        (\<exists>C. nameSet (sub doc ''consumers'') = Some C) \<and> (\<exists>a. each (route_refs S P) (sub doc ''routes'') = Some a) \<and>
        (\<exists>b. each (service_refs U P) (sub doc ''services'') = Some b) \<and>
        (\<exists>c. each (\<lambda>i. policy_refs P [KName ''listeners'', KIdx i]) (sub doc ''listeners'') = Some c) \<and>
        (\<exists>d. each (\<lambda>i. policy_refs P [KName ''consumers'', KIdx i]) (sub doc ''consumers'') = Some d) \<and>
        (\<exists>m. model_refs doc = Some m) \<and> (\<exists>p. each prefix_check (sub doc ''routes'') = Some p) \<and>
        (\<exists>v. each (route_advice doc) (sub doc ''routes'') = Some v) \<and> (\<exists>w. each listener_advice (sub doc ''listeners'') = Some w))"
    by (simp add: cross_checks_def js_get_sub [OF n] bind_total)
  also have "\<dots> \<longleftrightarrow> lists_ok doc"
    unfolding 1 2 model_refs_total [OF n] nameSet_total lists_ok_def using n nameSet_total by (auto)
  finally show ?thesis .
qed

section \<open>Status line and applied text\<close>

text \<open>
  The schema of the page with its definitions, the engine for patterns, a list of all schemas in use and the depth of their
  unions. The fuel is the one for which \<open>checkNode_returns\<close> gives an answer on every document.
\<close>

record studio_env =
  rx :: "string \<Rightarrow> string \<Rightarrow> bool option"
  sdefs :: defs
  schema_root :: schema
  all_schemas :: "schema list"
  depth :: nat

definition env_ok :: "studio_env \<Rightarrow> bool" where
  "env_ok E = (guarded (depth E) (sdefs E) (all_schemas E) \<and> schema_root E \<in> set (all_schemas E))"

definition validate :: "studio_env \<Rightarrow> jv \<Rightarrow> report list option option" where
  "validate E d = validateAll (Suc (Suc (depth E) * size d + depth E)) (rx E) (sdefs E) (schema_root E) d"

record page =
  work :: studio
  lastIssues :: "report list"
  alerts :: "string list"
  selIdx :: int
  yamlDirty :: bool
  editing :: bool

definition alert :: "string \<Rightarrow> page \<Rightarrow> page" where
  "alert t pg = pg\<lparr>alerts := alerts pg @ [t]\<rparr>"

definition count :: "severity \<Rightarrow> report list \<Rightarrow> nat" where
  "count v xs = length (filter (\<lambda>x. severity x = v) xs)"

definition status_text :: "report list \<Rightarrow> string" where
  "status_text xs = (let e = count Error xs; w = length xs - e in
     if e \<noteq> 0 then nat_str e @ '' error(s), '' @ nat_str w @ '' warning(s) - click for details''
     else if w \<noteq> 0 then ''valid, with '' @ nat_str w @ '' warning(s) - click for details'' else ''valid config'')"

definition renderStatus :: "studio_env \<Rightarrow> page \<Rightarrow> page option" where
  "renderStatus E pg = (case validate E (sdoc (work pg)) of Some (Some xs) \<Rightarrow> Some (pg\<lparr>lastIssues := xs\<rparr>) | _ \<Rightarrow> None)"

text \<open>
  \<open>render()\<close>: the status line first; \<open>rest\<close> stands for the drawing of sidebar, form and text, and is the message of what it
  throws, if it throws. \<open>te\<close> is the engine's message of a \<open>TypeError\<close>.
\<close>

definition render_studio :: "studio_env \<Rightarrow> (page \<Rightarrow> string option) \<Rightarrow> string \<Rightarrow> page \<Rightarrow> page \<times> string option" where
  "render_studio E rest te pg = (case renderStatus E pg of None \<Rightarrow> (pg, Some te) | Some pg' \<Rightarrow> (pg', rest pg'))"

text \<open>\<open>applyYaml\<close>; \<open>load\<close> is the YAML library. Leaving the editor repeats a drawing that has just succeeded.\<close>

definition applyYaml :: "studio_env \<Rightarrow> (string \<Rightarrow> string + jv) \<Rightarrow> (page \<Rightarrow> string option) \<Rightarrow> string \<Rightarrow> string \<Rightarrow> page \<Rightarrow> page" where
  "applyYaml E load rest te text pg = (case load text of
       Inl e \<Rightarrow> alert (''YAML parse error:'' @ [CHR 0x0A] @ e) pg
     | Inr v \<Rightarrow> let p = (if nullish v then JObj [] else v) in
         if js_typeof p \<noteq> ''object'' \<or> is_array p then alert ''Top level must be a YAML mapping.'' pg
         else case render_studio E rest te (pg\<lparr>work := persist ((work pg)\<lparr>sdoc := p\<rparr>), selIdx := -1, yamlDirty := False\<rparr>) of
             (pg', Some e) \<Rightarrow> alert (''YAML parse error:'' @ [CHR 0x0A] @ e) pg'
           | (pg', None) \<Rightarrow> pg'\<lparr>editing := False\<rparr>)"

text \<open>Start-up: the stored document, then the first \<open>render()\<close>.\<close>

definition boot_studio :: "string option \<Rightarrow> page" where
  "boot_studio saved = \<lparr>work = \<lparr>sdoc = load_doc saved, saveDue = False, stored = saved\<rparr>, lastIssues = [], alerts = [], selIdx = -1,
     yamlDirty = False, editing = False\<rparr>"

lemma validate_answers: "env_ok E \<Longrightarrow> \<exists>xs. validate E d = Some (map_option (append (map as_error xs)) (cross_checks d)) \<and>
    (xs = []) = conforms (rx E) (sdefs E) (schema_root E) d"
proof -
  let ?n = "Suc (Suc (depth E) * size d + depth E)"
  assume ok: "env_ok E"
  then have g: "guarded (depth E) (sdefs E) (all_schemas E)" and r: "schema_root E \<in> set (all_schemas E)" by (auto simp: env_ok_def)
  obtain b xs where "checkNode ?n (rx E) (sdefs E) (schema_root E) d [] = Some (b, xs)"
    using checkNode_returns [OF g r guarded_step(1) [OF g r], of d ?n "rx E" "[]"] by fastforce
  then show ?thesis
    using accepted_conforms [of ?n] conforms_accepted [of "rx E" "sdefs E" "schema_root E" d ?n] checkNode_sound [of ?n]
    by (fastforce simp: validate_def validateAll_def sound_def)
qed

lemma drawn_iff: "env_ok E \<Longrightarrow> (\<exists>pg'. renderStatus E pg = Some pg') \<longleftrightarrow> lists_ok (sdoc (work pg))"
  using validate_answers [of E "sdoc (work pg)"] cross_checks_total [of "sdoc (work pg)"]
  by (auto simp: renderStatus_def split: option.splits)

section \<open>Example\<close>

text \<open>A schema of the shape of the gateway's: an object whose sections are lists of objects.\<close>

definition entry_schema :: schema where
  "entry_schema = with_type ''object'' empty_schema"

definition section_schema :: schema where
  "section_schema = Schema None (Some (TOne ''array'')) None None None None None no_bounds (Some entry_schema) None None AddlAny None"

definition config_schema :: schema where
  "config_schema = Schema None (Some (TOne ''object'')) None None None None None no_bounds None None
     (Some [(''routes'', section_schema), (''services'', section_schema)]) AddlAny None"

definition studio_demo :: studio_env where
  "studio_demo = \<lparr>rx = (\<lambda>_ _. None), sdefs = [], schema_root = config_schema, all_schemas = [config_schema, section_schema, entry_schema], depth = 1\<rparr>"

definition demo_config :: "string \<Rightarrow> jv" where
  "demo_config svc = JObj [(''routes'', JArr [JObj [(''service'', JStr svc), (''policies'', JArr [JStr ''rl''])]]),
     (''services'', JArr [JObj [(''name'', JStr ''web'')]]), (''policies'', JArr [JObj [(''name'', JStr ''rl'')]])]"

definition page_of :: "jv \<Rightarrow> page" where
  "page_of d = (boot_studio None)\<lparr>work := \<lparr>sdoc = d, saveDue = False, stored = None\<rparr>\<rparr>"

lemma studio_demo_ok: "env_ok studio_demo"
  by code_simp

lemma demo_status:
  "map_option (map ipath \<circ> lastIssues) (renderStatus studio_demo (page_of (demo_config ''web''))) = Some []"
  "map_option (map ipath \<circ> lastIssues) (renderStatus studio_demo (page_of (demo_config ''wbe''))) = Some [[KName ''routes'', KIdx 0, KName ''service'']]"
  by code_simp+

lemma unlisted_demo: "\<not> lists_ok (JObj [(''routes'', JObj [])])" "json_ok (JObj [(''routes'', JObj [])])"
  by (simp add: lists_ok_def sub_def nullish_def listy_def) code_simp

section \<open>Properties\<close>



text \<open>
  The status line is drawn exactly when everything that \<open>validateAll\<close> iterates over is a list or missing. A section
  of another kind throws, although \<open>checkNode\<close> has just reported it.
\<close>

theorem status_drawn_iff_lists:
  assumes "env_ok E"
  shows "(\<exists>pg'. renderStatus E pg = Some pg') \<longleftrightarrow> lists_ok (sdoc (work pg))"
  by (rule drawn_iff [OF assms])

theorem status_drawn_iff_lists_witness:
  "renderStatus studio_demo (page_of (JObj [(''routes'', JObj [])])) = None \<and> (\<exists>pg'. renderStatus studio_demo (page_of (demo_config ''web'')) = Some pg')"
proof -
  have "\<not> lists_ok (sdoc (work (page_of (JObj [(''routes'', JObj [])]))))" by (simp add: page_of_def unlisted_demo)
  moreover have "lists_ok (sdoc (work (page_of (demo_config ''web''))))" using demo_status(1) drawn_iff [OF studio_demo_ok] by fastforce
  ultimately show ?thesis using status_drawn_iff_lists [OF studio_demo_ok] not_None_eq by metis
qed

text \<open>
  C37. A text whose document cannot be drawn is reported as a parse error but taken nevertheless: the document is replaced
  and stored, and the first drawing after a reload throws again, whatever the remaining drawing functions do.
\<close>

theorem unlisted_text_taken:
  assumes "env_ok E" and "load text = Inr (JObj kvs)" and "json_ok (JObj kvs)" and "\<not> lists_ok (JObj kvs)"
  shows "let pg' = applyYaml E load rest te text pg in
    sdoc (work pg') = JObj kvs \<and> alerts pg' = alerts pg @ [''YAML parse error:'' @ [CHR 0x0A] @ te] \<and> editing pg' = editing pg \<and>
    snd (render_studio E rest te (boot_studio (stored (save_now (work pg'))))) = Some te"
proof -
  let ?pg1 = "pg\<lparr>work := persist ((work pg)\<lparr>sdoc := JObj kvs\<rparr>), selIdx := -1, yamlDirty := False\<rparr>"
  have none: "sdoc (work q) = JObj kvs \<Longrightarrow> render_studio E rest te q = (q, Some te)" for q
    using drawn_iff [OF assms(1), of q] assms(4) by (cases "renderStatus E q") (auto simp: render_studio_def)
  have r: "render_studio E rest te ?pg1 = (?pg1, Some te)" by (rule none) (simp add: persist_def)
  have a: "applyYaml E load rest te text pg = alert (''YAML parse error:'' @ [CHR 0x0A] @ te) ?pg1"
    unfolding applyYaml_def assms(2) by (simp add: nullish_def r)
  have s: "sdoc (work (applyYaml E load rest te text pg)) = JObj kvs" by (simp add: a alert_def persist_def)
  then have "load_doc (stored (save_now (work (applyYaml E load rest te text pg)))) = JObj kvs"
    using reload_saved assms(3) by metis
  then have "snd (render_studio E rest te (boot_studio (stored (save_now (work (applyYaml E load rest te text pg)))))) = Some te"
    by (subst none) (simp_all add: boot_studio_def)
  then show ?thesis using s unfolding Let_def by (simp add: a alert_def)
qed

theorem unlisted_text_taken_witness:
  "let pg' = applyYaml studio_demo (\<lambda>_. Inr (JObj [(''routes'', JObj [])])) (\<lambda>_. None) ''not a function'' ''routes: {}'' (page_of (JObj [])) in
    sdoc (work pg') = JObj [(''routes'', JObj [])] \<and> alerts pg' = [''YAML parse error:'' @ [CHR 0x0A] @ ''not a function'']"
  using unlisted_text_taken [OF studio_demo_ok, of "\<lambda>_. Inr (JObj [(''routes'', JObj [])])" "''routes: {}''" "[(''routes'', JObj [])]"
      "\<lambda>_. None" "''not a function''" "page_of (JObj [])"] unlisted_demo
  by (simp add: Let_def page_of_def boot_studio_def)

text \<open>A document that can be drawn is taken without a message, and the editor closes.\<close>

lemma listed_text_taken:
  assumes "env_ok E" "load text = Inr v" "(if nullish v then JObj [] else v) = JObj kvs" "lists_ok (JObj kvs)" "\<And>q. rest q = None"
  shows "let pg' = applyYaml E load rest te text pg in
    sdoc (work pg') = JObj kvs \<and> alerts pg' = alerts pg \<and> \<not> editing pg' \<and> saveDue (work pg')"
proof -
  let ?pg1 = "pg\<lparr>work := persist ((work pg)\<lparr>sdoc := JObj kvs\<rparr>), selIdx := -1, yamlDirty := False\<rparr>"
  obtain q where q: "renderStatus E ?pg1 = Some q"
    using drawn_iff [OF assms(1), of ?pg1] assms(4) by (auto simp: persist_def)
  then have "work q = work ?pg1" "alerts q = alerts pg" by (auto simp: renderStatus_def split: option.splits)
  moreover have "applyYaml E load rest te text pg = q\<lparr>editing := False\<rparr>"
    unfolding applyYaml_def assms(2) sum.case assms(3) Let_def using q assms(5) by (simp add: render_studio_def)
  ultimately show ?thesis by (simp add: persist_def Let_def)
qed

end
