(* ===== verification/Studio_Yaml.thy ===== *)
theory Studio_Yaml
  imports Studio_Issues
begin

text \<open>
  The YAML text of config studio: \<open>yamlScalar\<close>, \<open>emitYaml\<close> and \<open>docToYaml\<close>, which write the document, and a reader for the
  block style they use. The reader states the meaning of a text in YAML 1.2 for the constructs that occur; where a text
  would mean something else than a JSON value or the plain string that it spells, it gives no answer.
\<close>

section \<open>Scalars\<close>

definition nl :: string where
  "nl = [CHR 0x0A]"

text \<open>\<open>/[:{}\[\],&*!|>'"%@`#\n]/\<close>.\<close>

definition yaml_special :: "char \<Rightarrow> bool" where
  "yaml_special c = (c \<in> set (''':{}[],&*!|>%@`#'' @ [CHR 0x27, CHR 0x22, CHR 0x0A]))"

text \<open>\<open>/^(true|false|null|yes|no|on|off|~)$/i\<close>.\<close>

definition yaml_word :: "string \<Rightarrow> bool" where
  "yaml_word s = (to_lower s \<in> {''true'', ''false'', ''null'', ''yes'', ''no'', ''on'', ''off'', ''~''})"

text \<open>\<open>/^[+-]?[\d.]+([eE][+-]?\d+)?$/\<close>.\<close>

definition drop_sign :: "string \<Rightarrow> string" where
  "drop_sign s = (case s of c # r \<Rightarrow> if c = CHR ''+'' \<or> c = CHR ''-'' then r else s | [] \<Rightarrow> [])"

definition digit_or_dot :: "char \<Rightarrow> bool" where
  "digit_or_dot c = (is_digit c \<or> c = CHR ''.'')"

definition yaml_number :: "string \<Rightarrow> bool" where
  "yaml_number s = (let r = drop_sign s; m = takeWhile digit_or_dot r; e = dropWhile digit_or_dot r in
     m \<noteq> [] \<and> (e = [] \<or> (hd e = CHR ''e'' \<or> hd e = CHR ''E'') \<and> drop_sign (tl e) \<noteq> [] \<and> list_all is_digit (drop_sign (tl e))))"

text \<open>The test for a blank before \<open>#\<close> is part of the test for special characters.\<close>

definition needs_quotes :: "string \<Rightarrow> bool" where
  "needs_quotes s = (is_space (hd s) \<or> is_space (last s) \<or> list_ex yaml_special s \<or> is_prefix ''- '' s \<or> s = ''-'' \<or>
     yaml_word s \<or> yaml_number s \<or> hd s = CHR ''?'' \<or> CHR ''='' \<in> set s)"

definition yaml_text :: "string \<Rightarrow> string" where
  "yaml_text s = (if s = [] then [CHR 0x22, CHR 0x22] else if needs_quotes s then json_quote s else s)"

definition yamlScalar :: "jv \<Rightarrow> string" where
  "yamlScalar v = (if js_typeof v = ''number'' \<or> js_typeof v = ''boolean'' then js_string v else yaml_text (js_string v))"

section \<open>Blocks\<close>

definition pad :: "nat \<Rightarrow> string" where
  "pad n = replicate (2 * n) (CHR '' '')"

text \<open>\<open>v && typeof v === "object"\<close>.\<close>

definition is_block :: "jv \<Rightarrow> bool" where
  "is_block v = (truthy v \<and> js_typeof v = ''object'')"

fun emitYaml :: "jv \<Rightarrow> nat \<Rightarrow> string" where
  "emitYaml (JArr vs) n = (if vs = [] then pad n @ ''[]''
     else js_join nl (map (\<lambda>v. if is_block v then pad n @ ''- '' @ drop (length (pad n) + 2) (emitYaml v (n + 1))
       else pad n @ ''- '' @ yamlScalar v) vs))"
| "emitYaml (JObj kvs) n = (if kvs = [] then pad n @ ''{}''
     else js_join nl (concat (map (\<lambda>(k, v). if is_block v then [pad n @ k @ '':'', emitYaml v (n + 1)]
       else if v = JNull then [pad n @ k @ '': null''] else [pad n @ k @ '': '' @ yamlScalar v]) kvs)))"
| "emitYaml v n = pad n @ (if nullish v then ''null'' else yamlScalar v)"

definition docToYaml :: "jv \<Rightarrow> string option" where
  "docToYaml doc = map_option (\<lambda>ks. if ks = [] then ''# empty configuration - pick a template or add listeners/routes/upstreams from the sidebar'' @ nl
     else emitYaml doc 0 @ nl) (object_keys doc)"

section \<open>Reading YAML\<close>

text \<open>Texts that YAML may resolve to another type than a string: words, and what starts like a number or a date.\<close>

definition may_be_typed :: "string \<Rightarrow> bool" where
  "may_be_typed t = (yaml_word t \<or> is_digit (hd t) \<or> hd t \<in> {CHR ''+'', CHR ''-'', CHR ''.''})"

definition control :: "char \<Rightarrow> bool" where
  "control c = (of_char c < (32 :: nat))"

definition plain_text :: "string \<Rightarrow> bool" where
  "plain_text t = (t \<noteq> [] \<and> \<not> is_space (hd t) \<and> \<not> is_space (last t) \<and> \<not> list_ex yaml_special t \<and> hd t \<noteq> CHR ''?'' \<and>
     \<not> is_prefix ''- '' t \<and> \<not> list_ex control t \<and> \<not> may_be_typed t)"

text \<open>The JSON scalars are YAML scalars of the same meaning.\<close>

definition read_scalar :: "string \<Rightarrow> jv option" where
  "read_scalar t = (if plain_text t then Some (JStr t)
     else case json_parse t of Some (JArr vs) \<Rightarrow> None | Some (JObj kvs) \<Rightarrow> None | r \<Rightarrow> r)"

text \<open>\<open>key: rest\<close>; a line that starts with a quote is no key.\<close>

definition key_of :: "string \<Rightarrow> (string \<times> string) option" where
  "key_of t = (let k = takeWhile (\<lambda>c. c \<noteq> CHR '':'') t; r = dropWhile (\<lambda>c. c \<noteq> CHR '':'') t in
     if k = [] \<or> hd k = CHR 0x22 then None else if r = '':'' then Some (k, [])
     else if is_prefix '': '' r then Some (k, drop 2 r) else None)"

type_synonym yline = "nat \<times> string"

function (sequential) ynode :: "nat \<Rightarrow> nat \<Rightarrow> yline list \<Rightarrow> (jv \<times> yline list) option"
  and yseq :: "nat \<Rightarrow> nat \<Rightarrow> yline list \<Rightarrow> (jv list \<times> yline list) option"
  and ymap :: "nat \<Rightarrow> nat \<Rightarrow> yline list \<Rightarrow> ((string \<times> jv) list \<times> yline list) option" where
  "ynode 0 n ls = None"
| "ynode (Suc f) n [] = None"
| "ynode (Suc f) n ((i, t) # ls) = (if i \<noteq> n then None
     else if t = ''[]'' then Some (JArr [], ls) else if t = ''{}'' then Some (JObj [], ls)
     else if is_prefix ''- '' t then map_option (\<lambda>(vs, r). (JArr vs, r)) (yseq f n ((i, t) # ls))
     else if key_of t \<noteq> None then map_option (\<lambda>(kvs, r). (JObj kvs, r)) (ymap f n ((i, t) # ls))
     else map_option (\<lambda>v. (v, ls)) (read_scalar t))"
| "yseq 0 n ls = None"
| "yseq (Suc f) n [] = Some ([], [])"
| "yseq (Suc f) n ((i, t) # ls) = (if i \<noteq> n \<or> \<not> is_prefix ''- '' t then Some ([], (i, t) # ls)
     else case ynode f (n + 2) ((n + 2, drop 2 t) # ls) of None \<Rightarrow> None
       | Some (v, r) \<Rightarrow> map_option (\<lambda>(vs, r'). (v # vs, r')) (yseq f n r))"
| "ymap 0 n ls = None"
| "ymap (Suc f) n [] = Some ([], [])"
| "ymap (Suc f) n ((i, t) # ls) = (if i \<noteq> n then Some ([], (i, t) # ls)
     else case key_of t of None \<Rightarrow> Some ([], (i, t) # ls)
     | Some (k, u) \<Rightarrow> (case (if u = [] then ynode f (n + 2) ls else map_option (\<lambda>v. (v, ls)) (read_scalar u)) of None \<Rightarrow> None
         | Some (v, r) \<Rightarrow> map_option (\<lambda>(kvs, r'). ((k, v) # kvs, r')) (ymap f n r)))"
  by pat_completeness auto
termination
  by (relation "measure (case_sum fst (case_sum fst fst))") auto

definition yline_of :: "string \<Rightarrow> yline" where
  "yline_of s = (length (takeWhile (\<lambda>c. c = CHR '' '') s), dropWhile (\<lambda>c. c = CHR '' '') s)"

text \<open>Blank and comment lines count for nothing.\<close>

definition ylines :: "string \<Rightarrow> yline list" where
  "ylines s = filter (\<lambda>(i, t). t \<noteq> [] \<and> hd t \<noteq> CHR ''#'') (map yline_of (split_on (CHR 0x0A) s))"

definition read_yaml :: "string \<Rightarrow> jv option" where
  "read_yaml s = (case ylines s of [] \<Rightarrow> Some JNull
     | ls \<Rightarrow> (case ynode (4 * length s) (fst (hd ls)) ls of Some (v, []) \<Rightarrow> Some v | _ \<Rightarrow> None))"


section \<open>Documents that survive\<close>

text \<open>A string that YAML reads as itself when it is not quoted.\<close>

definition text_safe :: "string \<Rightarrow> bool" where
  "text_safe s = (s = [] \<or> needs_quotes s \<or> \<not> list_ex control s \<and> \<not> is_digit (hd s) \<and> hd s \<notin> {CHR ''+'', CHR ''-'', CHR ''.''})"

definition letter :: "char \<Rightarrow> bool" where
  "letter c = (let b = of_char c :: nat in 65 \<le> b \<and> b \<le> 90 \<or> 97 \<le> b \<and> b \<le> 122 \<or> b = 95)"

definition safe_key :: "string \<Rightarrow> bool" where
  "safe_key k = (k \<noteq> [] \<and> letter (hd k) \<and> list_all (\<lambda>c. letter c \<or> is_digit c \<or> c \<in> set ''-./'') k)"

text \<open>No null within a list, keys as in the schema, whole numbers as \<open>JSON.parse\<close> yields them.\<close>

fun yaml_ok :: "jv \<Rightarrow> bool" where
  "yaml_ok (JStr s) = text_safe s"
| "yaml_ok (JArr vs) = list_all (\<lambda>v. v \<noteq> JNull \<and> yaml_ok v) vs"
| "yaml_ok (JObj kvs) = list_all (\<lambda>(k, v). safe_key k \<and> yaml_ok v) kvs"
| "yaml_ok v = json_ok v"

text \<open>The scalar text of a value, and its lines as indentation and text.\<close>

definition stext :: "jv \<Rightarrow> string" where
  "stext v = (if v = JNull then ''null'' else yamlScalar v)"

definition dashed :: "nat \<Rightarrow> yline list \<Rightarrow> yline list" where
  "dashed n ls = (case ls of [] \<Rightarrow> [] | (i, t) # r \<Rightarrow> (2 * n, ''- '' @ t) # r)"

fun ytree :: "nat \<Rightarrow> jv \<Rightarrow> yline list" where
  "ytree n (JArr vs) = (if vs = [] then [(2 * n, ''[]'')] else concat (map (\<lambda>v. dashed n (ytree (n + 1) v)) vs))"
| "ytree n (JObj kvs) = (if kvs = [] then [(2 * n, ''{}'')]
     else concat (map (\<lambda>(k, v). if is_block v then (2 * n, k @ '':'') # ytree (n + 1) v else [(2 * n, k @ '': '' @ stext v)]) kvs))"
| "ytree n v = [(2 * n, stext v)]"

definition show_line :: "yline \<Rightarrow> string" where
  "show_line = (\<lambda>(i, t). replicate i (CHR '' '') @ t)"

end
