(* ===== verification/Yaml_Roundtrip.thy ===== *)
theory Yaml_Roundtrip
  imports Studio_Yaml
begin

text \<open>
  The YAML text of a document reads back as the document: scalars, lines, blocks, and the whole text. The editor of the
  text is a round trip as a consequence.
\<close>

section \<open>Scalars\<close>

text \<open>What a scalar text has to be for the reader not to mistake it.\<close>

definition lexeme :: "string \<Rightarrow> bool" where
  "lexeme t = (t \<noteq> [] \<and> hd t \<noteq> CHR '' '' \<and> hd t \<noteq> CHR ''#'' \<and> CHR 0x0A \<notin> set t \<and> \<not> is_prefix ''- '' t \<and> key_of t = None \<and>
     t \<noteq> ''[]'' \<and> t \<noteq> ''{}'')"

lemma key_of_plain: "CHR '':'' \<notin> set t \<Longrightarrow> key_of t = None"
proof -
  assume "CHR '':'' \<notin> set t"
  then have d: "dropWhile (\<lambda>c. c \<noteq> CHR '':'') t = []" by (auto simp: dropWhile_eq_Nil_conv)
  show ?thesis unfolding key_of_def Let_def d by simp
qed

lemma lexemeI:
  assumes "t \<noteq> []" "hd t \<noteq> CHR '' ''" "\<not> is_prefix ''- '' t"
    and "CHR '':'' \<notin> set t" "CHR 0x0A \<notin> set t" "CHR ''['' \<notin> set t" "CHR ''{'' \<notin> set t" "CHR ''#'' \<notin> set t"
  shows "lexeme t"
proof -
  have "hd t \<noteq> CHR ''#''" using assms(1,8) hd_in_set [of t] by metis
  moreover have "t \<noteq> ''[]''" "t \<noteq> ''{}''" using assms(6,7) by auto
  ultimately show ?thesis using assms key_of_plain [OF assms(4)] by (simp add: lexeme_def)
qed

lemma char_neqI: "of_char c \<noteq> (of_char d :: nat) \<Longrightarrow> c \<noteq> d"
  by auto

lemma hex_digit_range: "n < 16 \<Longrightarrow> hex_digit n \<noteq> CHR 0x0A"
  by (rule char_neqI) (simp add: hex_digit_def)

lemma json_esc_no_newline: "CHR 0x0A \<notin> set (json_esc_char c)"
proof (cases "of_char c < (32 :: nat)")
  case True
  then have "of_char c div (16 :: nat) < 16" "of_char c mod (16 :: nat) < 16" by auto
  then show ?thesis using hex_digit_range by (auto simp: json_esc_char_def Let_def dest: sym)
next
  case False
  then have "CHR 0x0A \<noteq> c" by auto
  then show ?thesis using False by (auto simp: json_esc_char_def Let_def)
qed

lemma json_quote_lexeme: "lexeme (json_quote s)"
proof -
  have "CHR 0x0A \<notin> set (json_quote s)" using json_esc_no_newline by (auto simp: json_quote_def)
  moreover have "key_of (json_quote s) = None" by (simp add: key_of_def json_quote_def Let_def)
  ultimately show ?thesis by (simp add: lexeme_def json_quote_def)
qed

lemma read_json:
  assumes "json_ok v" "json_compact v = Some t" "\<not> plain_text t" "\<And>vs. v \<noteq> JArr vs" "\<And>kvs. v \<noteq> JObj kvs"
  shows "read_scalar t = Some v"
  using json_compact_parse [OF assms(1)] assms(2-) by (cases v) (auto simp: read_scalar_def)

lemma quote_not_plain: "\<not> plain_text (json_quote s)"
  by (simp add: plain_text_def json_quote_def yaml_special_def)

lemma is_space_blank: "is_space (CHR '' '')"
  by (simp add: is_space_def)

lemma special_chars: "yaml_special (CHR '':'')" "yaml_special (CHR 0x0A)" "yaml_special (CHR ''['')" "yaml_special (CHR ''{'')" "yaml_special (CHR ''#'')"
  by (simp_all add: yaml_special_def)

lemma plain_lexeme:
  assumes "plain_text t"
  shows "lexeme t"
proof -
  have n: "c \<in> set t \<Longrightarrow> \<not> yaml_special c" for c using assms by (auto simp: plain_text_def list_ex_iff)
  have "CHR '':'' \<notin> set t" "CHR 0x0A \<notin> set t" "CHR ''['' \<notin> set t" "CHR ''{'' \<notin> set t" "CHR ''#'' \<notin> set t"
    using n special_chars by blast+
  moreover have "t \<noteq> []" "\<not> is_prefix ''- '' t" using assms by (auto simp: plain_text_def)
  moreover have "hd t \<noteq> CHR '' ''" using assms is_space_blank by (metis plain_text_def)
  ultimately show ?thesis by (intro lexemeI)
qed

lemma string_scalar:
  assumes "text_safe s"
  shows "lexeme (yaml_text s) \<and> read_scalar (yaml_text s) = Some (JStr s)"
proof (cases "s = [] \<or> needs_quotes s")
  case True
  have "yaml_text s = json_quote s" using True by (auto simp: yaml_text_def json_quote_def)
  then show ?thesis using read_json [of "JStr s" "json_quote s"] json_quote_lexeme quote_not_plain by (simp add: json_compact_def)
next
  case False
  then have "plain_text s" using assms by (auto simp: text_safe_def plain_text_def may_be_typed_def needs_quotes_def)
  then show ?thesis using plain_lexeme False by (simp add: yaml_text_def read_scalar_def)
qed

lemma int_str_chars: "set (int_str i) \<subseteq> insert (CHR ''-'') {c. is_digit c}" "int_str i \<noteq> []"
    "is_digit (hd (int_str i)) \<or> hd (int_str i) = CHR ''-''"
  using nat_str_digits bspec [OF nat_str_digits hd_in_set [OF nat_str_nonempty]] by (auto simp: int_str_def)

lemma number_scalar:
  assumes "json_ok (JNum x)"
  shows "lexeme (js_string (JNum x)) \<and> read_scalar (js_string (JNum x)) = Some (JNum x)"
proof -
  obtain r where x: "x = Fin r" "of_int \<lfloor>r\<rfloor> = r" "\<bar>r\<bar> < 10 ^ 21" using assms by (cases x) auto
  let ?t = "int_str \<lfloor>r\<rfloor>"
  have t: "js_string (JNum x) = ?t" using x by simp
  have d: "\<not> is_digit (CHR '':'')" "\<not> is_digit (CHR '' '')" "\<not> is_digit (CHR ''#'')" "\<not> is_digit (CHR 0x0A)" "\<not> is_digit (CHR ''['')" "\<not> is_digit (CHR ''{'')"
    by (simp_all add: is_digit_def)
  have ns: "CHR '':'' \<notin> set ?t" "CHR 0x0A \<notin> set ?t" "CHR '' '' \<notin> set ?t" "CHR ''['' \<notin> set ?t" "CHR ''{'' \<notin> set ?t" "CHR ''#'' \<notin> set ?t"
    using int_str_chars(1) [of "\<lfloor>r\<rfloor>"] d by auto
  have "hd ?t \<in> set ?t" using int_str_chars(2) by (rule hd_in_set)
  then have "hd ?t \<noteq> CHR '' ''" using ns(3) by metis
  moreover have "\<not> is_prefix ''- '' ?t" using ns(3) unfolding is_prefix_iff by (metis UnI1 list.set_intros(1,2) set_append)
  ultimately have "lexeme ?t" using ns int_str_chars(2) by (intro lexemeI)
  moreover have "\<not> plain_text ?t" using int_str_chars(3) [of "\<lfloor>r\<rfloor>"] by (auto simp: plain_text_def may_be_typed_def)
  moreover have "json_compact (JNum x) = Some ?t" using x by (simp add: json_compact_def)
  ultimately show ?thesis using read_json [OF assms, of ?t] unfolding t by simp
qed

lemma word_scalars:
  "lexeme ''true'' \<and> read_scalar ''true'' = Some (JBool True)" "lexeme ''false'' \<and> read_scalar ''false'' = Some (JBool False)"
  "lexeme ''null'' \<and> read_scalar ''null'' = Some JNull"
  by code_simp+

lemma scalar_reads:
  assumes "yaml_ok v" "\<not> is_block v"
  shows "lexeme (stext v) \<and> read_scalar (stext v) = Some v"
proof (cases v)
  case (JBool b)
  then show ?thesis using word_scalars by (cases b) (simp_all add: stext_def yamlScalar_def)
next
  case (JNum x)
  then show ?thesis using number_scalar [of x] assms(1) unfolding stext_def yamlScalar_def by simp
next
  case (JStr s)
  then show ?thesis using string_scalar [of s] assms(1) by (simp add: stext_def yamlScalar_def)
qed (use assms word_scalars in \<open>auto simp: stext_def is_block_def\<close>)

section \<open>Lines\<close>

lemma scalar_induct [case_names Arr Obj Scalar]:
  assumes "\<And>vs. (\<And>v. v \<in> set vs \<Longrightarrow> P v) \<Longrightarrow> P (JArr vs)"
    and "\<And>kvs. (\<And>k v. (k, v) \<in> set kvs \<Longrightarrow> P v) \<Longrightarrow> P (JObj kvs)"
    and "\<And>v. \<not> is_block v \<Longrightarrow> P v"
  shows "P v"
proof (induction v rule: measure_induct_rule [of size])
  case (less v)
  show ?case
  proof (cases v)
    case (JArr vs)
    have "w \<in> set vs \<Longrightarrow> size w < size (JArr vs)" for w using size_list_estimation' [of w vs "size w" size] by simp
    then show ?thesis using less.IH assms(1) [of vs] unfolding JArr by blast
  next
    case (JObj kvs)
    then show ?thesis using less.IH size_member assms(2) [of kvs] by blast
  qed (use assms(3) in \<open>auto simp: is_block_def\<close>)
qed

lemma ytree_scalar: "\<not> is_block v \<Longrightarrow> ytree n v = [(2 * n, stext v)]"
  by (cases v) (auto simp: is_block_def)

lemma ytree_first: "\<exists>t r. ytree n v = (2 * n, t) # r"
proof (induction v arbitrary: n rule: scalar_induct)
  case (Arr vs)
  show ?case
  proof (cases vs)
    case (Cons w ws)
    then obtain t r where "ytree (n + 1) w = (2 * (n + 1), t) # r" using Arr [of w "n + 1"] by auto
    then show ?thesis by (simp add: Cons dashed_def)
  qed simp
next
  case (Obj kvs)
  then show ?case by (cases kvs) auto
qed (simp add: ytree_scalar)

lemma dashed_ytree: "\<exists>t r. ytree (n + 1) v = (2 * (n + 1), t) # r \<and> dashed n (ytree (n + 1) v) = (2 * n, ''- '' @ t) # r"
  using ytree_first [of "n + 1" v] by (auto simp: dashed_def)

lemma dashed_nonempty: "dashed n (ytree (n + 1) v) \<noteq> []"
  using dashed_ytree [of n v] by auto

text \<open>Joining joined blocks.\<close>

lemma js_join_Cons: "xs \<noteq> [] \<Longrightarrow> js_join sep (x # xs) = x @ sep @ js_join sep xs"
  by (cases xs) auto

lemma js_join_append: "xs \<noteq> [] \<Longrightarrow> ys \<noteq> [] \<Longrightarrow> js_join sep (xs @ ys) = js_join sep xs @ sep @ js_join sep ys"
proof (induction xs)
  case (Cons x xs)
  then show ?case by (cases "xs = []") (auto simp: js_join_Cons)
qed simp

lemma js_join_concat: "[] \<notin> set lss \<Longrightarrow> js_join sep (map (js_join sep) lss) = js_join sep (concat lss)"
proof (induction lss)
  case c: (Cons ls lss)
  show ?case
  proof (cases lss)
    case (Cons a b)
    then have "concat lss \<noteq> []" using c.prems by auto
    then show ?thesis using c.prems c.IH Cons js_join_Cons [of "map (js_join sep) lss"] js_join_append [of ls "concat lss"] by auto
  qed simp
qed simp

definition lines_text :: "yline list \<Rightarrow> string" where
  "lines_text ls = js_join nl (map show_line ls)"

lemma lines_text_concat: "[] \<notin> set lss \<Longrightarrow> js_join nl (map lines_text lss) = lines_text (concat lss)"
proof -
  assume "[] \<notin> set lss"
  then have n: "[] \<notin> set (map (map show_line) lss)" by auto
  have m: "map lines_text lss = map (js_join nl) (map (map show_line) lss)" by (simp add: lines_text_def)
  show ?thesis unfolding m lines_text_def map_concat by (rule js_join_concat [OF n])
qed

lemma show_pad: "show_line (2 * n, t) = pad n @ t"
  by (simp add: show_line_def pad_def)

lemma pad_Suc: "pad (n + 1) = pad n @ ''  ''"
proof -
  have e: "2 * (n + 1) = 2 * n + 2" by simp
  show ?thesis unfolding pad_def e replicate_add by (simp add: numeral_2_eq_2)
qed

lemma lines_text_single [simp]: "lines_text [l] = show_line l"
  by (simp add: lines_text_def)

text \<open>A block below a dash: the first line loses its indentation, the others stay.\<close>

lemma lines_text_under:
  "pad n @ ''- '' @ drop (length (pad n) + 2) (lines_text (ytree (n + 1) v)) = lines_text (dashed n (ytree (n + 1) v))"
proof -
  obtain t r where t: "ytree (n + 1) v = (2 * (n + 1), t) # r" "dashed n (ytree (n + 1) v) = (2 * n, ''- '' @ t) # r"
    using dashed_ytree by blast
  have s: "show_line (2 * (n + 1), t) = pad n @ ''  '' @ t" "show_line (2 * n, ''- '' @ t) = pad n @ ''- '' @ t"
    by (simp_all only: show_pad pad_Suc append_assoc)
  show ?thesis unfolding t(2) unfolding t(1) lines_text_def list.map s by (cases r) simp_all
qed

lemma emitYaml_lines: "yaml_ok v \<Longrightarrow> emitYaml v n = lines_text (ytree n v)"
proof (induction v arbitrary: n rule: scalar_induct)
  case (Arr vs)
  let ?f = "\<lambda>v. if is_block v then pad n @ ''- '' @ drop (length (pad n) + 2) (emitYaml v (n + 1)) else pad n @ ''- '' @ yamlScalar v"
  have "?f v = lines_text (dashed n (ytree (n + 1) v))" if "v \<in> set vs" for v
  proof (cases "is_block v")
    case True
    then show ?thesis using Arr.IH [OF that, of "n + 1"] Arr.prems that lines_text_under by (simp add: list_all_iff)
  next
    case False
    then show ?thesis using Arr.prems that by (auto simp: ytree_scalar dashed_def show_pad stext_def list_all_iff)
  qed
  then have "map ?f vs = map lines_text (map (\<lambda>v. dashed n (ytree (n + 1) v)) vs)" by simp
  moreover have "[] \<notin> set (map (\<lambda>v. dashed n (ytree (n + 1) v)) vs)" using dashed_nonempty by (metis (no_types, lifting) image_iff list.set_map)
  ultimately have e: "js_join nl (map ?f vs) = lines_text (concat (map (\<lambda>v. dashed n (ytree (n + 1) v)) vs))"
    using lines_text_concat by metis
  show ?case unfolding emitYaml.simps ytree.simps e by (simp add: show_pad)
next
  case (Obj kvs)
  let ?g = "\<lambda>(k, v). if is_block v then [pad n @ k @ '':'', emitYaml v (n + 1)]
       else if v = JNull then [pad n @ k @ '': null''] else [pad n @ k @ '': '' @ yamlScalar v]"
  let ?h = "\<lambda>(k, v). if is_block v then (2 * n, k @ '':'') # ytree (n + 1) v else [(2 * n, k @ '': '' @ stext v)]"
  have "js_join nl (?g (k, v)) = lines_text (?h (k, v))" if "(k, v) \<in> set kvs" for k v
  proof (cases "is_block v")
    case True
    have "emitYaml v (n + 1) = lines_text (ytree (n + 1) v)" using Obj.IH [OF that] Obj.prems that by (auto simp: list_all_iff)
    moreover have "map show_line (ytree (n + 1) v) \<noteq> []" using ytree_first [of "n + 1" v] by auto
    ultimately show ?thesis using True by (simp add: lines_text_def show_pad js_join_Cons)
  next
    case False
    then show ?thesis by (simp add: show_pad stext_def)
  qed
  then have "map (js_join nl) (map ?g kvs) = map lines_text (map ?h kvs)" by auto
  moreover have "[] \<notin> set (map ?g kvs)" "[] \<notin> set (map ?h kvs)" by (auto split: if_splits)
  ultimately have e: "js_join nl (concat (map ?g kvs)) = lines_text (concat (map ?h kvs))"
    using js_join_concat [of "map ?g kvs" nl] lines_text_concat [of "map ?h kvs"] by metis
  show ?case unfolding emitYaml.simps ytree.simps e by (simp add: show_pad)
next
  case (Scalar v)
  then show ?case by (cases v) (auto simp: show_pad stext_def nullish_def is_block_def)
qed

text \<open>Splitting the text gives the lines back.\<close>

definition good_line :: "yline \<Rightarrow> bool" where
  "good_line l = (snd l \<noteq> [] \<and> hd (snd l) \<noteq> CHR '' '' \<and> hd (snd l) \<noteq> CHR ''#'' \<and> CHR 0x0A \<notin> set (snd l))"

lemma split_on_line: "c \<notin> set l \<Longrightarrow> split_on c (l @ c # s) = l # split_on c s"
proof (induction l)
  case (Cons x l)
  then show ?case by auto
qed simp

lemma split_on_join: "ls \<noteq> [] \<Longrightarrow> \<forall>l \<in> set ls. c \<notin> set l \<Longrightarrow> split_on c (js_join [c] ls @ [c]) = ls @ [[]]"
proof (induction ls)
  case (Cons l ls)
  show ?case
  proof (cases "ls = []")
    case True
    then show ?thesis using Cons.prems split_on_line [of c l "[]"] by simp
  next
    case False
    then show ?thesis using Cons split_on_line [of c l "js_join [c] ls @ [c]"] by (simp add: js_join_Cons)
  qed
qed simp

lemma yline_of_show: "good_line l \<Longrightarrow> yline_of (show_line l) = l"
proof -
  assume g: "good_line l"
  obtain i t where l: "l = (i, t)" by (cases l)
  obtain c r where t: "t = c # r" "c \<noteq> CHR '' ''" using g by (cases t) (auto simp: l good_line_def)
  have "takeWhile (\<lambda>c. c = CHR '' '') (replicate i (CHR '' '') @ t) = replicate i (CHR '' '')" using t by (induction i) auto
  moreover have "dropWhile (\<lambda>c. c = CHR '' '') (replicate i (CHR '' '') @ t) = t" using t by (induction i) auto
  ultimately show ?thesis by (simp add: yline_of_def show_line_def l)
qed

lemma ylines_text:
  assumes "ls \<noteq> []" "\<forall>l \<in> set ls. good_line l"
  shows "ylines (lines_text ls @ nl) = ls"
proof -
  have "\<forall>l \<in> set (map show_line ls). CHR 0x0A \<notin> set l" using assms(2) by (auto simp: show_line_def good_line_def)
  then have "split_on (CHR 0x0A) (lines_text ls @ nl) = map show_line ls @ [[]]"
    using split_on_join [of "map show_line ls"] assms(1) by (simp add: lines_text_def nl_def)
  moreover have "map yline_of (map show_line ls) = ls" using assms(2) yline_of_show by (simp add: map_idI)
  moreover have "filter (\<lambda>(i, t). t \<noteq> [] \<and> hd t \<noteq> CHR ''#'') ls = ls" using assms(2) by (auto simp: good_line_def intro!: filter_True)
  ultimately show ?thesis by (simp add: ylines_def yline_of_def)
qed

lemma safe_key_facts:
  assumes "safe_key k"
  shows "k \<noteq> []" "hd k \<notin> {CHR '' '', CHR ''#'', CHR 0x22, CHR ''-'', CHR ''['', CHR ''{''}" "CHR '':'' \<notin> set k" "CHR 0x0A \<notin> set k"
proof -
  have l: "\<not> letter (CHR '' '')" "\<not> letter (CHR ''#'')" "\<not> letter (CHR 0x22)" "\<not> letter (CHR ''-'')" "\<not> letter (CHR ''['')" "\<not> letter (CHR ''{'')"
    by (simp_all add: letter_def)
  show "k \<noteq> []" "hd k \<notin> {CHR '' '', CHR ''#'', CHR 0x22, CHR ''-'', CHR ''['', CHR ''{''}" using assms l by (auto simp: safe_key_def)
  have "\<not> (letter c \<or> is_digit c \<or> c \<in> set ''-./'')" if "c \<in> {CHR '':'', CHR 0x0A}" for c
    using that by (auto simp: letter_def is_digit_def)
  then show "CHR '':'' \<notin> set k" "CHR 0x0A \<notin> set k" using assms unfolding safe_key_def list_all_iff by blast+
qed

lemma ytree_good: "yaml_ok v \<Longrightarrow> l \<in> set (ytree n v) \<Longrightarrow> good_line l"
proof (induction v arbitrary: n l rule: scalar_induct)
  case (Arr vs)
  show ?case
  proof (cases "vs = []")
    case False
    then obtain v where v: "v \<in> set vs" "l \<in> set (dashed n (ytree (n + 1) v))" using Arr.prems(2) by auto
    obtain t r where t: "ytree (n + 1) v = (2 * (n + 1), t) # r" "dashed n (ytree (n + 1) v) = (2 * n, ''- '' @ t) # r"
      using dashed_ytree by blast
    have g: "l' \<in> set (ytree (n + 1) v) \<Longrightarrow> good_line l'" for l' using Arr.IH v(1) Arr.prems(1) by (auto simp: list_all_iff)
    then have "good_line (2 * (n + 1), t)" unfolding t(1) by simp
    then have "good_line (2 * n, ''- '' @ t)" by (simp add: good_line_def)
    moreover have "l = (2 * n, ''- '' @ t) \<or> l \<in> set (ytree (n + 1) v)" using v(2) unfolding t(2) unfolding t(1) by auto
    ultimately show ?thesis using g by blast
  qed (use Arr.prems in \<open>simp add: good_line_def\<close>)
next
  case (Obj kvs)
  show ?case
  proof (cases "kvs = []")
    case False
    then obtain k v where kv: "(k, v) \<in> set kvs" "l \<in> set (if is_block v then (2 * n, k @ '':'') # ytree (n + 1) v else [(2 * n, k @ '': '' @ stext v)])"
      using Obj.prems(2) by auto
    have ok: "safe_key k" "yaml_ok v" using Obj.prems(1) kv(1) by (auto simp: list_all_iff)
    show ?thesis
    proof (cases "is_block v \<and> l \<in> set (ytree (n + 1) v)")
      case True
      then show ?thesis using Obj.IH [OF kv(1) ok(2)] by blast
    next
      case False
      then show ?thesis using kv(2) safe_key_facts [OF ok(1)] scalar_reads [OF ok(2)]
        by (auto simp: good_line_def lexeme_def split: if_splits)
    qed
  qed (use Obj.prems in \<open>simp add: good_line_def\<close>)
next
  case (Scalar v)
  then show ?case using scalar_reads [of v] by (simp add: ytree_scalar good_line_def lexeme_def)
qed


section \<open>Reading the lines\<close>

text \<open>The fuel a value takes, and what may follow a block: a line further left, or nothing.\<close>

fun need :: "jv \<Rightarrow> nat" where
  "need (JArr vs) = 2 + sum_list (map (\<lambda>v. Suc (need v)) vs)"
| "need (JObj kvs) = 2 + sum_list (map (\<lambda>(k, v). Suc (need v)) kvs)"
| "need v = 1"

definition ends :: "nat \<Rightarrow> yline list \<Rightarrow> bool" where
  "ends n rest = (rest = [] \<or> fst (hd rest) < 2 * n)"

lemma key_of_key:
  assumes "safe_key k"
  shows "key_of (k @ '':'') = Some (k, [])" "key_of (k @ '': '' @ t) = Some (k, t)"
proof -
  note k = safe_key_facts [OF assms]
  have "takeWhile (\<lambda>c. c \<noteq> CHR '':'') (k @ CHR '':'' # r) = k" "dropWhile (\<lambda>c. c \<noteq> CHR '':'') (k @ CHR '':'' # r) = CHR '':'' # r" for r
    using k(3) by (induction k) auto
  then show "key_of (k @ '':'') = Some (k, [])" "key_of (k @ '': '' @ t) = Some (k, t)"
    using k(1,2) by (simp_all add: key_of_def Let_def)
qed

lemma key_line:
  assumes "safe_key k"
  shows "k @ r \<noteq> ''[]''" "k @ r \<noteq> ''{}''" "\<not> is_prefix ''- '' (k @ r)"
  using safe_key_facts [OF assms] by (cases k; auto)+

lemma ynode_scalar:
  assumes "yaml_ok v" "\<not> is_block v"
  shows "ynode (Suc f) n ((n, stext v) # rest) = Some (v, rest)"
  using scalar_reads [OF assms] by (simp add: lexeme_def)

lemma yseq_reads:
  assumes "\<And>v f rest. v \<in> set vs \<Longrightarrow> need v \<le> f \<Longrightarrow> ends (n + 1) rest \<Longrightarrow> ynode f (2 * (n + 1)) (ytree (n + 1) v @ rest) = Some (v, rest)"
    and "ends n rest" "Suc (sum_list (map (\<lambda>v. Suc (need v)) vs)) \<le> f"
  shows "yseq f (2 * n) (concat (map (\<lambda>v. dashed n (ytree (n + 1) v)) vs) @ rest) = Some (vs, rest)"
  using assms(1,3)
proof (induction vs arbitrary: f)
  case Nil
  then obtain g where "f = Suc g" by (cases f) auto
  then show ?case using assms(2) by (cases rest) (auto simp: ends_def)
next
  case (Cons v vs)
  then obtain g where g: "f = Suc g" by (cases f) auto
  let ?rest = "concat (map (\<lambda>v. dashed n (ytree (n + 1) v)) vs) @ rest"
  have e: "ends (n + 1) ?rest"
  proof (cases vs)
    case Nil
    then show ?thesis using assms(2) by (auto simp: ends_def)
  next
    case (Cons w ws)
    then show ?thesis using dashed_ytree [of n w] by (auto simp: ends_def)
  qed
  obtain t r where t: "ytree (n + 1) v = (2 * (n + 1), t) # r" "dashed n (ytree (n + 1) v) = (2 * n, ''- '' @ t) # r"
    using dashed_ytree by blast
  have "ynode g (2 * (n + 1)) (ytree (n + 1) v @ ?rest) = Some (v, ?rest)" using Cons.prems g e by simp
  then have v: "ynode g (2 * n + 2) ((2 * n + 2, t) # r @ ?rest) = Some (v, ?rest)" unfolding t(1) by simp
  have vs: "yseq g (2 * n) ?rest = Some (vs, rest)" using Cons.prems g by (intro Cons.IH) auto
  have l: "concat (map (\<lambda>v. dashed n (ytree (n + 1) v)) (v # vs)) @ rest = (2 * n, ''- '' @ t) # r @ ?rest"
    using t(2) by simp
  show ?case unfolding l g using v vs by simp
qed

lemma ymap_reads:
  assumes "\<And>k v f rest. (k, v) \<in> set kvs \<Longrightarrow> need v \<le> f \<Longrightarrow> ends (n + 1) rest \<Longrightarrow> ynode f (2 * (n + 1)) (ytree (n + 1) v @ rest) = Some (v, rest)"
    and "ends n rest" "Suc (sum_list (map (\<lambda>(k, v). Suc (need v)) kvs)) \<le> f" "\<forall>(k, v) \<in> set kvs. safe_key k \<and> yaml_ok v"
  shows "ymap f (2 * n) (concat (map (\<lambda>(k, v). if is_block v then (2 * n, k @ '':'') # ytree (n + 1) v else [(2 * n, k @ '': '' @ stext v)]) kvs) @ rest) = Some (kvs, rest)"
  using assms(1,3,4)
proof (induction kvs arbitrary: f)
  case Nil
  then obtain g where "f = Suc g" by (cases f) auto
  then show ?case using assms(2) by (cases rest) (auto simp: ends_def)
next
  case (Cons kv kvs)
  obtain k v where kv: "kv = (k, v)" by (cases kv)
  obtain g where g: "f = Suc g" using Cons.prems(2) by (cases f) auto
  let ?h = "\<lambda>(k, v). if is_block v then (2 * n, k @ '':'') # ytree (n + 1) v else [(2 * n, k @ '': '' @ stext v)]"
  let ?rest = "concat (map ?h kvs) @ rest"
  have e: "ends (n + 1) ?rest" using assms(2) by (cases kvs) (auto simp: ends_def split: if_splits)
  have ok: "safe_key k" "yaml_ok v" using Cons.prems(3) by (auto simp: kv)
  have kvs: "ymap g (2 * n) ?rest = Some (kvs, rest)" using Cons.prems g by (intro Cons.IH) (auto simp: kv)
  show ?case
  proof (cases "is_block v")
    case True
    have "ynode g (2 * (n + 1)) (ytree (n + 1) v @ ?rest) = Some (v, ?rest)"
      by (rule Cons.prems(1) [of k v]) (use Cons.prems(2) g e in \<open>simp_all add: kv\<close>)
    then show ?thesis using True kvs key_of_key(1) [OF ok(1)] by (simp add: kv g)
  next
    case False
    have s: "read_scalar (stext v) = Some v" "stext v \<noteq> []" using scalar_reads [OF ok(2) False] by (auto simp: lexeme_def)
    show ?thesis using False kvs key_of_key(2) [OF ok(1), of "stext v"] s by (simp add: kv g)
  qed
qed

lemma ynode_reads:
  "yaml_ok v \<Longrightarrow> need v \<le> f \<Longrightarrow> ends n rest \<Longrightarrow> ynode f (2 * n) (ytree n v @ rest) = Some (v, rest)"
proof (induction v arbitrary: n f rest rule: scalar_induct)
  case (Arr vs)
  obtain g where g: "f = Suc g" using Arr.prems(2) by (cases f) auto
  show ?case
  proof (cases "vs = []")
    case False
    let ?ls = "concat (map (\<lambda>v. dashed n (ytree (n + 1) v)) vs) @ rest"
    have s: "yseq g (2 * n) ?ls = Some (vs, rest)"
    proof (rule yseq_reads)
      show "ynode h (2 * (n + 1)) (ytree (n + 1) v @ q) = Some (v, q)" if "v \<in> set vs" "need v \<le> h" "ends (n + 1) q" for v h q
        by (rule Arr.IH [OF that(1) _ that(2,3)]) (use Arr.prems(1) that(1) in \<open>auto simp: list_all_iff\<close>)
    qed (use Arr.prems g in auto)
    obtain w ws where w: "vs = w # ws" using False by (cases vs) auto
    obtain t r where l: "?ls = (2 * n, ''- '' @ t) # r" using dashed_ytree [of n w] by (auto simp: w)
    have e: "ytree n (JArr vs) @ rest = ?ls" by (simp only: ytree.simps False if_False)
    show ?thesis using s unfolding g e l by simp
  qed (simp add: g)
next
  case (Obj kvs)
  obtain g where g: "f = Suc g" using Obj.prems(2) by (cases f) auto
  show ?case
  proof (cases "kvs = []")
    case False
    let ?h = "\<lambda>(k, v). if is_block v then (2 * n, k @ '':'') # ytree (n + 1) v else [(2 * n, k @ '': '' @ stext v)]"
    let ?ls = "concat (map ?h kvs) @ rest"
    have s: "ymap g (2 * n) ?ls = Some (kvs, rest)"
    proof (rule ymap_reads)
      show "ynode h (2 * (n + 1)) (ytree (n + 1) v @ q) = Some (v, q)" if "(k, v) \<in> set kvs" "need v \<le> h" "ends (n + 1) q" for k v h q
        by (rule Obj.IH [OF that(1) _ that(2,3)]) (use Obj.prems(1) that(1) in \<open>auto simp: list_all_iff\<close>)
    qed (use Obj.prems g in \<open>auto simp: list_all_iff\<close>)
    obtain k v ws where w: "kvs = (k, v) # ws" using False by (cases kvs) auto
    have ok: "safe_key k" using Obj.prems(1) by (simp add: w)
    obtain u r where l: "?ls = (2 * n, k @ u) # r" "key_of (k @ u) \<noteq> None"
      using key_of_key [OF ok] by (cases "is_block v") (auto simp: w)
    have e: "ytree n (JObj kvs) @ rest = ?ls" by (simp only: ytree.simps False if_False)
    show ?thesis using s key_line [OF ok, of u] l(2) unfolding g e l(1) by simp
  qed (simp add: g)
next
  case (Scalar v)
  then obtain g where "f = Suc g" by (cases f; cases v) auto
  then show ?case using ynode_scalar [OF Scalar.prems(1) Scalar.hyps] Scalar.hyps by (simp add: ytree_scalar)
qed

section \<open>The whole text\<close>

definition chars :: "yline list \<Rightarrow> nat" where
  "chars ls = sum_list (map (\<lambda>l. length (snd l)) ls)"

lemma chars_simps [simp]: "chars [] = 0" "chars (l # ls) = length (snd l) + chars ls" "chars (ls @ ms) = chars ls + chars ms"
  by (simp_all add: chars_def)

lemma chars_text: "chars ls \<le> length (lines_text ls)"
proof (induction ls)
  case (Cons l ls)
  then show ?case by (cases ls) (auto simp: lines_text_def show_line_def split: prod.splits)
qed simp

lemma chars_dashed: "chars (dashed n (ytree (n + 1) v)) = 2 + chars (ytree (n + 1) v)"
proof -
  obtain t r where t: "ytree (n + 1) v = (2 * (n + 1), t) # r" "dashed n (ytree (n + 1) v) = (2 * n, ''- '' @ t) # r"
    using dashed_ytree by blast
  show ?thesis unfolding t(2) unfolding t(1) by simp
qed

lemma need_chars: "yaml_ok v \<Longrightarrow> need v < 3 * chars (ytree n v)"
proof (induction v arbitrary: n rule: scalar_induct)
  case (Arr vs)
  have "Suc (sum_list (map (\<lambda>v. Suc (need v)) ws)) \<le> 3 * chars (concat (map (\<lambda>v. dashed n (ytree (n + 1) v)) ws)) + 1 \<and>
      (ws \<noteq> [] \<longrightarrow> 5 + sum_list (map (\<lambda>v. Suc (need v)) ws) \<le> 3 * chars (concat (map (\<lambda>v. dashed n (ytree (n + 1) v)) ws)))"
    if "set ws \<subseteq> set vs" for ws using that
  proof (induction ws)
    case (Cons w ws)
    have "need w < 3 * chars (ytree (n + 1) w)" using Arr.IH [of w "n + 1"] Arr.prems Cons.prems by (auto simp: list_all_iff)
    then show ?case using Cons chars_dashed [of n w] by auto
  qed simp
  from this [of vs] show ?case by (auto simp: chars_def)
next
  case (Obj kvs)
  let ?h = "\<lambda>(k, v). if is_block v then (2 * n, k @ '':'') # ytree (n + 1) v else [(2 * n, k @ '': '' @ stext v)]"
  have "sum_list (map (\<lambda>(k, v). Suc (need v)) ws) \<le> 3 * chars (concat (map ?h ws)) \<and>
      (ws \<noteq> [] \<longrightarrow> 3 + sum_list (map (\<lambda>(k, v). Suc (need v)) ws) \<le> 3 * chars (concat (map ?h ws)))"
    if "set ws \<subseteq> set kvs" for ws using that
  proof (induction ws)
    case (Cons kv ws)
    obtain k v where kv: "kv = (k, v)" by (cases kv)
    have ok: "(k, v) \<in> set kvs" "safe_key k" "yaml_ok v" using Cons.prems Obj.prems by (auto simp: kv list_all_iff)
    have "1 \<le> length k" using safe_key_facts(1) [OF ok(2)] by (cases k) auto
    moreover have "need v < 3 * chars (ytree (n + 1) v)" by (rule Obj.IH [OF ok(1,3)])
    moreover have "\<not> is_block v \<Longrightarrow> need v = 1" by (cases v) (auto simp: is_block_def)
    ultimately show ?case using Cons by (cases "is_block v") (auto simp: kv)
  qed simp
  from this [of kvs] show ?case by (cases "kvs = []") auto
next
  case (Scalar v)
  then have "stext v \<noteq> []" using scalar_reads [of v] by (auto simp: lexeme_def)
  moreover have "need v = 1" using Scalar by (cases v) (auto simp: is_block_def)
  ultimately show ?case using Scalar.hyps by (cases "stext v") (simp_all add: ytree_scalar)
qed

lemma read_emitted:
  assumes "yaml_ok v"
  shows "read_yaml (emitYaml v 0 @ nl) = Some v"
proof -
  let ?ls = "ytree 0 v" and ?s = "emitYaml v 0 @ nl"
  have ls: "ylines ?s = ?ls" unfolding emitYaml_lines [OF assms]
    by (rule ylines_text) (use ytree_first [of 0 v] ytree_good [OF assms] in auto)
  obtain t r where f: "?ls = (0, t) # r" using ytree_first [of 0 v] by auto
  have "chars ?ls \<le> length ?s" using chars_text [of ?ls] unfolding emitYaml_lines [OF assms] by simp
  then have "need v \<le> 4 * length ?s" using need_chars [OF assms, of 0] by linarith
  then have "ynode (4 * length ?s) (2 * 0) (?ls @ []) = Some (v, [])"
    by (rule ynode_reads [OF assms]) (simp add: ends_def)
  then have y: "ynode (4 * length ?s) 0 ((0, t) # r) = Some (v, [])" by (simp add: f)
  have l: "ylines ?s = (0, t) # r" using ls f by metis
  show ?thesis unfolding read_yaml_def l list.case list.sel fst_conv y by simp
qed


section \<open>Where the text means something else\<close>

text \<open>A null within a list is written as the string \<open>"null"\<close>.\<close>

lemma null_in_list_lost:
  "read_yaml (emitYaml (JObj [(''a'', JArr [JNull])]) 0 @ nl) = Some (JObj [(''a'', JArr [JStr ''null''])])"
  by code_simp

text \<open>Strings that YAML resolves to a number, a date or another key are written without quotes.\<close>

lemma unquoted_scalars:
  "yamlScalar (JStr ''0x1F'') = ''0x1F''" "yamlScalar (JStr ''2024-01-01'') = ''2024-01-01''" "yamlScalar (JStr ''.inf'') = ''.inf''"
  "emitYaml (JObj [(''a: b'', JBool True)]) 0 = ''a: b: true''"
  by code_simp+

section \<open>Properties\<close>

lemma document_text: "yaml_ok (JObj kvs) \<Longrightarrow>
    \<exists>t. docToYaml (JObj kvs) = Some t \<and> read_yaml t = Some (if kvs = [] then JNull else JObj kvs)"
proof (cases "kvs = []")
  case True
  have "read_yaml (''# empty configuration - pick a template or add listeners/routes/upstreams from the sidebar'' @ nl) = Some JNull"
    by code_simp
  then show ?thesis by (simp add: docToYaml_def True)
next
  case False
  assume "yaml_ok (JObj kvs)"
  then have "read_yaml (emitYaml (JObj kvs) 0 @ nl) = Some (JObj kvs)" by (rule read_emitted)
  then show ?thesis using False by (simp add: docToYaml_def del: emitYaml.simps)
qed

text \<open>
  C19. The YAML text that config studio shows, downloads and copies reads back as the document: for documents without nulls
  in lists, with keys made of letters, digits and \<open>_ - . /\<close>, and with strings that are quoted or do not look like a number
  or date, the text is one block that means exactly the document; the comment for an empty document means nothing.
\<close>

theorem yaml_text_reads_back:
  assumes "yaml_ok (JObj kvs)"
  shows "\<exists>t. docToYaml (JObj kvs) = Some t \<and> read_yaml t = Some (if kvs = [] then JNull else JObj kvs)"
  by (rule document_text [OF assms])

definition demo_yaml :: "(string \<times> jv) list" where
  "demo_yaml = [(''name'', JStr ''edge: http''), (''port'', jint 80), (''tls'', JNull),
     (''routes'', JArr [JObj [(''match'', JStr ''/v1''), (''tags'', JArr [])], JArr [JStr ''yes'', JBool False]])]"

theorem yaml_text_reads_back_witness:
  "\<exists>t. docToYaml (JObj demo_yaml) = Some t \<and> read_yaml t = Some (JObj demo_yaml)"
proof -
  have "yaml_ok (JObj demo_yaml)" and n: "demo_yaml \<noteq> []" by code_simp+
  from yaml_text_reads_back [OF this(1)] show ?thesis using n by simp
qed


definition demo_load :: "string \<Rightarrow> string + jv" where
  "demo_load t = (case read_yaml t of Some v \<Rightarrow> Inr v | None \<Rightarrow> Inl ''bad indentation'')"


end
