(* ===== verification/Studio_Highlight.thy ===== *)
theory Studio_Highlight
  imports Yaml_Roundtrip
begin

text \<open>
  The colours of the YAML pane of config studio: \<open>highlightYaml\<close>, which turns the text into HTML, and what a reader sees of it.
  The theorem says that the pane shows the text itself. A line with a line separator of Unicode is outside of the model.
\<close>

section \<open>Marking a line\<close>

text \<open>\<open>text.replace(/&/g, "&amp;").replace(/</g, "&lt;")\<close>.\<close>

definition esc_char :: "char \<Rightarrow> string" where
  "esc_char c = (if c = CHR ''&'' then ''&amp;'' else if c = CHR ''<'' then ''&lt;'' else [c])"

definition esc_html :: "string \<Rightarrow> string" where
  "esc_html s = concat (map esc_char s)"

text \<open>\<open>[A-Za-z0-9_.-]\<close>.\<close>

definition key_char :: "char \<Rightarrow> bool" where
  "key_char c = (letter c \<or> is_digit c \<or> c = CHR ''.'' \<or> c = CHR ''-'')"

text \<open>\<open>/^(\s*- )?([A-Za-z0-9_.-]+)(:)(.*)$/\<close>: the parts of a line, with and without the dash.\<close>

definition key_parts :: "string \<Rightarrow> string \<Rightarrow> (string \<times> string \<times> string) option" where
  "key_parts lead s = (let k = takeWhile key_char s in case dropWhile key_char s of [] \<Rightarrow> None
     | c # r \<Rightarrow> if k \<noteq> [] \<and> c = CHR '':'' \<and> CHR 0x0D \<notin> set r \<and> CHR 0x0A \<notin> set r then Some (lead, k, r) else None)"

definition line_parts :: "string \<Rightarrow> (string \<times> string \<times> string) option" where
  "line_parts s = (let w = takeWhile is_space s; t = dropWhile is_space s in
     case (if is_prefix ''- '' t then key_parts (w @ ''- '') (drop 2 t) else None) of Some x \<Rightarrow> Some x | None \<Rightarrow> key_parts [] s)"

text \<open>The class of a value, by its trimmed text.\<close>

definition hl_number :: "string \<Rightarrow> bool" where
  "hl_number s = (let r = (case s of c # q \<Rightarrow> if c = CHR ''-'' then q else s | [] \<Rightarrow> []);
       m = takeWhile digit_or_dot r; e = dropWhile digit_or_dot r in
     m \<noteq> [] \<and> (e = [] \<or> (hd e = CHR ''e'' \<or> hd e = CHR ''E'') \<and> drop_sign (tl e) \<noteq> [] \<and> list_all is_digit (drop_sign (tl e))))"

definition value_class :: "string \<Rightarrow> string option" where
  "value_class rest = (let t = js_trim rest in if to_lower t \<in> {''true'', ''false''} then Some ''y-b''
     else if hl_number t then Some ''y-n'' else if t = [] \<or> hd t = CHR ''#'' then None else Some ''y-s'')"

definition quote_c :: string where
  "quote_c = [CHR 0x22]"

definition span_of :: "string \<Rightarrow> string \<Rightarrow> string" where
  "span_of c t = ''<span class='' @ quote_c @ c @ quote_c @ ''>'' @ t @ ''</span>''"

definition drop_blank :: "string \<Rightarrow> string" where
  "drop_blank s = (case s of c # r \<Rightarrow> if c = CHR '' '' then r else s | [] \<Rightarrow> [])"

definition hl_line :: "string \<Rightarrow> string" where
  "hl_line s = (let t = dropWhile is_space s in if t \<noteq> [] \<and> hd t = CHR ''#'' then span_of ''y-c'' s
     else case line_parts s of None \<Rightarrow> s
       | Some (lead, k, rest) \<Rightarrow> lead @ span_of ''y-k'' k @ (case value_class rest of None \<Rightarrow> '':'' @ rest
           | Some c \<Rightarrow> '': '' @ span_of c (drop_blank rest)))"

definition highlightYaml :: "string \<Rightarrow> string" where
  "highlightYaml t = js_join nl (map hl_line (split_on (CHR 0x0A) (esc_html t)))"

section \<open>What is seen\<close>

text \<open>The text of an HTML fragment of tags, \<open>&amp;\<close> and \<open>&lt;\<close>; the flag says that the reader is inside a tag.\<close>

function html_text :: "bool \<Rightarrow> string \<Rightarrow> string" where
  "html_text b [] = []"
| "html_text b (c # s) = (if b then html_text (c \<noteq> CHR ''>'') s
     else if c = CHR ''<'' then html_text True s
     else if c = CHR ''&'' \<and> is_prefix ''amp;'' s then CHR ''&'' # html_text False (drop 4 s)
     else if c = CHR ''&'' \<and> is_prefix ''lt;'' s then CHR ''<'' # html_text False (drop 3 s)
     else c # html_text False s)"
  by pat_completeness auto
termination
  by (relation "measure (length \<circ> snd)") auto

text \<open>A value directly behind the colon of a key is shown with a blank; \<open>esc_html\<close> does not touch keys.\<close>

definition spaced :: "string \<Rightarrow> string" where
  "spaced l = (case line_parts (esc_html l) of
       Some (lead, k, rest) \<Rightarrow> if dropWhile is_space l \<noteq> [] \<and> hd (dropWhile is_space l) = CHR ''#'' then l
         else if value_class rest \<noteq> None \<and> \<not> is_prefix '' '' rest
         then take (length lead + length k + 1) l @ '' '' @ drop (length lead + length k + 1) l else l
     | None \<Rightarrow> l)"

lemma esc_html_simps [simp]: "esc_html [] = []" "esc_html (c # s) = esc_char c @ esc_html s" "esc_html (s @ t) = esc_html s @ esc_html t"
  by (simp_all add: esc_html_def)

lemma esc_plain: "c \<noteq> CHR ''&'' \<Longrightarrow> c \<noteq> CHR ''<'' \<Longrightarrow> esc_char c = [c]"
  by (simp add: esc_char_def)

lemma html_text_esc: "html_text False (esc_html s @ r) = s @ html_text False r"
proof (induction s)
  case (Cons c s)
  then show ?case by (cases "c = CHR ''&''"; cases "c = CHR ''<''") (simp_all add: esc_char_def)
qed simp

definition markup_free :: "string \<Rightarrow> bool" where
  "markup_free s = list_all (\<lambda>c. c \<noteq> CHR ''&'' \<and> c \<noteq> CHR ''<'') s"

lemma esc_markup_free: "markup_free s \<Longrightarrow> esc_html s = s"
  by (induction s) (auto simp: markup_free_def esc_plain)

lemma html_text_free: "markup_free s \<Longrightarrow> html_text False (s @ r) = s @ html_text False r"
  using html_text_esc [of s r] esc_markup_free by simp

text \<open>Skipping a tag.\<close>

lemma html_text_tag: "CHR ''>'' \<notin> set t \<Longrightarrow> html_text True (t @ CHR ''>'' # r) = html_text False r"
  by (induction t) auto

lemma html_text_span: "CHR ''>'' \<notin> set c \<Longrightarrow> html_text False (span_of c t @ r) = html_text False (t @ ''</span>'' @ r)"
  using html_text_tag [of "''span class='' @ quote_c @ c @ quote_c" "t @ ''</span>'' @ r"] by (simp add: span_of_def quote_c_def)

lemma html_text_close: "html_text False (''</span>'' @ r) = html_text False r"
  by simp

section \<open>The parts of an escaped line\<close>

lemma esc_while:
  assumes "\<not> P (CHR ''&'')" "\<not> P (CHR ''<'')"
  shows "takeWhile P (esc_html s) = takeWhile P s" "dropWhile P (esc_html s) = esc_html (dropWhile P s)" "markup_free (takeWhile P s)"
  using assms by (induction s) (auto simp: esc_char_def markup_free_def)

lemma esc_head: "esc_html s = c # r \<Longrightarrow> c \<noteq> CHR ''&'' \<Longrightarrow> \<exists>r'. s = c # r' \<and> r = esc_html r'"
  by (cases s) (auto simp: esc_char_def split: if_splits)

lemma esc_empty: "esc_html s = [] \<longleftrightarrow> s = []"
  by (cases s) (auto simp: esc_char_def)

lemma esc_head_iff: "c \<noteq> CHR ''&'' \<Longrightarrow> c \<noteq> CHR ''<'' \<Longrightarrow> (esc_html s \<noteq> [] \<and> hd (esc_html s) = c) = (s \<noteq> [] \<and> hd s = c)"
proof (cases s)
  case (Cons x t)
  assume "c \<noteq> CHR ''&''" "c \<noteq> CHR ''<''"
  then show ?thesis by (auto simp: Cons esc_char_def)
qed simp

lemma is_prefix_dash: "is_prefix ''- '' s \<longleftrightarrow> (\<exists>r. s = ''- '' @ r)"
  by (simp add: is_prefix_iff)

lemma key_not_markup: "\<not> key_char (CHR ''&'')" "\<not> key_char (CHR ''<'')" "\<not> is_space (CHR ''&'')" "\<not> is_space (CHR ''<'')"
  by (simp_all add: key_char_def letter_def is_digit_def is_space_def)

lemma key_parts_esc:
  assumes "key_parts lead (esc_html s) = Some (l, k, r)"
  obtains r' where "l = lead" "s = k @ '':'' @ r'" "r = esc_html r'" "markup_free k"
proof -
  note w = esc_while [OF key_not_markup(1,2), of s]
  obtain c q where q0: "esc_html (dropWhile key_char s) = c # q"
    using assms by (cases "esc_html (dropWhile key_char s)") (simp_all add: key_parts_def Let_def w(1,2))
  have "key_parts lead (esc_html s) = (if takeWhile key_char s \<noteq> [] \<and> c = CHR '':'' \<and> CHR 0x0D \<notin> set q \<and> CHR 0x0A \<notin> set q
      then Some (lead, takeWhile key_char s, q) else None)"
    by (simp add: key_parts_def Let_def w(1,2) q0)
  then have q: "c = CHR '':''" "r = q" "l = lead" "k = takeWhile key_char s" using assms by (auto split: if_splits)
  obtain r' where r': "dropWhile key_char s = c # r'" "q = esc_html r'" using esc_head [OF q0] q(1) by auto
  have "takeWhile key_char s @ dropWhile key_char s = s" by (rule takeWhile_dropWhile_id)
  then have "s = k @ '':'' @ r'" unfolding r'(1) q(1,4) by simp
  moreover have "markup_free k" using q(4) w(3) by simp
  ultimately show thesis using q(2,3) r'(2) by (intro that [of r']) simp_all
qed

lemma line_parts_esc:
  assumes "line_parts (esc_html s) = Some (l, k, r)"
  obtains r' where "s = l @ k @ '':'' @ r'" "r = esc_html r'" "markup_free l" "markup_free k"
proof -
  note w = esc_while [OF key_not_markup(3,4), of s]
  let ?w = "takeWhile is_space s" and ?t = "dropWhile is_space s"
  show thesis
  proof (cases "\<exists>x. is_prefix ''- '' (esc_html ?t) \<and> key_parts (?w @ ''- '') (drop 2 (esc_html ?t)) = Some x")
    case True
    then obtain u where u: "esc_html ?t = ''- '' @ u" "key_parts (?w @ ''- '') u = Some (l, k, r)"
      using assms by (auto simp: line_parts_def Let_def w is_prefix_dash)
    obtain u1 where u1: "?t = CHR ''-'' # u1" "CHR '' '' # u = esc_html u1" using esc_head [of ?t] u(1) by auto
    obtain u2 where u2: "u1 = CHR '' '' # u2" "u = esc_html u2" using esc_head [of u1] u1(2) [symmetric] by auto
    obtain r' where r': "l = ?w @ ''- ''" "u2 = k @ '':'' @ r'" "r = esc_html r'" "markup_free k"
      using key_parts_esc u(2) unfolding u2(2) by blast
    have "?w @ ?t = s" by (rule takeWhile_dropWhile_id)
    then have "s = ?w @ ''- '' @ u2" unfolding u1(1) u2(1) by simp
    moreover have "markup_free l" using r'(1) w(3) by (simp add: markup_free_def)
    ultimately show thesis using that r' by simp
  next
    case False
    then have "key_parts [] (esc_html s) = Some (l, k, r)"
      using assms by (auto simp: line_parts_def Let_def w split: if_splits option.splits)
    then obtain r' where "l = []" "s = k @ '':'' @ r'" "r = esc_html r'" "markup_free k" by (rule key_parts_esc)
    then show thesis using that [of r'] by (simp add: markup_free_def)
  qed
qed

lemma value_class_names: "value_class r = Some c \<Longrightarrow> CHR ''>'' \<notin> set c"
  by (auto simp: value_class_def Let_def split: if_splits)

lemma drop_blank_esc: "drop_blank (esc_html r) = esc_html (drop_blank r)"
  by (cases r) (auto simp: drop_blank_def esc_char_def)

lemma hl_line_seen: "html_text False (hl_line (esc_html l) @ x) = spaced l @ html_text False x"
proof -
  let ?t = "dropWhile is_space l"
  note w = esc_while [OF key_not_markup(3,4), of l]
  have c: "(esc_html ?t \<noteq> [] \<and> hd (esc_html ?t) = CHR ''#'') = (?t \<noteq> [] \<and> hd ?t = CHR ''#'')" by (rule esc_head_iff) simp_all
  show ?thesis
  proof (cases "?t \<noteq> [] \<and> hd ?t = CHR ''#''")
    case True
    then have "hl_line (esc_html l) = span_of ''y-c'' (esc_html l)" using c by (simp add: hl_line_def Let_def w)
    moreover have "spaced l = l" using True by (simp add: spaced_def split: option.splits)
    ultimately show ?thesis using html_text_span [of "''y-c''" "esc_html l" x] html_text_esc [of l "''</span>'' @ x"] by simp
  next
    case False
    show ?thesis
    proof (cases "line_parts (esc_html l)")
      case None
      then have "hl_line (esc_html l) = esc_html l" "spaced l = l" using False c by (auto simp: hl_line_def Let_def w spaced_def)
      then show ?thesis using html_text_esc by simp
    next
      case (Some p)
      obtain lead k r where p: "p = (lead, k, r)" by (cases p)
      obtain r' where r': "l = lead @ k @ '':'' @ r'" "r = esc_html r'" "markup_free lead" "markup_free k"
        using line_parts_esc Some p by blast
      have h: "hl_line (esc_html l) = lead @ span_of ''y-k'' k @ (case value_class r of None \<Rightarrow> '':'' @ r
           | Some c \<Rightarrow> '': '' @ span_of c (drop_blank r))"
        using False c Some p by (auto simp: hl_line_def Let_def w)
      have k: "html_text False (hl_line (esc_html l) @ x) = lead @ k @ html_text False ((case value_class r of None \<Rightarrow> '':'' @ r
           | Some c \<Rightarrow> '': '' @ span_of c (drop_blank r)) @ x)"
        unfolding h using html_text_free [OF r'(3)] html_text_span [of "''y-k''" k] html_text_free [OF r'(4)] by simp
      show ?thesis
      proof (cases "value_class r")
        case None
        then have "spaced l = l" using Some p by (simp add: spaced_def)
        then show ?thesis unfolding k None using html_text_esc [of r' x] r' by simp
      next
        case (Some cl)
        have "html_text False (hl_line (esc_html l) @ x) = lead @ k @ '': '' @ drop_blank r' @ html_text False x"
          unfolding k unfolding r'(2) Some [unfolded r'(2)] drop_blank_esc
          using html_text_span [OF value_class_names [OF Some], of "esc_html (drop_blank r')" x] html_text_esc [of "drop_blank r'" "''</span>'' @ x"] by simp
        moreover have "is_prefix '' '' r = is_prefix '' '' r'" unfolding r'(2) by (cases r') (auto simp: esc_char_def)
        moreover have "drop_blank r' = (if is_prefix '' '' r' then tl r' else r')" by (cases r') (auto simp: drop_blank_def)
        moreover have "is_prefix '' '' r' \<Longrightarrow> r' = CHR '' '' # tl r'" by (cases r') auto
        ultimately show ?thesis using \<open>line_parts (esc_html l) = Some p\<close> p Some False r'(1)
          by (auto simp: spaced_def)
      qed
    qed
  qed
qed

section \<open>The whole text\<close>

lemma split_on_nonempty: "split_on c s \<noteq> []"
  by (induction s) (auto split: list.splits)

lemma split_on_esc: "split_on (CHR 0x0A) (esc_html t) = map esc_html (split_on (CHR 0x0A) t)"
proof (induction t)
  case (Cons c t)
  obtain y ys where "split_on (CHR 0x0A) t = y # ys" using split_on_nonempty by (cases "split_on (CHR 0x0A) t") auto
  then show ?case using Cons by (auto simp: esc_char_def)
qed simp

lemma lines_seen: "html_text False (js_join nl (map (hl_line \<circ> esc_html) ls)) = js_join nl (map spaced ls)"
proof (induction ls)
  case (Cons l ls)
  show ?case
  proof (cases ls)
    case Nil
    then show ?thesis using hl_line_seen [of l "[]"] by simp
  next
    case (Cons a b)
    have "html_text False (nl @ x) = nl @ html_text False x" for x by (simp add: nl_def)
    then show ?thesis using hl_line_seen Cons.IH by (simp add: Cons js_join_Cons)
  qed
qed simp

lemma pane_text: "html_text False (highlightYaml t) = js_join nl (map spaced (split_on (CHR 0x0A) t))"
  using lines_seen [of "split_on (CHR 0x0A) t"] by (simp add: highlightYaml_def split_on_esc)

lemma join_split: "js_join nl (split_on (CHR 0x0A) t) = t"
proof (induction t)
  case (Cons c t)
  obtain y ys where "split_on (CHR 0x0A) t = y # ys" using split_on_nonempty by (cases "split_on (CHR 0x0A) t") auto
  then show ?case using Cons by (cases ys) (auto simp: nl_def)
qed simp

section \<open>Texts of documents\<close>

text \<open>A line in which every colon before the first quote is followed by a blank, or ends the line.\<close>

fun tight :: "string \<Rightarrow> bool" where
  "tight [] = True"
| "tight (c # l) = (c = CHR 0x22 \<or> tight l \<and> (c = CHR '':'' \<longrightarrow> l = [] \<or> hd l = CHR '' ''))"

lemma tight_colon: "tight (p @ CHR '':'' # r) \<Longrightarrow> CHR 0x22 \<notin> set p \<Longrightarrow> r = [] \<or> hd r = CHR '' ''"
  by (induction p) auto

lemma tight_append: "CHR '':'' \<notin> set p \<Longrightarrow> tight l \<Longrightarrow> tight (p @ l)"
  by (induction p) auto

lemma tight_plain: "CHR '':'' \<notin> set p \<Longrightarrow> tight p"
  using tight_append [of p "[]"] by simp

lemma parts_unquoted: "line_parts s = Some (lead, k, r) \<Longrightarrow> CHR 0x22 \<notin> set (lead @ k)"
proof -
  assume l: "line_parts s = Some (lead, k, r)"
  have q: "\<not> key_char (CHR 0x22)" "\<not> is_space (CHR 0x22)" by (simp_all add: key_char_def letter_def is_digit_def is_space_def)
  have kp: "CHR 0x22 \<notin> set x \<and> x' = y" if "key_parts y t = Some (x', x, z)" for x x' y z t
    using that q(1) by (auto simp: key_parts_def Let_def split: list.splits if_splits dest: set_takeWhileD)
  have "CHR 0x22 \<notin> set (takeWhile is_space s @ ''- '')" using q(2) by (auto dest: set_takeWhileD)
  moreover have "\<exists>y t. key_parts y t = Some (lead, k, r) \<and> (y = [] \<or> y = takeWhile is_space s @ ''- '')"
    using l by (auto simp: line_parts_def Let_def split: option.splits if_splits)
  ultimately show ?thesis using kp by fastforce
qed

lemma blank_class: "value_class [] = None"
  by code_simp

lemma tight_spaced: "tight l \<Longrightarrow> spaced l = l"
proof (cases "line_parts (esc_html l)")
  case (Some p)
  assume t: "tight l"
  obtain lead k r where p: "p = (lead, k, r)" by (cases p)
  obtain r' where r': "l = lead @ k @ '':'' @ r'" "r = esc_html r'" using line_parts_esc Some p by blast
  have "r' = [] \<or> hd r' = CHR '' ''" using tight_colon [of "lead @ k" r'] parts_unquoted [of "esc_html l" lead k r] t Some p r'(1) by simp
  then have "value_class r = None \<or> is_prefix '' '' r" unfolding r'(2) by (cases r') (auto simp: blank_class esc_char_def)
  then show ?thesis using Some p by (auto simp: spaced_def)
qed (simp add: spaced_def)

lemma stext_tight: "yaml_ok v \<Longrightarrow> \<not> is_block v \<Longrightarrow> tight (stext v)"
proof (cases v)
  case (JBool b)
  then show ?thesis by (cases b) (simp_all add: stext_def yamlScalar_def)
next
  case (JNum x)
  assume "yaml_ok v"
  then obtain n where "js_string v = int_str n" using JNum by (cases x) auto
  moreover have "\<not> is_digit (CHR '':'')" by (simp add: is_digit_def)
  ultimately show ?thesis using int_str_chars(1) [of n] JNum by (auto simp: stext_def yamlScalar_def intro!: tight_plain)
next
  case (JStr s)
  show ?thesis
  proof (cases "s = [] \<or> needs_quotes s")
    case True
    then show ?thesis by (auto simp: JStr stext_def yamlScalar_def yaml_text_def json_quote_def)
  next
    case False
    then have "CHR '':'' \<notin> set s" by (auto simp: needs_quotes_def list_ex_iff yaml_special_def)
    then show ?thesis using False by (simp add: JStr stext_def yamlScalar_def yaml_text_def tight_plain)
  qed
qed (auto simp: stext_def yamlScalar_def is_block_def)

lemma ytree_tight: "yaml_ok v \<Longrightarrow> l \<in> set (ytree n v) \<Longrightarrow> tight (snd l)"
proof (induction v arbitrary: n l rule: scalar_induct)
  case (Arr vs)
  show ?case
  proof (cases "vs = []")
    case False
    then obtain v where v: "v \<in> set vs" "l \<in> set (dashed n (ytree (n + 1) v))" using Arr.prems(2) by auto
    obtain t r where t: "ytree (n + 1) v = (2 * (n + 1), t) # r" "dashed n (ytree (n + 1) v) = (2 * n, ''- '' @ t) # r"
      using dashed_ytree by blast
    have g: "l' \<in> set (ytree (n + 1) v) \<Longrightarrow> tight (snd l')" for l' using Arr.IH v(1) Arr.prems(1) by (auto simp: list_all_iff)
    have "tight t" using g [of "(2 * (n + 1), t)"] unfolding t(1) by simp
    moreover have "l = (2 * n, ''- '' @ t) \<or> l \<in> set (ytree (n + 1) v)" using v(2) unfolding t(2) unfolding t(1) by auto
    ultimately show ?thesis using g [of l] by fastforce
  qed (use Arr.prems in simp)
next
  case (Obj kvs)
  show ?case
  proof (cases "kvs = []")
    case False
    then obtain k v where kv: "(k, v) \<in> set kvs" "l \<in> set (if is_block v then (2 * n, k @ '':'') # ytree (n + 1) v else [(2 * n, k @ '': '' @ stext v)])"
      using Obj.prems(2) by auto
    have ok: "safe_key k" "yaml_ok v" using Obj.prems(1) kv(1) by (auto simp: list_all_iff)
    show ?thesis
    proof (cases "is_block v \<and> l \<in> set (ytree (n + 1) v)")
      case True
      then show ?thesis using Obj.IH [OF kv(1) ok(2)] by blast
    next
      case False
      then show ?thesis using kv(2) tight_append [OF safe_key_facts(3) [OF ok(1)]] stext_tight [OF ok(2)] by (auto split: if_splits)
    qed
  qed (use Obj.prems in simp)
next
  case (Scalar v)
  then show ?case using stext_tight [of v] by (simp add: ytree_scalar)
qed

lemma spaced_comment: "dropWhile is_space l \<noteq> [] \<Longrightarrow> hd (dropWhile is_space l) = CHR ''#'' \<Longrightarrow> spaced l = l"
  by (auto simp: spaced_def split: option.splits)

lemma lines_of_text:
  assumes "ls \<noteq> []" "\<forall>l \<in> set ls. good_line l"
  shows "split_on (CHR 0x0A) (lines_text ls @ nl) = map show_line ls @ [[]]"
proof -
  have "\<forall>l \<in> set (map show_line ls). CHR 0x0A \<notin> set l" using assms(2) by (auto simp: show_line_def good_line_def)
  then show ?thesis using split_on_join [of "map show_line ls"] assms(1) by (simp add: lines_text_def nl_def)
qed

lemma show_tight: "tight t \<Longrightarrow> tight (show_line (i, t))"
  by (simp add: show_line_def tight_append)

text \<open>A key that contains a colon, which \<open>emitYaml\<close> does not quote, is shown with a blank; a key below the first column is not marked.\<close>

lemma colon_key_shown: "map_option (html_text False \<circ> highlightYaml) (docToYaml (JObj [(''a:b'', JBool True)])) = Some (''a: b: true'' @ nl)"
  by code_simp

lemma nested_key_unmarked:
  assumes "is_space c" "\<not> is_prefix ''- '' (dropWhile is_space l)" "dropWhile is_space l = [] \<or> hd (dropWhile is_space l) \<noteq> CHR ''#''"
  shows "hl_line (c # l) = c # l"
proof -
  have "\<not> key_char c" using assms(1) by (auto simp: is_space_def key_char_def letter_def is_digit_def Let_def)
  then show ?thesis using assms by (auto simp: hl_line_def Let_def line_parts_def key_parts_def)
qed

text \<open>
  C27. The pane shows the text it is given, up to a blank after the colon of a key; and for the text of a document whose keys are as
  in the schema it shows that text, whatever the document holds: no value is taken for markup.
\<close>

theorem pane_shows_text:
  "html_text False (highlightYaml t) = js_join nl (map spaced (split_on (CHR 0x0A) t)) \<and>
   (yaml_ok d \<longrightarrow> docToYaml d = Some t \<longrightarrow> html_text False (highlightYaml t) = t)"
proof (intro conjI impI)
  show g: "html_text False (highlightYaml t) = js_join nl (map spaced (split_on (CHR 0x0A) t))" by (rule pane_text)
  assume y: "yaml_ok d" and t: "docToYaml d = Some t"
  have s0: "spaced [] = []" by (simp add: tight_spaced)
  have "map spaced (split_on (CHR 0x0A) t) = split_on (CHR 0x0A) t"
  proof (cases "object_keys d = Some []")
    case True
    let ?c = "''# empty configuration - pick a template or add listeners/routes/upstreams from the sidebar''"
    have e: "t = js_join [CHR 0x0A] [?c] @ [CHR 0x0A]" using t True by (simp add: docToYaml_def nl_def)
    have "split_on (CHR 0x0A) t = [?c] @ [[]]" unfolding e by (rule split_on_join) simp_all
    moreover have "spaced ?c = ?c" by (rule spaced_comment) (simp_all add: is_space_def)
    ultimately show ?thesis using s0 by simp
  next
    case False
    then have "t = lines_text (ytree 0 d) @ nl" using t emitYaml_lines [OF y, of 0] by (auto simp: docToYaml_def split: if_splits)
    moreover have "ytree 0 d \<noteq> []" using ytree_first [of 0 d] by auto
    ultimately have l: "split_on (CHR 0x0A) t = map show_line (ytree 0 d) @ [[]]" using lines_of_text ytree_good [OF y] by blast
    have "spaced (show_line l') = show_line l'" if "l' \<in> set (ytree 0 d)" for l'
      using ytree_tight [OF y that] show_tight [of "snd l'" "fst l'"] by (intro tight_spaced) simp
    then show ?thesis unfolding l using s0 by simp
  qed
  then show "html_text False (highlightYaml t) = t" unfolding g using join_split by metis
qed

theorem pane_shows_text_witness:
  "let d = JObj [(''name'', JStr ''<b>&amp;</b>'')]; t = ''name: '' @ json_quote ''<b>&amp;</b>'' @ nl in
    docToYaml d = Some t \<and> html_text False (highlightYaml t) = t"
proof -
  have y: "yaml_ok (JObj [(''name'', JStr ''<b>&amp;</b>'')])" by code_simp
  have t: "docToYaml (JObj [(''name'', JStr ''<b>&amp;</b>'')]) = Some (''name: '' @ json_quote ''<b>&amp;</b>'' @ nl)" by code_simp
  show ?thesis using pane_shows_text y t unfolding Let_def by blast
qed

end
