(* ===== verification/Studio_Defaults.thy ===== *)
theory Studio_Defaults
  imports Studio_Check
begin

text \<open>
  Starter values of config studio (\<open>tools/config-studio/src/app.template.html\<close>): the classification of a schema for the
  forms (\<open>isOptional\<close>, \<open>typeName\<close>, \<open>unionInfo\<close>), the value of a new entry (\<open>variantDefault\<close>, \<open>defaultValue\<close>), and the
  editor of a union with a discriminator. Whether a new entry passes the validator of \<open>Studio_Check\<close> is what the
  lemmas are about. As there, \<open>None\<close> means that the fuel of \<open>coreOf\<close> ran out.
\<close>

section \<open>Kinds of schemas\<close>

definition isOptional :: "defs \<Rightarrow> schema \<Rightarrow> bool" where
  "isOptional D s0 = (let s = deref D s0 in
     (case stype_of s of Some (TMany ts) \<Rightarrow> ''null'' \<in> set ts | _ \<Rightarrow> False) \<or>
     (case anyOf s of Some [x, y] \<Rightarrow> isNullSchema (deref D x) \<or> isNullSchema (deref D y) | _ \<Rightarrow> False))"

definition prop_list :: "schema \<Rightarrow> (string \<times> schema) list" where
  "prop_list c = (case props c of None \<Rightarrow> [] | Some ps \<Rightarrow> ps)"

definition required_of :: "schema \<Rightarrow> string list" where
  "required_of c = (case required c of None \<Rightarrow> [] | Some rs \<Rightarrow> rs)"

text \<open>A constant, or an enumeration of strings that describes no object.\<close>

definition word_list :: "schema \<Rightarrow> bool" where
  "word_list d = (senum d \<noteq> None \<and> stype_of d = Some (TOne ''string''))"

definition scalar_choice :: "schema \<Rightarrow> bool" where
  "scalar_choice d = (sconst d \<noteq> None \<or> (word_list d \<and> props d = None))"

definition first_type :: "schema \<Rightarrow> string" where
  "first_type c = (case stype_of c of None \<Rightarrow> [] | Some (TOne t) \<Rightarrow> t | Some (TMany ts) \<Rightarrow> (case ts of [] \<Rightarrow> [] | t # _ \<Rightarrow> t))"

text \<open>\<open>typeName\<close> on the schema that \<open>coreOf\<close> returned.\<close>

definition kind_of :: "defs \<Rightarrow> schema \<Rightarrow> string" where
  "kind_of D c = (let t0 = first_type c;
       t = (if t0 = [] \<and> (case sref c of None \<Rightarrow> False | Some r \<Rightarrow> r \<noteq> []) then ''object'' else t0) in
     if senum c \<noteq> None \<or> (case oneOf c of None \<Rightarrow> False | Some vs \<Rightarrow> list_all (\<lambda>v. scalar_choice (deref D v)) vs) then ''choice''
     else if oneOf c \<noteq> None \<or> anyOf c \<noteq> None then ''union''
     else if t = ''array'' then ''array''
     else if t = ''object'' then
       (if prop_list c = [] \<and> (case addl_of c of AddlSchema _ \<Rightarrow> True | _ \<Rightarrow> False) then ''map'' else ''object'')
     else if t = [] then ''any'' else t)"

definition typeName :: "nat \<Rightarrow> defs \<Rightarrow> schema \<Rightarrow> string option" where
  "typeName n D s = map_option (kind_of D) (coreOf n D s)"

section \<open>Unions\<close>

text \<open>\<open>kind\<close>, \<open>disc\<close> and \<open>values\<close> of \<open>unionInfo\<close>, which goes with the list of variants.\<close>

datatype ukind = UConsts "jv list option" | UTagged string | UAlt

type_synonym uinfo = "ukind \<times> schema list"

text \<open>\<open>v.properties[pn].const\<close> where it is defined.\<close>

definition tag_of :: "schema \<Rightarrow> string \<Rightarrow> jv option" where
  "tag_of v pn = (case map_of (prop_list v) pn of None \<Rightarrow> None | Some s \<Rightarrow> sconst s)"

text \<open>The search for a property that carries a constant in every variant; the empty string stands for none.\<close>

fun tag_key :: "schema list \<Rightarrow> schema list \<Rightarrow> string \<Rightarrow> string" where
  "tag_key out [] d = d"
| "tag_key out (v # vs) d = (if d \<noteq> [] then d
     else tag_key out vs (case List.find (\<lambda>pn. list_all (\<lambda>w. tag_of w pn \<noteq> None) out) (map fst (prop_list v)) of
       None \<Rightarrow> d | Some pn \<Rightarrow> pn))"

definition scalar_values :: "schema \<Rightarrow> jv list" where
  "scalar_values v = (case sconst v of Some k \<Rightarrow> [k] | None \<Rightarrow> (case senum v of None \<Rightarrow> [] | Some ks \<Rightarrow> ks))"

definition variants_in :: "defs \<Rightarrow> schema \<Rightarrow> schema list" where
  "variants_in D c = filter (\<lambda>v. \<not> isNullSchema v) (map (deref D) (case variants_of c of None \<Rightarrow> [] | Some vs \<Rightarrow> vs))"

definition union_of :: "defs \<Rightarrow> schema \<Rightarrow> uinfo" where
  "union_of D c = (let out = variants_in D c in
     if out \<noteq> [] \<and> list_all (\<lambda>v. props v = None \<and> (sconst v \<noteq> None \<or> word_list v)) out
       then (UConsts (Some (concat (map scalar_values out))), out)
     else if list_all (\<lambda>v. sconst v \<noteq> None) out then (UConsts None, out)
     else let d = tag_key out out [] in
       if d \<noteq> [] \<and> 1 < length out then (UTagged d, out) else (UAlt, out))"

definition unionInfo :: "nat \<Rightarrow> defs \<Rightarrow> schema \<Rightarrow> uinfo option" where
  "unionInfo n D s = map_option (union_of D) (coreOf n D s)"

text \<open>\<open>ui.values || ui.variants.map(function (x) { return x.const; })\<close>.\<close>

definition union_values :: "uinfo \<Rightarrow> jv list" where
  "union_values ui = (case fst ui of UConsts (Some vs) \<Rightarrow> vs
     | _ \<Rightarrow> map (\<lambda>v. case sconst v of None \<Rightarrow> JUndef | Some k \<Rightarrow> k) (snd ui))"

section \<open>Starter values\<close>

text \<open>What \<open>variantDefault\<close> sets for one required field; \<open>Some None\<close> when a choice offers nothing.\<close>

definition starter_of :: "defs \<Rightarrow> schema \<Rightarrow> jv option" where
  "starter_of D c = (let t = kind_of D c in
     if t = ''object'' \<or> t = ''map'' then Some (JObj [])
     else if t = ''array'' then Some (JArr [])
     else if t = ''choice'' then
       (case (case senum c of Some vs \<Rightarrow> vs | None \<Rightarrow> union_values (union_of D c)) of [] \<Rightarrow> None | v # _ \<Rightarrow> Some v)
     else if t = ''boolean'' then Some (JBool False)
     else if t = ''integer'' \<or> t = ''number'' then Some (jint 0)
     else Some (JStr []))"

definition starter :: "nat \<Rightarrow> defs \<Rightarrow> schema option \<Rightarrow> jv option option" where
  "starter n D ps = (case ps of None \<Rightarrow> Some (Some (JStr [])) | Some s \<Rightarrow> map_option (starter_of D) (coreOf n D s))"

text \<open>The loop over the required fields.\<close>

fun fill_required :: "nat \<Rightarrow> defs \<Rightarrow> (string \<times> schema) list \<Rightarrow> string option \<Rightarrow> string list \<Rightarrow>
    (string \<times> jv) list \<Rightarrow> (string \<times> jv) list option" where
  "fill_required n D ps disc [] base = Some base"
| "fill_required n D ps disc (r # rs) base =
     (if Some r = disc \<or> js_get (JObj base) r \<noteq> Some JUndef then fill_required n D ps disc rs base
      else case starter n D (map_of ps r) of None \<Rightarrow> None
        | Some None \<Rightarrow> fill_required n D ps disc rs base
        | Some (Some v) \<Rightarrow> fill_required n D ps disc rs (obj_set r v base))"

definition tag_base :: "schema \<Rightarrow> string option \<Rightarrow> (string \<times> jv) list res" where
  "tag_base v disc = (case disc of None \<Rightarrow> Ok [] | Some d \<Rightarrow> if d = [] then Ok []
     else if props v = None then Throw
     else (case tag_of v d of None \<Rightarrow> Ok [] | Some k \<Rightarrow> if d = ''__proto__'' then Outside else Ok [(d, k)]))"

definition variantDefault :: "nat \<Rightarrow> defs \<Rightarrow> schema \<Rightarrow> string option \<Rightarrow> jv res option" where
  "variantDefault n D v disc = (case tag_base v disc of Throw \<Rightarrow> Some Throw | Outside \<Rightarrow> Some Outside
     | Ok base \<Rightarrow> map_option (\<lambda>kvs. Ok (JObj kvs)) (fill_required n D (prop_list v) disc (required_of v) base))"

definition defaultValue :: "nat \<Rightarrow> defs \<Rightarrow> schema \<Rightarrow> jv res option" where
  "defaultValue n D s = (case coreOf n D s of None \<Rightarrow> None | Some c \<Rightarrow>
     let t = kind_of D c; ui = union_of D c;
         picks = (case senum c of Some (v # _) \<Rightarrow> [v] | _ \<Rightarrow> union_values ui) in
     if t = ''object'' then variantDefault n D c None
     else if t = ''array'' then Some (Ok (JArr []))
     else if t = ''map'' then Some (Ok (JObj []))
     else if t = ''choice'' \<and> picks \<noteq> [] then Some (Ok (hd picks))
     else if t = ''union'' then
       (case fst ui of UTagged d \<Rightarrow> variantDefault n D (hd (snd ui)) (Some d)
         | UConsts (Some (v # _)) \<Rightarrow> Some (Ok v)
         | _ \<Rightarrow> Some (Ok (JObj [])))
     else if t = ''boolean'' then Some (Ok (JBool False))
     else if t = ''integer'' \<or> t = ''number'' then Some (Ok (jint 0))
     else Some (Ok (JStr [])))"

section \<open>The editor of a tagged union\<close>

definition tag_text :: "string \<Rightarrow> schema \<Rightarrow> string" where
  "tag_text d v = js_string (case tag_of v d of None \<Rightarrow> JUndef | Some k \<Rightarrow> k)"

text \<open>The discriminator of the value at the path, and the variant whose form is drawn.\<close>

definition current_tag :: "string \<Rightarrow> jv \<Rightarrow> jv" where
  "current_tag d v = (if truthy v \<and> js_typeof v = ''object'' then the (js_get v d) else JUndef)"

definition active_variant :: "string \<Rightarrow> schema list \<Rightarrow> jv \<Rightarrow> schema option" where
  "active_variant d vs v = List.find (\<lambda>w. tag_text d w = js_string (current_tag d v)) vs"

text \<open>The listener of the select box.\<close>

definition pick_tag :: "nat \<Rightarrow> defs \<Rightarrow> string \<Rightarrow> schema list \<Rightarrow> key list \<Rightarrow> string \<Rightarrow> studio \<Rightarrow> studio res option" where
  "pick_tag n D d vs path chosen s = (case List.find (\<lambda>w. tag_text d w = chosen) vs of
       None \<Rightarrow> Some (Ok s)
     | Some w \<Rightarrow> map_option (\<lambda>r. res_bind r (\<lambda>x. setPath path x s)) (variantDefault n D w (Some d)))"

section \<open>New entries\<close>

text \<open>
  The add button of \<open>arrayEditor\<close>, and the one of \<open>mapEditor\<close> with the starter value of the entries. A value that is
  no list makes \<open>arrayEditor\<close> fail before there is a button.
\<close>

definition add_item :: "nat \<Rightarrow> defs \<Rightarrow> schema \<Rightarrow> key list \<Rightarrow> studio \<Rightarrow> studio res option" where
  "add_item n D it path s = (case js_or (getPath path (sdoc s)) (JArr []) of
       JArr vs \<Rightarrow> map_option (\<lambda>r. res_bind r (\<lambda>x. setPath (path @ [KIdx (length vs)]) x s)) (defaultValue n D it)
     | _ \<Rightarrow> Some Outside)"

definition add_map_entry :: "nat \<Rightarrow> defs \<Rightarrow> schema \<Rightarrow> key list \<Rightarrow> string \<Rightarrow> studio \<Rightarrow> studio res option" where
  "add_map_entry n D val path name s = (let k = js_trim name in
     if k = [] \<or> js_get (js_or (getPath path (sdoc s)) (JObj [])) k \<noteq> Some JUndef then Some (Ok s)
     else map_option (\<lambda>r. res_bind r (\<lambda>x. add_entry path k x s)) (defaultValue n D val))"

section \<open>Laws\<close>

text \<open>Every field that the loop reaches and does not find set gets its starter value; nothing else changes.\<close>

lemma fill_get: "fill_required n D ps disc rs base = Some kvs \<Longrightarrow> js_get (JObj kvs) x =
   (if x \<in> set rs \<and> Some x \<noteq> disc \<and> js_get (JObj base) x = Some JUndef
    then Some (case the (starter n D (map_of ps x)) of None \<Rightarrow> JUndef | Some v \<Rightarrow> v) else js_get (JObj base) x)"
proof (induction rs arbitrary: base)
  case (Cons r rs)
  show ?case
  proof (cases "Some r = disc \<or> js_get (JObj base) r \<noteq> Some JUndef")
    case True
    then have "fill_required n D ps disc rs base = Some kvs" using Cons.prems by auto
    from Cons.IH [OF this] True show ?thesis by (auto simp del: js_get.simps)
  next
    case False
    then obtain w where w: "starter n D (map_of ps r) = Some w"
      using Cons.prems by (cases "starter n D (map_of ps r)") (auto simp del: js_get.simps)
    show ?thesis
    proof (cases w)
      case None
      then have "fill_required n D ps disc rs base = Some kvs" using Cons.prems False w by (auto simp del: js_get.simps)
      from Cons.IH [OF this] False w None show ?thesis by (auto simp del: js_get.simps)
    next
      case (Some v)
      then have "fill_required n D ps disc rs (obj_set r v base) = Some kvs" using Cons.prems False w by (auto simp del: js_get.simps)
      from Cons.IH [OF this] False w Some show ?thesis by (auto simp del: js_get.simps)
    qed
  qed
qed simp

lemma fill_member: "fill_required n D ps disc rs base = Some kvs \<Longrightarrow> map_of kvs x = Some w \<Longrightarrow>
    map_of base x = Some w \<or> (x \<in> set rs \<and> (map_of base x = None \<longrightarrow> x \<notin> set object_proto) \<and> starter n D (map_of ps x) = Some (Some w))"
proof (induction rs arbitrary: base)
  case (Cons r rs)
  show ?case
  proof (cases "Some r = disc \<or> js_get (JObj base) r \<noteq> Some JUndef")
    case True
    then have "fill_required n D ps disc rs base = Some kvs" using Cons.prems by auto
    from Cons.IH [OF this Cons.prems(2)] show ?thesis by auto
  next
    case False
    then obtain u where u: "starter n D (map_of ps r) = Some u"
      using Cons.prems by (cases "starter n D (map_of ps r)") (auto simp del: js_get.simps)
    show ?thesis
    proof (cases u)
      case None
      then have "fill_required n D ps disc rs base = Some kvs" using Cons.prems False u by (auto simp del: js_get.simps)
      from Cons.IH [OF this Cons.prems(2)] show ?thesis by auto
    next
      case (Some v)
      then have f: "fill_required n D ps disc rs (obj_set r v base) = Some kvs" using Cons.prems False u by (auto simp del: js_get.simps)
      have "map_of base r = None \<Longrightarrow> r \<notin> set object_proto"
        using False by (auto simp: proto_read_def)
      with Cons.IH [OF f Cons.prems(2)] Some u False show ?thesis
        by (auto simp: map_of_obj_set split: if_splits)
    qed
  qed
qed simp

lemma fill_ok: "fill_required n D ps disc rs base = Some kvs \<Longrightarrow> obj_ok base \<Longrightarrow> obj_ok kvs"
  by (induction rs arbitrary: base) (auto simp del: js_get.simps intro: obj_ok_set split: if_splits option.splits)

text \<open>The two shapes of \<open>conforms\<close> as equations, for a value that is there.\<close>

lemma conforms_value_iff:
  assumes "\<not> nullish v" "coreOf n D (deref D s) = Some c" "variants_of c = None"
  shows "conforms R D s v \<longleftrightarrow> (\<forall>t \<in> set (allOf_list c). conforms R D t v) \<and> value_error c v = None \<and> shape_ok R c v \<and>
    (\<forall>x \<in> set (parts c v). conforms R D (fst x) (snd x))" (is "_ \<longleftrightarrow> ?r")
proof
  assume "conforms R D s v"
  then show ?r
  proof cases
    case (conf_union m d vs t)
    then have "d = c" using coreOf_det assms(2) by metis
    then show ?thesis using conf_union assms(3) by simp
  next
    case (conf_value m d)
    then have "d = c" using coreOf_det assms(2) by metis
    then show ?thesis using conf_value by simp
  qed (use assms(1) in simp)
next
  show "conforms R D s v" if ?r
    using that assms by (intro conf_value [OF assms]) auto
qed

lemma conforms_union_iff:
  assumes "\<not> nullish v" "coreOf n D (deref D s) = Some c" "variants_of c = Some vs"
  shows "conforms R D s v \<longleftrightarrow> (\<exists>t \<in> set vs. conforms R D t v)"
proof
  assume "conforms R D s v"
  then show "\<exists>t \<in> set vs. conforms R D t v"
  proof cases
    case (conf_union m d ws t)
    then have "d = c" using coreOf_det assms(2) by metis
    then show ?thesis using conf_union assms(3) by auto
  next
    case (conf_value m d)
    then have "d = c" using coreOf_det assms(2) by metis
    then show ?thesis using conf_value assms(3) by simp
  qed (use assms(1) in simp)
next
  show "conforms R D s v" if "\<exists>t \<in> set vs. conforms R D t v"
    using that conf_union [OF assms] by blast
qed

text \<open>The chain of references of a schema ends within what \<open>deref\<close> follows; then the forms and the validator see the same core.\<close>

definition ref_ends :: "defs \<Rightarrow> schema \<Rightarrow> bool" where
  "ref_ends D s = (case sref (deref D s) of None \<Rightarrow> True | Some r \<Rightarrow> r = [])"

lemma deref_resolved: "ref_ends D s \<Longrightarrow> deref D (deref D s) = deref D s"
proof -
  have stop: "case sref t of None \<Rightarrow> True | Some r \<Rightarrow> r = [] \<Longrightarrow> deref_loop k D t = t" for k t
    by (cases k) (simp_all split: option.splits)
  assume "ref_ends D s"
  then show ?thesis using stop [of "deref D s" 20] unfolding ref_ends_def by (simp add: deref_def [of D "deref D s"])
qed

lemma coreOf_resolved: "ref_ends D s \<Longrightarrow> coreOf n D (deref D s) = coreOf n D s"
  by (cases n) (simp_all add: deref_resolved)

lemma kind_object:
  assumes "kind_of D c = ''object''"
  shows "variants_of c = None \<and> senum c = None \<and> type_error c (JObj kvs) = None"
proof -
  have v: "variants_of c = None" and e: "senum c = None"
    using assms by (auto simp: kind_of_def variants_of_def Let_def split: if_splits option.splits)
  have t: "first_type c = [] \<or> first_type c = ''object''"
    using assms by (auto simp: kind_of_def Let_def split: if_splits)
  have "type_of c \<in> {None, Some [], Some ''object''}" if "first_type c = [] \<or> first_type c = ''object''"
    using that by (auto simp: type_of_def first_type_def split: option.splits stype.splits list.splits if_splits)
  then show ?thesis using v e t by (auto simp: type_error_def)
qed

text \<open>A required field of a new entry: it has a starter value, which is allowed and conforms; inherited names need none.\<close>

definition field_starts :: "(string \<Rightarrow> string \<Rightarrow> bool option) \<Rightarrow> nat \<Rightarrow> defs \<Rightarrow> schema \<Rightarrow> string \<Rightarrow> bool" where
  "field_starts R n D c r = (r \<in> set object_proto \<or>
     (\<exists>w. starter n D (map_of (prop_list c) r) = Some (Some w) \<and> \<not> nullish w \<and>
        (case member_rule c r of AddlAny \<Rightarrow> True | AddlFalse \<Rightarrow> False | AddlSchema t \<Rightarrow> conforms R D t w)))"

lemma new_object:
  assumes "coreOf n D s = Some c" "kind_of D c = ''object''" "defaultValue n D s = Some (Ok v)"
  obtains kvs where "v = JObj kvs" "fill_required n D (prop_list c) None (required_of c) [] = Some kvs" "obj_ok kvs"
proof -
  obtain kvs where k: "v = JObj kvs" "fill_required n D (prop_list c) None (required_of c) [] = Some kvs"
    using assms by (auto simp: defaultValue_def variantDefault_def tag_base_def)
  then show ?thesis using that fill_ok [OF k(2)] by (simp add: obj_ok_def)
qed

lemma new_object_field:
  assumes f: "fill_required n D (prop_list c) None (required_of c) [] = Some kvs" and r: "r \<in> set (required_of c)"
  shows "js_get (JObj kvs) r = Some (if r \<in> set object_proto then JFun r
    else case the (starter n D (map_of (prop_list c) r)) of None \<Rightarrow> JUndef | Some w \<Rightarrow> w)"
  using fill_get [OF f, of r] r by (simp add: proto_read_def)

lemma new_object_members:
  assumes f: "fill_required n D (prop_list c) None (required_of c) [] = Some kvs" and o: "obj_ok kvs" and m: "(k, w) \<in> set kvs"
  shows "k \<in> set (required_of c) \<and> k \<notin> set object_proto \<and> starter n D (map_of (prop_list c) k) = Some (Some w)"
proof -
  have "map_of kvs k = Some w" using o m by (simp add: obj_ok_def)
  from fill_member [OF f this] show ?thesis by simp
qed

lemma new_field_iff:
  assumes f: "fill_required n D (prop_list c) None (required_of c) [] = Some kvs" and o: "obj_ok kvs" and x: "x \<in> set (required_of c)"
  shows "field_starts R n D c x \<longleftrightarrow> \<not> nullish (the (js_get (JObj kvs) x)) \<and>
    (\<forall>w. (x, w) \<in> set kvs \<longrightarrow> member_rule c x \<noteq> AddlFalse \<and> (\<forall>t. member_rule c x = AddlSchema t \<longrightarrow> conforms R D t w))"
proof (cases "x \<in> set object_proto")
  case True
  then show ?thesis using new_object_field [OF f x] new_object_members [OF f o, of x]
    by (auto simp: field_starts_def nullish_def simp del: js_get.simps)
next
  case False
  have get: "js_get (JObj kvs) x = Some (case the (starter n D (map_of (prop_list c) x)) of None \<Rightarrow> JUndef | Some w \<Rightarrow> w)"
    using new_object_field [OF f x] False by (simp del: js_get.simps)
  show ?thesis
  proof (cases "nullish (the (js_get (JObj kvs) x))")
    case True
    then show ?thesis using get False by (auto simp: field_starts_def simp del: js_get.simps)
  next
    case nn: False
    then obtain w where w: "js_get (JObj kvs) x = Some w" "\<not> nullish w"
      using get by (auto simp del: js_get.simps)
    then have "map_of kvs x = Some w" using False by (auto simp: proto_read_def nullish_def split: option.splits if_splits)
    then have i: "(x, w) \<in> set kvs" by (rule map_of_SomeD)
    have u: "(x, w') \<in> set kvs \<longleftrightarrow> w' = w" for w' using i o by (auto simp: obj_ok_def eq_key_imp_eq_value)
    have s: "starter n D (map_of (prop_list c) x) = Some (Some w)" using new_object_members [OF f o i] by blast
    show ?thesis unfolding field_starts_def u s using False w by (cases "member_rule c x") (simp_all del: js_get.simps)
  qed
qed

lemma new_object_conforms:
  assumes r: "ref_ends D s" and c: "coreOf n D s = Some c" "kind_of D c = ''object''" and d: "defaultValue n D s = Some (Ok v)"
  shows "conforms R D s v \<longleftrightarrow>
    sconst c = None \<and> (\<forall>t \<in> set (allOf_list c). conforms R D t v) \<and> list_all (field_starts R n D c) (required_of c)"
proof -
  obtain kvs where v: "v = JObj kvs" and f: "fill_required n D (prop_list c) None (required_of c) [] = Some kvs" and o: "obj_ok kvs"
    using new_object [OF c d] .
  note k = kind_object [OF c(2)]
  have n: "\<not> nullish v" by (simp add: v nullish_def)
  have c': "coreOf n D (deref D s) = Some c" using coreOf_resolved [OF r] c(1) by simp
  have e: "value_error c v = None \<longleftrightarrow> sconst c = None"
    using k by (simp add: value_error_def v split: option.splits)
  have shape: "shape_ok R c v \<longleftrightarrow> (\<forall>x \<in> set (required_of c). \<not> nullish (the (js_get (JObj kvs) x))) \<and>
      (\<forall>x w. (x, w) \<in> set kvs \<longrightarrow> member_rule c x \<noteq> AddlFalse)"
    by (auto simp: shape_ok_def v required_of_def)
  have parts: "(\<forall>x \<in> set (parts c v). conforms R D (fst x) (snd x)) \<longleftrightarrow>
      (\<forall>x w. (x, w) \<in> set kvs \<longrightarrow> (\<forall>t. member_rule c x = AddlSchema t \<longrightarrow> conforms R D t w))"
  proof -
    have "(\<forall>x \<in> set (parts c v). conforms R D (fst x) (snd x)) \<longleftrightarrow> (\<forall>t w. (t, w) \<in> set (parts c v) \<longrightarrow> conforms R D t w)" by auto
    then show ?thesis unfolding in_parts v by blast
  qed
  have "(x, w) \<in> set kvs \<Longrightarrow> x \<in> set (required_of c)" for x w using new_object_members [OF f o] by blast
  then have "shape_ok R c v \<and> (\<forall>x \<in> set (parts c v). conforms R D (fst x) (snd x)) \<longleftrightarrow> list_all (field_starts R n D c) (required_of c)"
    unfolding shape parts list_all_iff using new_field_iff [OF f o] by blast
  then show ?thesis using conforms_value_iff [OF n c' conjunct1 [OF k], of R] e by argo
qed

lemma setPath_read:
  assumes "setPath path x s = Ok s'" "list_all idx_ok path"
  shows "getPath path (sdoc s') = x"
proof (cases "path = []")
  case False
  then obtain d where "set_at path x (sdoc s) = Ok d" "s' = persist (s\<lparr>sdoc := d\<rparr>)"
    using assms(1) by (cases "set_at path x (sdoc s)") (auto simp: setPath_def)
  then show ?thesis using set_at_same [OF _ assms(2)] by (simp add: persist_def)
qed (use assms(1) in \<open>auto simp: setPath_def\<close>)

lemma add_item_value:
  assumes "add_item n D it path s = Some (Ok s')" and "js_or (getPath path (sdoc s)) (JArr []) = JArr vs"
    and "list_all idx_ok path" and "int (length vs) < 4294967295"
  shows "defaultValue n D it = Some (Ok (getPath (path @ [KIdx (length vs)]) (sdoc s')))"
proof -
  obtain r where r: "defaultValue n D it = Some r" "res_bind r (\<lambda>x. setPath (path @ [KIdx (length vs)]) x s) = Ok s'"
    using assms(1,2) by (auto simp: add_item_def)
  then obtain x where x: "r = Ok x" "setPath (path @ [KIdx (length vs)]) x s = Ok s'" by (cases r) auto
  have "list_all idx_ok (path @ [KIdx (length vs)])" using assms(3,4) by (simp add: idx_ok_def)
  then show ?thesis using setPath_read [OF x(2)] r(1) x(1) by simp
qed

text \<open>A schema whose values are mappings only.\<close>

definition mapping_only :: "nat \<Rightarrow> defs \<Rightarrow> schema \<Rightarrow> bool" where
  "mapping_only n D s = (case coreOf n D (deref D s) of None \<Rightarrow> False
     | Some c \<Rightarrow> variants_of c = None \<and> type_of c = Some ''object'')"

lemma mapping_only_no_text: "mapping_only n D s \<Longrightarrow> \<not> conforms R D s (JStr x)"
  using conforms_value_iff [of "JStr x" n D s]
  by (auto simp: mapping_only_def nullish_def value_error_def type_error_def split: option.splits)

lemma kind_union: "kind_of D c = ''union'' \<Longrightarrow> first_type c \<noteq> ''union'' \<Longrightarrow> \<exists>vs. variants_of c = Some vs"
  by (auto simp: kind_of_def variants_of_def Let_def split: if_splits option.splits)

lemma tag_key_all: "list_all (\<lambda>w. d \<noteq> [] \<longrightarrow> tag_of w d \<noteq> None) out \<Longrightarrow> tag_key out vs d = k \<Longrightarrow> k \<noteq> [] \<Longrightarrow>
    list_all (\<lambda>w. tag_of w k \<noteq> None) out"
proof (induction vs arbitrary: d)
  case (Cons v vs)
  show ?case
  proof (cases "d \<noteq> []")
    case False
    let ?f = "List.find (\<lambda>pn. list_all (\<lambda>w. tag_of w pn \<noteq> None) out) (map fst (prop_list v))"
    have "list_all (\<lambda>w. tag_of w pn \<noteq> None) out" if "?f = Some pn" for pn
      using that by (auto simp: find_Some_iff)
    then show ?thesis using Cons False by (cases ?f) (auto simp: list_all_iff)
  qed (use Cons.prems in \<open>simp add: list_all_iff\<close>)
qed (simp add: list_all_iff)

lemma tagged_union: "union_of D c = (UTagged d, vs) \<Longrightarrow> d \<noteq> [] \<and> list_all (\<lambda>w. tag_of w d \<noteq> None) vs"
  using tag_key_all [of "[]" "variants_in D c" "variants_in D c" d]
  by (auto simp: union_of_def Let_def list_all_iff split: if_splits)

lemma variantDefault_tag:
  assumes "variantDefault n D w (Some d) = Some (Ok v)" "tag_of w d = Some k" "d \<noteq> []"
  obtains kvs where "v = JObj kvs" "js_get v d = Some k" "fill_required n D (prop_list w) (Some d) (required_of w) [(d, k)] = Some kvs"
proof -
  have "tag_base w (Some d) = Ok [(d, k)]"
    using assms by (auto simp: variantDefault_def tag_base_def split: if_splits)
  then obtain kvs where k: "v = JObj kvs" "fill_required n D (prop_list w) (Some d) (required_of w) [(d, k)] = Some kvs"
    using assms(1) by (auto simp: variantDefault_def)
  moreover have "js_get v d = Some k" using fill_get [OF k(2), of d] k(1) by simp
  ultimately show ?thesis using that by blast
qed

section \<open>Examples\<close>

text \<open>Routes as the schema of the gateway has them, cut down: an action is a union with the discriminator \<open>type\<close>.\<close>

definition plain_type :: "string \<Rightarrow> schema" where
  "plain_type t = with_type t empty_schema"

definition const_text :: "string \<Rightarrow> schema" where
  "const_text k = Schema None (Some (TOne ''string'')) None None None None (Some (JStr k)) no_bounds None None None AddlAny None"

definition object_of :: "string list \<Rightarrow> (string \<times> schema) list \<Rightarrow> schema" where
  "object_of rs ps = Schema None (Some (TOne ''object'')) None None None None None no_bounds None (Some rs) (Some ps) AddlFalse None"

definition one_of :: "schema list \<Rightarrow> schema" where
  "one_of vs = Schema None None None (Some vs) None None None no_bounds None None None AddlAny None"

definition proxy_schema :: schema where
  "proxy_schema = object_of [''type'', ''service''] [(''type'', const_text ''proxy''), (''service'', plain_type ''string'')]"

definition respond_schema :: schema where
  "respond_schema = object_of [''type'', ''status''] [(''type'', const_text ''respond''), (''status'', plain_type ''integer''), (''body'', plain_type ''string'')]"

definition action_schema :: schema where
  "action_schema = one_of [proxy_schema, respond_schema]"

definition route_schema :: schema where
  "route_schema = object_of [''name'', ''action''] [(''name'', plain_type ''string''), (''action'', action_schema)]"

definition route_defs :: defs where
  "route_defs = [(''Action'', action_schema), (''Route'', route_schema), (''Item'', object_of [''name'', ''weight''] [(''name'', plain_type ''string''), (''weight'', plain_type ''integer'')])]"

definition no_engine :: "string \<Rightarrow> string \<Rightarrow> bool option" where
  "no_engine re t = None"

lemma demo_values:
  "unionInfo 5 route_defs (ref_to ''Action'') = Some (UTagged ''type'', [proxy_schema, respond_schema])"
  "defaultValue 5 route_defs (ref_to ''Action'') = Some (Ok (JObj [(''type'', JStr ''proxy''), (''service'', JStr [])]))"
  "defaultValue 5 route_defs (ref_to ''Route'') = Some (Ok (JObj [(''name'', JStr []), (''action'', JStr [])]))"
  by code_simp+

definition list_studio :: studio where
  "list_studio = \<lparr>sdoc = JObj [(''list'', JArr [JObj []])], saveDue = False, stored = None\<rparr>"

lemma demo_added:
  "add_item 5 route_defs (ref_to ''Item'') [KName ''list''] list_studio = Some (Ok (list_studio\<lparr>sdoc :=
     JObj [(''list'', JArr [JObj [], JObj [(''name'', JStr []), (''weight'', jint 0)]])], saveDue := True\<rparr>))"
  "add_item 5 route_defs (ref_to ''Route'') [KName ''list''] list_studio = Some (Ok (list_studio\<lparr>sdoc :=
     JObj [(''list'', JArr [JObj [], JObj [(''name'', JStr []), (''action'', JStr [])]])], saveDue := True\<rparr>))"
  by code_simp+

section \<open>Properties\<close>



text \<open>
  A required field that is a union of mappings makes every new entry fail: \<open>variantDefault\<close> starts it with the
  empty string, which no variant accepts, so the validator reports an issue for the entry as soon as it is added.
\<close>

theorem required_union_unfilled:
  assumes "add_item n D it path s = Some (Ok s')" and "js_or (getPath path (sdoc s)) (JArr []) = JArr vs"
    and "list_all idx_ok path" and "int (length vs) < 4294967295"
    and "ref_ends D it" and "coreOf n D it = Some c" and "kind_of D c = ''object''"
    and "r \<in> set (required_of c)" and "r \<notin> set object_proto" and "map_of (prop_list c) r = Some t"
    and "ref_ends D t" and "coreOf n D t = Some u" and "kind_of D u = ''union''"
    and "variants_of u = Some us" and "list_all (mapping_only k D) us"
    and "checkNode m R D it (getPath (path @ [KIdx (length vs)]) (sdoc s')) p = Some (b, xs)"
  shows "getPath (path @ [KIdx (length vs), KName r]) (sdoc s') = JStr [] \<and> \<not> b \<and> xs \<noteq> []"
proof -
  let ?v = "getPath (path @ [KIdx (length vs)]) (sdoc s')"
  note d = add_item_value [OF assms(1-4)]
  have w: "starter n D (map_of (prop_list c) r) = Some (Some (JStr []))"
    using assms(10,12,13) by (simp add: starter_def starter_of_def)
  obtain kvs where v: "?v = JObj kvs" and f: "fill_required n D (prop_list c) None (required_of c) [] = Some kvs"
    using new_object [OF assms(6,7) d] .
  have "js_get ?v r = Some (JStr [])" using new_object_field [OF f assms(8)] assms(9) w v by (simp del: js_get.simps)
  then have g: "getPath (path @ [KIdx (length vs), KName r]) (sdoc s') = JStr []"
    using getPath_append [of "path @ [KIdx (length vs)]" "[KName r]"] v by (simp add: nullish_def del: js_get.simps)
  have "\<not> conforms R D t (JStr [])"
    using conforms_union_iff [of "JStr []" n D t u us] coreOf_resolved [OF assms(11)] assms(12,14,15) mapping_only_no_text
    by (auto simp: nullish_def list_all_iff)
  then have "\<not> field_starts R n D c r" using w assms(9,10) by (simp add: field_starts_def member_rule_def prop_list_def)
  then have "\<not> conforms R D it ?v" using new_object_conforms [OF assms(5-7) d] assms(8) by (auto simp: list_all_iff)
  then have nb: "\<not> b" using accepted_conforms [OF assms(16)] by auto
  moreover have "xs \<noteq> []" using checkNode_sound [OF assms(16)] nb by (auto simp: sound_def)
  ultimately show ?thesis using g by blast
qed

theorem required_union_unfilled_witness:
  "\<exists>s'. add_item 5 route_defs (ref_to ''Route'') [KName ''list''] list_studio = Some (Ok s') \<and>
     (\<exists>xs. checkNode 9 no_engine route_defs (ref_to ''Route'') (getPath [KName ''list'', KIdx 1] (sdoc s')) [] = Some (False, xs) \<and> xs \<noteq> [])"
proof -
  let ?s = "list_studio\<lparr>sdoc := JObj [(''list'', JArr [JObj [], JObj [(''name'', JStr []), (''action'', JStr [])]])], saveDue := True\<rparr>"
  have h: "js_or (getPath [KName ''list''] (sdoc list_studio)) (JArr []) = JArr [JObj []]" "list_all idx_ok [KName ''list'']"
    "ref_ends route_defs (ref_to ''Route'')" "coreOf 5 route_defs (ref_to ''Route'') = Some route_schema"
    "kind_of route_defs route_schema = ''object''" "''action'' \<in> set (required_of route_schema)" "''action'' \<notin> set object_proto"
    "map_of (prop_list route_schema) ''action'' = Some action_schema" "ref_ends route_defs action_schema"
    "coreOf 5 route_defs action_schema = Some action_schema" "kind_of route_defs action_schema = ''union''"
    "variants_of action_schema = Some [proxy_schema, respond_schema]" "list_all (mapping_only 5 route_defs) [proxy_schema, respond_schema]"
    "checkNode 9 no_engine route_defs (ref_to ''Route'') (getPath ([KName ''list''] @ [KIdx (length [JObj []])]) (sdoc ?s)) [] \<noteq> None"
    by code_simp+
  then obtain b xs where c: "checkNode 9 no_engine route_defs (ref_to ''Route'') (getPath ([KName ''list''] @ [KIdx (length [JObj []])]) (sdoc ?s)) [] = Some (b, xs)"
    by auto
  have l: "int (length [JObj []]) < 4294967295" and e: "[KName ''list''] @ [KIdx (length [JObj []])] = [KName ''list'', KIdx 1]" by simp_all
  have b: "b = False" and x: "xs \<noteq> []" using required_union_unfilled [OF demo_added(2) h(1,2) l h(3-13) c] by blast+
  show ?thesis by (intro exI conjI) (rule demo_added(2), rule c [unfolded e b], rule x)
qed

text \<open>
  C31. Choosing a variant in the editor of a tagged union selects it: the value at the path then carries the chosen
  discriminator and every required field with a starter value, the editor draws the form of that variant, and nothing
  beside the path changes. A choice that names no variant, such as \<open>(omit)\<close> of an optional field, changes nothing at all.
\<close>

theorem picked_variant_drawn:
  assumes "unionInfo n D u = Some (UTagged d, vs)" and "pick_tag n D d vs path chosen s = Some (Ok s')" and "list_all idx_ok path"
    and "path \<noteq> []"
  shows "case List.find (\<lambda>w. tag_text d w = chosen) vs of None \<Rightarrow> s' = s
    | Some w \<Rightarrow> active_variant d vs (getPath path (sdoc s')) = Some w \<and>
        js_get (getPath path (sdoc s')) d = Some (the (tag_of w d)) \<and> js_string (the (tag_of w d)) = chosen \<and>
        (\<forall>r \<in> set (required_of w) - {d} - set object_proto. \<forall>x. starter n D (map_of (prop_list w) r) = Some (Some x) \<longrightarrow>
           js_get (getPath path (sdoc s')) r = Some x) \<and>
        (\<forall>q. parts_from q path \<longrightarrow> getPath q (sdoc s') = getPath q (sdoc s))"
proof (cases "List.find (\<lambda>w. tag_text d w = chosen) vs")
  case None
  then show ?thesis using assms(2) by (simp add: pick_tag_def)
next
  case (Some w)
  have d: "d \<noteq> []" "list_all (\<lambda>w. tag_of w d \<noteq> None) vs"
    using assms(1) tagged_union by (auto simp: unionInfo_def)
  have w: "w \<in> set vs" "tag_text d w = chosen" using Some by (auto simp: find_Some_iff)
  then obtain k where k: "tag_of w d = Some k" using d(2) by (auto simp: list_all_iff)
  obtain v where v: "variantDefault n D w (Some d) = Some (Ok v)" "setPath path v s = Ok s'"
    using assms(2) Some by (auto simp: pick_tag_def split: res.splits elim!: res_bind.elims)
  obtain kvs where o: "v = JObj kvs" "js_get v d = Some k"
    and f: "fill_required n D (prop_list w) (Some d) (required_of w) [(d, k)] = Some kvs"
    using variantDefault_tag [OF v(1) k d(1)] .
  have g: "getPath path (sdoc s') = v" using setPath_read [OF v(2) assms(3)] .
  have t: "js_string k = chosen" using w(2) k by (simp add: tag_text_def)
  have "active_variant d vs v = Some w" using Some o t by (simp add: active_variant_def current_tag_def del: js_get.simps)
  moreover have "js_get v r = Some x"
    if "r \<in> set (required_of w) - {d} - set object_proto" "starter n D (map_of (prop_list w) r) = Some (Some x)" for r x
    using fill_get [OF f, of r] that o(1) by (simp add: proto_read_def)
  moreover have "getPath q (sdoc s') = getPath q (sdoc s)" if "parts_from q path" for q
  proof -
    obtain e where "set_at path v (sdoc s) = Ok e" "s' = persist (s\<lparr>sdoc := e\<rparr>)"
      using v(2) assms(4) by (cases "set_at path v (sdoc s)") (auto simp: setPath_def)
    then show ?thesis using doc.get_put_other [OF _ that assms(3)] by (simp add: persist_def)
  qed
  ultimately show ?thesis using Some g o(2) k t by simp
qed

theorem picked_variant_drawn_witness:
  "\<exists>s'. pick_tag 5 route_defs ''type'' [proxy_schema, respond_schema] [KName ''list'', KIdx 0, KName ''action''] ''respond'' list_studio = Some (Ok s') \<and>
     active_variant ''type'' [proxy_schema, respond_schema] (getPath [KName ''list'', KIdx 0, KName ''action''] (sdoc s')) = Some respond_schema"
proof -
  let ?p = "[KName ''list'', KIdx 0, KName ''action'']" and ?vs = "[proxy_schema, respond_schema]"
  have h: "list_all idx_ok ?p" "?p \<noteq> []" "List.find (\<lambda>w. tag_text ''type'' w = ''respond'') ?vs = Some respond_schema"
    "case pick_tag 5 route_defs ''type'' ?vs ?p ''respond'' list_studio of Some (Ok s') \<Rightarrow> True | _ \<Rightarrow> False"
    by code_simp+
  then obtain s' where s: "pick_tag 5 route_defs ''type'' ?vs ?p ''respond'' list_studio = Some (Ok s')"
    by (auto split: option.splits res.splits)
  show ?thesis using picked_variant_drawn [OF demo_values(1) s h(1,2)] s h(3) by simp
qed

end
