(* ===== verification/Studio_Diagram.thy ===== *)
theory Studio_Diagram
  imports Studio_Issues
begin

text \<open>
  The request flow diagram of config studio (\<open>tools/config-studio/src/app.template.html\<close>): \<open>genRequestFlow\<close> writes a Mermaid
  text with one node for every listener, route, service, upstream and endpoint and an edge for every reference. The lines
  are data, \<open>line_text\<close> is their text; the counter and the map from nodes to paths are reset before a diagram is generated.
  As in \<open>Studio_Issues\<close>, \<open>None\<close> is a \<open>TypeError\<close>.
\<close>

section \<open>Lines\<close>

definition replace_char :: "char \<Rightarrow> string \<Rightarrow> string \<Rightarrow> string" where
  "replace_char c t s = concat (map (\<lambda>x. if x = c then t else [x]) s)"

definition escape_text :: "string \<Rightarrow> string" where
  "escape_text s = replace_char (CHR 0x22) ''&quot;'' (replace_char (CHR ''>'') ''&gt;'' (replace_char (CHR ''<'') ''&lt;'' (replace_char (CHR ''&'') ''&amp;'' s)))"

definition mEsc :: "jv \<Rightarrow> string" where
  "mEsc v = escape_text (if nullish v then [] else js_string v)"

definition mLabel :: "jv list \<Rightarrow> string" where
  "mLabel vs = js_join ''<br/>'' (map mEsc vs)"

definition matchStr :: "jv \<Rightarrow> string" where
  "matchStr m = (if \<not> truthy m \<or> \<not> truthy (sub m ''path'') then ''?''
     else case sub m ''path'' of JStr p \<Rightarrow> p
       | mp \<Rightarrow> (if truthy (sub mp ''type'') then js_string (sub mp ''type'') @ '':'' else []) @ js_string (js_or (sub mp ''value'') (JStr ''?'')))"

datatype dline = DText string | DNode string string string | DClass string string string | DClick string string | DEdge string string string

definition in_label :: "string \<Rightarrow> string" where
  "in_label s = [CHR ''['', CHR 0x22] @ s @ [CHR 0x22, CHR '']'']"

fun line_text :: "dline \<Rightarrow> string" where
  "line_text (DText t) = t"
| "line_text (DNode ind n l) = ind @ n @ in_label l"
| "line_text (DClass ind n c) = ind @ ''class '' @ n @ '' '' @ c"
| "line_text (DClick ind n) = ind @ ''click '' @ n @ '' call handleDiagramClick()''"
| "line_text (DEdge a arrow b) = ''  '' @ a @ '' '' @ arrow @ '' '' @ b"

section \<open>The state of a generator\<close>

text \<open>
  \<open>_diagNid\<close>, \<open>_diagNodeMap\<close>, \<open>lines\<close>, the keys of \<open>used\<close>, and the variables \<open>routeIds\<close>, \<open>svcNodes\<close> and \<open>upNodes\<close>.
\<close>

type_synonym node_table = "(string \<times> string) list"

record diag =
  nextNode :: nat
  nodeMap :: "(string \<times> key list option) list"
  dlines :: "dline list"
  used :: "string list"
  routeIds :: "string list"
  svcNodes :: node_table
  upNodes :: node_table

definition empty_diag :: diag where
  "empty_diag = \<lparr>nextNode = 0, nodeMap = [], dlines = [], used = [], routeIds = [], svcNodes = [], upNodes = []\<rparr>"

definition node_id :: "nat \<Rightarrow> string" where
  "node_id n = CHR ''N'' # nat_str n"

definition next_id :: "diag \<Rightarrow> string" where
  "next_id d = node_id (nextNode d)"

definition mark :: "string \<Rightarrow> string list \<Rightarrow> string list" where
  "mark k ks = (if k \<in> set ks then ks else ks @ [k])"

definition push :: "dline list \<Rightarrow> diag \<Rightarrow> diag" where
  "push ls d = d\<lparr>dlines := dlines d @ ls\<rparr>"

text \<open>\<open>makeNode\<close> with the lines that every caller writes next: the node, its class and, except for some, its click.\<close>

definition add_node :: "string \<Rightarrow> key list option \<Rightarrow> string \<Rightarrow> string \<Rightarrow> bool \<Rightarrow> diag \<Rightarrow> diag" where
  "add_node ind path l cls click d = (let n = next_id d in
     push ([DNode ind n l, DClass ind n cls] @ (if click then [DClick ind n] else []))
       (d\<lparr>nextNode := Suc (nextNode d), nodeMap := nodeMap d @ [(n, path)], used := mark cls (used d)\<rparr>))"

text \<open>The node for a reference that leads nowhere, and an edge to it.\<close>

definition missing_edge :: "string \<Rightarrow> string \<Rightarrow> jv \<Rightarrow> diag \<Rightarrow> diag" where
  "missing_edge from arrow ref d =
     push [DEdge from arrow (next_id d)] (add_node ''  '' None (mEsc ref @ '' (missing)'') ''missing'' False d)"

text \<open>\<open>nodes[name] = id\<close> and the text of \<open>nodes[name]\<close>.\<close>

definition set_node :: "jv \<Rightarrow> string \<Rightarrow> node_table \<Rightarrow> node_table" where
  "set_node name n t = (if js_string name = ''__proto__'' then t else obj_set (js_string name) n t)"

definition node_text :: "node_table \<Rightarrow> jv \<Rightarrow> string" where
  "node_text t name = (case map_of t (js_string name) of Some n \<Rightarrow> n
     | None \<Rightarrow> if js_string name = ''__proto__'' then ''[object Object]'' else js_string (proto_read [] (js_string name)))"

text \<open>\<open>svcIdx\<close> and \<open>upIdx\<close>: the names of the entries; \<open>idx[name] !== undefined\<close> also finds what every object inherits.\<close>

definition idx_names :: "jv list \<Rightarrow> string list" where
  "idx_names vs = map (\<lambda>v. js_string (sub v ''name'')) (filter (\<lambda>v. truthy v \<and> truthy (sub v ''name'')) vs)"

definition in_idx :: "string list \<Rightarrow> jv \<Rightarrow> bool" where
  "in_idx ns name = (js_string name \<in> set ns \<or> js_string name \<in> set object_proto)"

text \<open>\<open>vs.forEach(function (v, i) { ... })\<close>.\<close>

fun over :: "(nat \<Rightarrow> jv \<Rightarrow> 's \<Rightarrow> 's option) \<Rightarrow> nat \<Rightarrow> jv list \<Rightarrow> 's \<Rightarrow> 's option" where
  "over f i [] d = Some d"
| "over f i (v # vs) d = (case f i v d of None \<Rightarrow> None | Some d' \<Rightarrow> over f (Suc i) vs d')"

section \<open>Request flow\<close>

definition or_text :: "jv \<Rightarrow> string \<Rightarrow> string" where
  "or_text v t = js_string (js_or v (JStr t))"

definition numbered :: "string \<Rightarrow> nat \<Rightarrow> jv" where
  "numbered what i = JStr (what @ '' '' @ nat_str (i + 1))"

definition listener_node :: "nat \<Rightarrow> jv \<Rightarrow> diag \<Rightarrow> diag option" where
  "listener_node i l d = (if nullish l then None else Some (add_node ''    '' (Some [KName ''listeners'', KIdx i])
     (mLabel [js_or (sub l ''name'') (numbered ''listener'' i), JStr (or_text (sub l ''address'') ''?'' @ '':'' @ or_text (sub l ''port'') ''?'')])
     ''listener'' True d))"

definition route_node :: "nat \<Rightarrow> jv \<Rightarrow> diag \<Rightarrow> diag option" where
  "route_node i r d = (if nullish r then None else Some ((add_node ''    '' (Some [KName ''routes'', KIdx i])
     (mLabel [js_or (sub r ''name'') (numbered ''route'' i), JStr (matchStr (sub r ''match''))]) ''route'' True d)
       \<lparr>routeIds := routeIds d @ [next_id d]\<rparr>))"

definition service_node :: "nat \<Rightarrow> jv \<Rightarrow> diag \<Rightarrow> diag option" where
  "service_node i s d = (if nullish s then None else Some ((add_node ''  '' (Some [KName ''services'', KIdx i])
     (mLabel [js_or (sub s ''name'') (numbered ''service'' i)]) ''service'' True d)
       \<lparr>svcNodes := set_node (sub s ''name'') (next_id d) (svcNodes d)\<rparr>))"

definition endpoint_node :: "nat \<Rightarrow> string \<Rightarrow> nat \<Rightarrow> jv \<Rightarrow> diag \<Rightarrow> diag option" where
  "endpoint_node i up j ep d = (if nullish ep then None else Some (push [DEdge up ''-->'' (next_id d)]
     (add_node ''  '' (Some [KName ''upstreams'', KIdx i])
       (mLabel [JStr ''ep'', JStr (or_text (sub ep ''address'') ''?'' @ '' '' @ or_text (sub ep ''port'') ''?'')]) ''endpoint'' False d)))"

definition upstream_node :: "nat \<Rightarrow> jv \<Rightarrow> diag \<Rightarrow> diag option" where
  "upstream_node i u d = (if nullish u then None
     else case list_or (sub u ''endpoints'') of None \<Rightarrow> None
     | Some eps \<Rightarrow> over (endpoint_node i (next_id d)) 0 eps ((add_node ''  '' (Some [KName ''upstreams'', KIdx i])
         (mLabel [js_or (sub u ''name'') (numbered ''upstream'' i), js_or (sub u ''protocol'') (JStr [])]) ''upstream'' True d)
           \<lparr>upNodes := set_node (sub u ''name'') (next_id d) (upNodes d)\<rparr>))"

text \<open>An edge to the node of the entry with that name, or to a missing node.\<close>

definition ref_edge :: "string list \<Rightarrow> node_table \<Rightarrow> string \<Rightarrow> string \<Rightarrow> string \<Rightarrow> jv \<Rightarrow> diag \<Rightarrow> diag" where
  "ref_edge ns t from arrow lost ref d = (if in_idx ns ref then push [DEdge from arrow (node_text t ref)] d
     else missing_edge from lost ref d)"

definition route_edge :: "string list \<Rightarrow> nat \<Rightarrow> jv \<Rightarrow> diag \<Rightarrow> diag option" where
  "route_edge ns i r d = Some (if i < length (routeIds d) \<and> truthy r \<and> truthy (sub r ''service'')
     then ref_edge ns (svcNodes d) (routeIds d ! i) ''-->'' ''-->'' (sub r ''service'') d else d)"

definition target_edge :: "string list \<Rightarrow> string \<Rightarrow> nat \<Rightarrow> jv \<Rightarrow> diag \<Rightarrow> diag option" where
  "target_edge ns sid j t d = (if nullish t then None
     else Some (if truthy (sub t ''upstream'')
       then ref_edge ns (upNodes d) sid (''-.->|split '' @ js_string (js_or (sub t ''weight'') (jint 0)) @ ''|'') ''-.->|split|'' (sub t ''upstream'') d
       else d))"

definition split_targets :: "jv \<Rightarrow> jv list option" where
  "split_targets s = (if truthy (sub s ''split'') then list_or (sub (sub s ''split'') ''targets'') else Some [])"

definition service_edges :: "string list \<Rightarrow> nat \<Rightarrow> jv \<Rightarrow> diag \<Rightarrow> diag option" where
  "service_edges ns i s d = (if nullish s then None
     else let sid = node_text (svcNodes d) (sub s ''name'');
              d1 = (if truthy (sub s ''upstream'') then ref_edge ns (upNodes d) sid ''-->'' ''-->'' (sub s ''upstream'') d else d) in
       case split_targets s of None \<Rightarrow> None | Some ts \<Rightarrow> over (target_edge ns sid) 0 ts d1)"

text \<open>A subgraph with the nodes of a section, where there are any.\<close>

definition has_len :: "jv \<Rightarrow> bool" where
  "has_len v = truthy (sub v ''length'')"

definition subgraph :: "string \<Rightarrow> string \<Rightarrow> (nat \<Rightarrow> jv \<Rightarrow> diag \<Rightarrow> diag option) \<Rightarrow> jv \<Rightarrow> diag \<Rightarrow> diag option" where
  "subgraph name title f v d = (if \<not> has_len v then Some d
     else case js_elems v of None \<Rightarrow> None
     | Some vs \<Rightarrow> map_option (push [DText ''  end'']) (over f 0 vs
         (push [DText (''  subgraph '' @ name @ '' '' @ in_label (title @ '': '' @ js_string (sub v ''length'')))] d)))"

definition DIAG_COLORS :: "(string \<times> string \<times> string \<times> string) list" where
  "DIAG_COLORS = [
     (''listener'', ''#dbeafe'', ''#3b82f6'', ''#1e3a5f''), (''route'', ''#e0e7ff'', ''#6366f1'', ''#312e81''),
     (''service'', ''#d1fae5'', ''#10b981'', ''#064e3b''), (''upstream'', ''#fef3c7'', ''#f59e0b'', ''#78350f''),
     (''endpoint'', ''#f3f4f6'', ''#9ca3af'', ''#374151''), (''consumer'', ''#fce7f3'', ''#ec4899'', ''#831843''),
     (''credential'', ''#fbcfe8'', ''#f472b6'', ''#831843''), (''policy'', ''#ffedd5'', ''#f97316'', ''#7c2d12''),
     (''global'', ''#ede9fe'', ''#8b5cf6'', ''#4c1d95''), (''jwt'', ''#cffafe'', ''#06b6d4'', ''#155e75''),
     (''oidc'', ''#a7f3d0'', ''#14b8a6'', ''#134e4a''), (''hmac'', ''#fecaca'', ''#ef4444'', ''#7f1d1d''),
     (''mtls'', ''#e0f2fe'', ''#0ea5e9'', ''#0c4a6e''), (''provider'', ''#fae8ff'', ''#a855f7'', ''#581c87''),
     (''model'', ''#f5f3ff'', ''#7c3aed'', ''#4c1d95''), (''missing'', ''#fdeaea'', ''#c62828'', ''#c62828'')]"

definition class_def :: "string \<Rightarrow> string \<times> string \<times> string \<times> string \<Rightarrow> dline" where
  "class_def dash c = (case c of (k, fill, stroke, color) \<Rightarrow>
     DText (''  classDef '' @ k @ '' fill:'' @ fill @ '',stroke:'' @ stroke @ '',stroke-width:2px,'' @ dash @ ''color:'' @ color))"

definition colorDefs :: "dline list" where
  "colorDefs = map (class_def []) DIAG_COLORS @ [class_def ''stroke-dasharray:4 2,'' (last DIAG_COLORS)]"

definition link_sections :: "jv \<Rightarrow> jv \<Rightarrow> diag \<Rightarrow> diag" where
  "link_sections ls rs d = (if has_len ls \<and> has_len rs then push [DText ''  SGL --> SGR''] d else d)"

text \<open>\<open>Inl\<close> is a diagram without text, with its message.\<close>

definition genRequestFlow :: "jv \<Rightarrow> (string + diag) option" where
  "genRequestFlow doc = (if nullish doc then None else
     let sec = (\<lambda>k. js_or (sub doc k) (JArr [])); ls = sec ''listeners''; rs = sec ''routes'';
         ss = sec ''services''; us = sec ''upstreams'' in
     if \<not> list_ex has_len [ls, rs, ss, us] then Some (Inl ''No listeners, routes, services, or upstreams configured.'')
     else do {
       svcs \<leftarrow> js_elems ss;
       ups \<leftarrow> js_elems us;
       d1 \<leftarrow> subgraph ''SGL'' ''Listeners'' listener_node ls (push [DText ''flowchart LR''] empty_diag);
       d2 \<leftarrow> subgraph ''SGR'' ''Routes'' route_node rs d1;
       d4 \<leftarrow> over service_node 0 svcs (link_sections ls rs d2);
       d5 \<leftarrow> over upstream_node 0 ups d4;
       routes \<leftarrow> js_elems rs;
       d6 \<leftarrow> over (route_edge (idx_names svcs)) 0 routes d5;
       d7 \<leftarrow> over (service_edges (idx_names ups)) 0 svcs d6;
       Some (Inr (push colorDefs d7)) })"

definition diagram_text :: "diag \<Rightarrow> string" where
  "diagram_text d = js_join [CHR 0x0A] (map line_text (dlines d))"

text \<open>\<open>handleDiagramClick\<close>: where a click on a node leads; \<open>None\<close> when it does nothing.\<close>

definition click_target :: "diag \<Rightarrow> string \<Rightarrow> key list option" where
  "click_target d n = (case map_of (nodeMap d) n of None \<Rightarrow> None | Some p \<Rightarrow> p)"

section \<open>Laws of the generator\<close>

lemma over_inv:
  assumes "over f i vs d = Some d'" "P d" "\<And>i v d d'. v \<in> set vs \<Longrightarrow> P d \<Longrightarrow> f i v d = Some d' \<Longrightarrow> P d'"
  shows "P d'"
  using assms
proof (induction f i vs d rule: over.induct)
  case (2 f i v vs d)
  then obtain d1 where d1: "f i v d = Some d1" "over f (Suc i) vs d1 = Some d'" by (auto split: option.splits)
  have p: "P d1" by (rule "2.prems"(3) [OF _ "2.prems"(2) d1(1)]) simp
  show ?case by (rule "2.IH" [OF d1 p]) (rule "2.prems"(3), simp_all)
qed simp

text \<open>Something that a step establishes for its element and that no step undoes holds for every element.\<close>

lemma over_each:
  assumes "over f i vs d = Some d'" "\<And>i v d d'. f i v d = Some d' \<Longrightarrow> Q v d'" "\<And>i v w d d'. f i v d = Some d' \<Longrightarrow> Q w d \<Longrightarrow> Q w d'"
  shows "\<forall>v \<in> set vs. Q v d'"
  using assms(1)
proof (induction vs arbitrary: i d)
  case (Cons v vs)
  then obtain d1 where d1: "f i v d = Some d1" "over f (Suc i) vs d1 = Some d'" by (auto split: option.splits)
  have "Q v d'" by (rule over_inv [of f "Suc i" vs d1 d' "Q v"]) (use d1 assms(2,3) in auto)
  then show ?case using Cons.IH [OF d1(2)] by simp
qed simp

text \<open>A mark is there after the loop exactly when it was there before or some element sets it.\<close>

lemma over_mark:
  assumes "over f i vs d = Some d'" "I d"
    and "\<And>i v d d'. v \<in> set vs \<Longrightarrow> I d \<Longrightarrow> f i v d = Some d' \<Longrightarrow> I d' \<and> (P d' \<longleftrightarrow> P d \<or> Q i v)"
  shows "I d' \<and> (P d' \<longleftrightarrow> P d \<or> (\<exists>k < length vs. Q (i + k) (vs ! k)))"
  using assms
proof (induction vs arbitrary: i d)
  case (Cons v vs)
  obtain d1 where d1: "f i v d = Some d1" "over f (Suc i) vs d1 = Some d'" using Cons.prems(1) by (auto split: option.splits)
  have s: "I d1 \<and> (P d1 \<longleftrightarrow> P d \<or> Q i v)" by (rule Cons.prems(3) [OF _ Cons.prems(2) d1(1)]) simp
  have "I d' \<and> (P d' \<longleftrightarrow> P d1 \<or> (\<exists>k < length vs. Q (Suc i + k) (vs ! k)))"
    by (rule Cons.IH [OF d1(2)]) (use s Cons.prems(3) in auto)
  moreover have "(\<exists>k < length (v # vs). Q (i + k) ((v # vs) ! k)) \<longleftrightarrow> Q i v \<or> (\<exists>k < length vs. Q (Suc i + k) (vs ! k))"
    using Ex_less_Suc2 [of "length vs" "\<lambda>k. Q (i + k) ((v # vs) ! k)"] by simp
  ultimately show ?case using s by blast
qed simp

lemma elems_js_elems: "js_elems v = Some vs \<Longrightarrow> set vs = elems v"
  by (cases v) (auto simp: elems_def)

lemma elems_or [simp]: "elems (js_or v (JArr [])) = elems v"
  by (cases v) (auto simp: elems_def js_or_def)

section \<open>Nodes and edges\<close>

definition node_names :: "dline list \<Rightarrow> string list" where
  "node_names ls = concat (map (\<lambda>l. case l of DNode ind n t \<Rightarrow> [n] | _ \<Rightarrow> []) ls)"

definition edges_of :: "dline list \<Rightarrow> (string \<times> string) set" where
  "edges_of ls = set (concat (map (\<lambda>l. case l of DEdge a arrow b \<Rightarrow> [(a, b)] | _ \<Rightarrow> []) ls))"

lemma node_names_simps [simp]: "node_names [] = []" "node_names (ls @ ms) = node_names ls @ node_names ms"
    "node_names (DNode ind n t # ls) = n # node_names ls" "node_names (DText u # ls) = node_names ls" "node_names (DClass ind n u # ls) = node_names ls"
    "node_names (DClick ind n # ls) = node_names ls" "node_names (DEdge a arrow b # ls) = node_names ls"
  by (simp_all add: node_names_def)

lemma edges_of_simps [simp]: "edges_of [] = {}" "edges_of (ls @ ms) = edges_of ls \<union> edges_of ms"
    "edges_of (DNode ind n t # ls) = edges_of ls" "edges_of (DText u # ls) = edges_of ls" "edges_of (DClass ind n u # ls) = edges_of ls"
    "edges_of (DClick ind n # ls) = edges_of ls" "edges_of (DEdge a arrow b # ls) = insert (a, b) (edges_of ls)"
  by (auto simp: edges_of_def)

text \<open>
  The nodes are numbered in the order in which they are written, every edge connects two of them, and so do the tables.
\<close>

definition ids :: "diag \<Rightarrow> string set" where
  "ids d = node_id ` {..< nextNode d}"

definition drawn :: "diag \<Rightarrow> bool" where
  "drawn d = (map fst (nodeMap d) = map node_id [0 ..< nextNode d] \<and> node_names (dlines d) = map fst (nodeMap d) \<and>
     edges_of (dlines d) \<subseteq> ids d \<times> ids d \<and> set (routeIds d) \<union> ran (map_of (svcNodes d)) \<union> ran (map_of (upNodes d)) \<subseteq> ids d)"

lemma ids_Suc: "nextNode d' = Suc (nextNode d) \<Longrightarrow> ids d' = insert (next_id d) (ids d)"
  by (simp add: ids_def next_id_def lessThan_Suc)

lemma add_node_simps [simp]: "nextNode (add_node ind p l c b d) = Suc (nextNode d)" "routeIds (add_node ind p l c b d) = routeIds d"
    "svcNodes (add_node ind p l c b d) = svcNodes d" "upNodes (add_node ind p l c b d) = upNodes d"
    "used (add_node ind p l c b d) = mark c (used d)" "nodeMap (add_node ind p l c b d) = nodeMap d @ [(next_id d, p)]"
    "dlines (add_node ind p l c b d) = dlines d @ [DNode ind (next_id d) l, DClass ind (next_id d) c] @ (if b then [DClick ind (next_id d)] else [])"
  by (simp_all add: add_node_def Let_def push_def)

lemma push_simps [simp]: "nextNode (push ls d) = nextNode d" "routeIds (push ls d) = routeIds d" "svcNodes (push ls d) = svcNodes d"
    "upNodes (push ls d) = upNodes d" "used (push ls d) = used d" "nodeMap (push ls d) = nodeMap d" "dlines (push ls d) = dlines d @ ls"
  by (simp_all add: push_def)

lemma ids_add_node [simp]: "ids (add_node ind p l c b d) = insert (next_id d) (ids d)" and ids_push [simp]: "ids (push ls d) = ids d"
  by (simp_all add: ids_Suc) (simp add: ids_def)

lemma ids_fields [simp]: "ids (d\<lparr>routeIds := x\<rparr>) = ids d" "ids (d\<lparr>svcNodes := y\<rparr>) = ids d" "ids (d\<lparr>upNodes := z\<rparr>) = ids d"
  by (simp_all add: ids_def)

lemma ran_obj_set: "ran (map_of (obj_set k v t)) \<subseteq> insert v (ran (map_of t))"
  by (auto simp: map_of_obj_set ran_def split: if_splits)

lemma ran_set_node: "ran (map_of (set_node name n t)) \<subseteq> insert n (ran (map_of t))"
  using ran_obj_set [of "js_string name" n t] by (auto simp: set_node_def)

lemma drawn_node: "drawn d \<Longrightarrow> drawn (add_node ind p l c b d)"
  by (auto simp: drawn_def next_id_def)

lemma drawn_push: "drawn d \<Longrightarrow> node_names ls = [] \<Longrightarrow> edges_of ls \<subseteq> ids d \<times> ids d \<Longrightarrow> drawn (push ls d)"
  by (auto simp: drawn_def)

lemma drawn_missing: "drawn d \<Longrightarrow> from \<in> ids d \<Longrightarrow> drawn (missing_edge from arrow ref d)"
  unfolding missing_edge_def by (intro drawn_push drawn_node) auto

lemma node_text_drawn: "drawn d \<Longrightarrow> map_of (svcNodes d) (js_string k) \<noteq> None \<Longrightarrow> node_text (svcNodes d) k \<in> ids d"
    "drawn d \<Longrightarrow> map_of (upNodes d) (js_string k) \<noteq> None \<Longrightarrow> node_text (upNodes d) k \<in> ids d"
  by (auto simp: drawn_def node_text_def ran_def)

lemma drawn_field:
  "drawn e \<Longrightarrow> set x \<subseteq> ids e \<Longrightarrow> drawn (e\<lparr>routeIds := x\<rparr>)"
  "drawn e \<Longrightarrow> ran (map_of y) \<subseteq> ids e \<Longrightarrow> drawn (e\<lparr>svcNodes := y\<rparr>)"
  "drawn e \<Longrightarrow> ran (map_of y) \<subseteq> ids e \<Longrightarrow> drawn (e\<lparr>upNodes := y\<rparr>)"
  by (auto simp: drawn_def)

lemma drawn_tables:
  assumes "drawn d"
  shows "set (routeIds d @ [next_id d]) \<subseteq> insert (next_id d) (ids d)"
    "ran (map_of (set_node name (next_id d) (svcNodes d))) \<subseteq> insert (next_id d) (ids d)"
    "ran (map_of (set_node name (next_id d) (upNodes d))) \<subseteq> insert (next_id d) (ids d)"
  using assms ran_set_node [of name "next_id d" "svcNodes d"] ran_set_node [of name "next_id d" "upNodes d"]
  unfolding drawn_def by auto

lemma listener_drawn: "listener_node i l d = Some d' \<Longrightarrow> drawn d \<Longrightarrow> drawn d'"
  by (auto simp: listener_node_def drawn_node split: if_splits)

lemma route_drawn:
  assumes "route_node i r d = Some d'" "drawn d"
  shows "drawn d'"
proof -
  have "drawn ((add_node ind p l c b d)\<lparr>routeIds := routeIds d @ [next_id d]\<rparr>)" for ind p l c b
    by (rule drawn_field(1) [OF drawn_node [OF assms(2)]]) (use drawn_tables(1) [OF assms(2)] in simp)
  then show ?thesis using assms(1) by (auto simp: route_node_def split: if_splits)
qed

lemma service_drawn:
  assumes "service_node i s d = Some d'" "drawn d"
  shows "drawn d'"
proof -
  have "drawn ((add_node ind p l c b d)\<lparr>svcNodes := set_node nm (next_id d) (svcNodes d)\<rparr>)" for ind p l c b nm
    by (rule drawn_field(2) [OF drawn_node [OF assms(2)]]) (use drawn_tables(2) [OF assms(2)] in simp)
  then show ?thesis using assms(1) by (auto simp: service_node_def split: if_splits)
qed

text \<open>Endpoints keep the tables; the upstream they belong to is a node before them.\<close>

lemma endpoints_keep:
  assumes "over (endpoint_node i up) j eps d = Some d'"
  shows "routeIds d' = routeIds d \<and> svcNodes d' = svcNodes d \<and> upNodes d' = upNodes d"
  by (rule over_inv [OF assms, where P = "\<lambda>e. routeIds e = routeIds d \<and> svcNodes e = svcNodes d \<and> upNodes e = upNodes d"])
    (auto simp: endpoint_node_def split: if_splits)

lemma endpoints_drawn:
  assumes "over (endpoint_node i up) j eps d = Some d'" "drawn d" "up \<in> ids d"
  shows "drawn d'"
proof -
  have "drawn d' \<and> up \<in> ids d'"
    by (rule over_inv [OF assms(1), where P = "\<lambda>e. drawn e \<and> up \<in> ids e"])
      (use assms(2,3) in \<open>auto simp: endpoint_node_def intro!: drawn_push drawn_node split: if_splits\<close>)
  then show ?thesis by simp
qed

lemma upstream_parts:
  assumes "upstream_node i u d = Some d'"
  obtains l eps where "over (endpoint_node i (next_id d)) 0 eps ((add_node ''  '' (Some [KName ''upstreams'', KIdx i]) l ''upstream'' True d)
       \<lparr>upNodes := set_node (sub u ''name'') (next_id d) (upNodes d)\<rparr>) = Some d'"
  using assms by (auto simp: upstream_node_def split: if_splits option.splits)

lemma upstream_keeps:
  assumes "upstream_node i u d = Some d'"
  shows "routeIds d' = routeIds d \<and> svcNodes d' = svcNodes d \<and> upNodes d' = set_node (sub u ''name'') (next_id d) (upNodes d)"
proof -
  obtain l eps where "over (endpoint_node i (next_id d)) 0 eps ((add_node ''  '' (Some [KName ''upstreams'', KIdx i]) l ''upstream'' True d)
       \<lparr>upNodes := set_node (sub u ''name'') (next_id d) (upNodes d)\<rparr>) = Some d'"
    using upstream_parts [OF assms] .
  from endpoints_keep [OF this] show ?thesis by simp
qed

lemma upstream_drawn:
  assumes "upstream_node i u d = Some d'" "drawn d"
  shows "drawn d'"
proof -
  obtain l eps where o: "over (endpoint_node i (next_id d)) 0 eps ((add_node ''  '' (Some [KName ''upstreams'', KIdx i]) l ''upstream'' True d)
       \<lparr>upNodes := set_node (sub u ''name'') (next_id d) (upNodes d)\<rparr>) = Some d'"
    using upstream_parts [OF assms(1)] .
  show ?thesis
    by (rule endpoints_drawn [OF o drawn_field(3) [OF drawn_node [OF assms(2)]]]) (use drawn_tables(3) [OF assms(2)] in simp_all)
qed

lemma subgraph_inv:
  assumes "subgraph name title f v d = Some d'" "P d" "\<And>t d. P d \<Longrightarrow> P (push [DText t] d)"
    and "\<And>i v d d'. P d \<Longrightarrow> f i v d = Some d' \<Longrightarrow> P d'"
  shows "P d'"
proof (cases "has_len v")
  case True
  obtain vs e where e: "over f 0 vs (push [DText (''  subgraph '' @ name @ '' '' @ in_label (title @ '': '' @ js_string (sub v ''length'')))] d) = Some e"
    and d': "d' = push [DText ''  end''] e"
    using assms(1) True by (auto simp: subgraph_def split: option.splits)
  have "P e" by (rule over_inv [OF e, where P = P]) (use assms(2-4) in auto)
  then show ?thesis using assms(3) d' by simp
qed (use assms in \<open>simp add: subgraph_def\<close>)

lemma drawn_text: "drawn d \<Longrightarrow> drawn (push [DText t] d)"
  by (simp add: drawn_push)

definition same_tables :: "diag \<Rightarrow> diag \<Rightarrow> bool" where
  "same_tables e d = (routeIds e = routeIds d \<and> svcNodes e = svcNodes d \<and> upNodes e = upNodes d)"

lemma ref_edge_keeps [simp]: "routeIds (ref_edge ns t a x y k d) = routeIds d" "svcNodes (ref_edge ns t a x y k d) = svcNodes d"
    "upNodes (ref_edge ns t a x y k d) = upNodes d" "ids d \<subseteq> ids (ref_edge ns t a x y k d)"
  by (auto simp: ref_edge_def missing_edge_def)

lemma ref_edge_ids [simp]: "n \<in> ids d \<Longrightarrow> n \<in> ids (ref_edge ns t a x y k d)"
  using ref_edge_keeps(4) by blast

lemma ref_edge_drawn:
  assumes "drawn d" "from \<in> ids d" "in_idx ns k \<Longrightarrow> node_text t k \<in> ids d"
  shows "drawn (ref_edge ns t from x y k d)"
  using assms by (auto simp: ref_edge_def drawn_missing intro!: drawn_push)

text \<open>A reference by name finds its node when every name has one and the name is not inherited.\<close>

definition covers :: "string list \<Rightarrow> node_table \<Rightarrow> bool" where
  "covers ns t = (\<forall>n \<in> set ns. map_of t n \<noteq> None)"

lemma covered: "covers ns t \<Longrightarrow> in_idx ns k \<Longrightarrow> js_string k \<notin> set object_proto \<Longrightarrow> map_of t (js_string k) \<noteq> None"
  unfolding covers_def in_idx_def by blast

lemma routes_drawn:
  assumes o: "over (route_edge ns) i rs d = Some d'" and d: "drawn d" and ns: "covers ns (svcNodes d)"
    and r: "\<forall>r \<in> set rs. js_string (sub r ''service'') \<notin> set object_proto"
  shows "drawn d' \<and> same_tables d' d"
proof (rule over_inv [OF o, where P = "\<lambda>e. drawn e \<and> same_tables e d"])
  fix j v e e' assume v: "v \<in> set rs" and e: "drawn e \<and> same_tables e d" and s: "route_edge ns j v e = Some e'"
  have t: "in_idx ns (sub v ''service'') \<Longrightarrow> node_text (svcNodes e) (sub v ''service'') \<in> ids e"
    using node_text_drawn(1) covered ns r v e unfolding same_tables_def by metis
  have f: "j < length (routeIds e) \<Longrightarrow> routeIds e ! j \<in> ids e" using e by (auto simp: drawn_def)
  show "drawn e' \<and> same_tables e' d"
    using s e f t by (auto simp: route_edge_def same_tables_def intro!: ref_edge_drawn split: if_splits)
qed (use d in \<open>simp add: same_tables_def\<close>)

lemma targets_drawn:
  assumes o: "over (target_edge ns sid) i ts d = Some d'" and d: "drawn d" "sid \<in> ids d" and ns: "covers ns (upNodes d)"
    and r: "\<forall>t \<in> set ts. js_string (sub t ''upstream'') \<notin> set object_proto"
  shows "drawn d' \<and> same_tables d' d"
proof -
  have "(drawn d' \<and> same_tables d' d) \<and> sid \<in> ids d'"
  proof (rule over_inv [OF o, where P = "\<lambda>e. (drawn e \<and> same_tables e d) \<and> sid \<in> ids e"])
    fix j v e e' assume v: "v \<in> set ts" and e: "(drawn e \<and> same_tables e d) \<and> sid \<in> ids e" and s: "target_edge ns sid j v e = Some e'"
    have t: "in_idx ns (sub v ''upstream'') \<Longrightarrow> node_text (upNodes e) (sub v ''upstream'') \<in> ids e"
      using node_text_drawn(2) covered ns r v e unfolding same_tables_def by metis
    show "(drawn e' \<and> same_tables e' d) \<and> sid \<in> ids e'"
      using s e t by (auto simp: target_edge_def same_tables_def intro!: ref_edge_drawn split: if_splits)
  qed (use d in \<open>simp add: same_tables_def\<close>)
  then show ?thesis by simp
qed

text \<open>The references of a service: its upstream and the targets of its split.\<close>

definition service_refs_plain :: "jv \<Rightarrow> bool" where
  "service_refs_plain s = (js_string (sub s ''upstream'') \<notin> set object_proto \<and>
     (\<forall>t \<in> elems (sub (sub s ''split'') ''targets''). js_string (sub t ''upstream'') \<notin> set object_proto))"

lemma split_targets_elems: "split_targets s = Some ts \<Longrightarrow> t \<in> set ts \<Longrightarrow> t \<in> elems (sub (sub s ''split'') ''targets'')"
  by (auto simp: split_targets_def list_or_elems split: if_splits)

lemma services_drawn:
  assumes o: "over (service_edges ns) i ss d = Some d'" and d: "drawn d" and ns: "covers ns (upNodes d)"
    and s: "\<forall>s \<in> set ss. service_refs_plain s \<and> map_of (svcNodes d) (js_string (sub s ''name'')) \<noteq> None"
  shows "drawn d' \<and> same_tables d' d"
proof (rule over_inv [OF o, where P = "\<lambda>e. drawn e \<and> same_tables e d"])
  fix j v e e' assume v: "v \<in> set ss" and e: "drawn e \<and> same_tables e d" and st: "service_edges ns j v e = Some e'"
  let ?sid = "node_text (svcNodes e) (sub v ''name'')"
  let ?e1 = "if truthy (sub v ''upstream'') then ref_edge ns (upNodes e) ?sid ''-->'' ''-->'' (sub v ''upstream'') e else e"
  obtain ts where ts: "split_targets v = Some ts" "over (target_edge ns ?sid) 0 ts ?e1 = Some e'"
    using st by (auto simp: service_edges_def Let_def split: if_splits option.splits)
  have sid: "?sid \<in> ids e" using node_text_drawn(1) s v e unfolding same_tables_def by metis
  have p: "js_string (sub v ''upstream'') \<notin> set object_proto" using s v by (simp add: service_refs_plain_def)
  have t: "in_idx ns (sub v ''upstream'') \<Longrightarrow> node_text (upNodes e) (sub v ''upstream'') \<in> ids e"
    using node_text_drawn(2) covered ns p e unfolding same_tables_def by metis
  have e1: "drawn ?e1 \<and> same_tables ?e1 d \<and> ?sid \<in> ids ?e1"
    using e sid t by (auto simp: same_tables_def intro!: ref_edge_drawn)
  have r: "\<forall>t \<in> set ts. js_string (sub t ''upstream'') \<notin> set object_proto"
    using s v split_targets_elems [OF ts(1)] unfolding service_refs_plain_def by blast
  have "covers ns (upNodes ?e1)" using ns e1 by (simp add: same_tables_def)
  then show "drawn e' \<and> same_tables e' d" using targets_drawn [OF ts(2) _ _ _ r] e1 by (auto simp: same_tables_def)
qed (use d in \<open>simp add: same_tables_def\<close>)

section \<open>Labels\<close>

text \<open>A label is made of parts without brackets or quotes, separated by line breaks.\<close>

definition plain_part :: "string \<Rightarrow> bool" where
  "plain_part p = (\<forall>c \<in> set p. c \<noteq> CHR ''<'' \<and> c \<noteq> CHR ''>'' \<and> c \<noteq> CHR 0x22)"

definition safe_label :: "string \<Rightarrow> bool" where
  "safe_label l = (\<exists>ps. l = js_join ''<br/>'' ps \<and> list_all plain_part ps)"

definition labels_ok :: "diag \<Rightarrow> bool" where
  "labels_ok d = (\<forall>ind n l. DNode ind n l \<in> set (dlines d) \<longrightarrow> safe_label l)"

lemma replaced: "x \<in> set (replace_char c t s) \<Longrightarrow> x \<in> set t \<or> (x \<in> set s \<and> x \<noteq> c)"
  by (auto simp: replace_char_def split: if_splits)

lemma escaped_plain: "plain_part (escape_text s)"
  unfolding plain_part_def escape_text_def by (auto dest!: replaced)

lemma mLabel_safe [simp]: "safe_label (mLabel vs)"
  unfolding safe_label_def mLabel_def
  by (intro exI [of _ "map mEsc vs"]) (simp add: mEsc_def escaped_plain list_all_iff)

lemma missing_safe [simp]: "safe_label (mEsc v @ '' (missing)'')"
  unfolding safe_label_def
  by (intro exI [of _ "[mEsc v @ '' (missing)'']"]) (use escaped_plain in \<open>auto simp: mEsc_def plain_part_def\<close>)

lemma labels_node: "labels_ok d \<Longrightarrow> safe_label l \<Longrightarrow> labels_ok (add_node ind p l c b d)"
  by (auto simp: labels_ok_def)

lemma labels_push: "labels_ok d \<Longrightarrow> \<forall>l \<in> set ls. \<nexists>ind n t. l = DNode ind n t \<Longrightarrow> labels_ok (push ls d)"
  by (auto simp: labels_ok_def)

lemma labels_fields [simp]: "labels_ok (d\<lparr>routeIds := x\<rparr>) = labels_ok d" "labels_ok (d\<lparr>svcNodes := y\<rparr>) = labels_ok d"
    "labels_ok (d\<lparr>upNodes := z\<rparr>) = labels_ok d"
  by (simp_all add: labels_ok_def)

text \<open>The node phases: no missing node yet, and only safe labels.\<close>

definition clear :: "diag \<Rightarrow> bool" where
  "clear d = (drawn d \<and> labels_ok d \<and> ''missing'' \<notin> set (used d))"

lemma mark_set [simp]: "set (mark k ks) = insert k (set ks)"
  by (auto simp: mark_def)

lemma clear_text: "clear d \<Longrightarrow> clear (push [DText t] d)"
  by (simp add: clear_def drawn_text labels_push)

lemma node_steps_clear:
  "listener_node i v d = Some d' \<Longrightarrow> clear d \<Longrightarrow> clear d'" "route_node i v d = Some d' \<Longrightarrow> clear d \<Longrightarrow> clear d'"
  "service_node i v d = Some d' \<Longrightarrow> clear d \<Longrightarrow> clear d'"
  using listener_drawn [of i v d d'] route_drawn [of i v d d'] service_drawn [of i v d d']
  by (auto simp: clear_def listener_node_def route_node_def service_node_def intro!: labels_node split: if_splits)

lemma upstream_clear:
  assumes "upstream_node i u d = Some d'" "clear d"
  shows "clear d'"
proof -
  obtain eps where o: "over (endpoint_node i (next_id d)) 0 eps ((add_node ''  '' (Some [KName ''upstreams'', KIdx i])
         (mLabel [js_or (sub u ''name'') (numbered ''upstream'' i), js_or (sub u ''protocol'') (JStr [])]) ''upstream'' True d)
           \<lparr>upNodes := set_node (sub u ''name'') (next_id d) (upNodes d)\<rparr>) = Some d'"
    using assms(1) by (auto simp: upstream_node_def split: if_splits option.splits)
  have "labels_ok d' \<and> ''missing'' \<notin> set (used d')"
    by (rule over_inv [OF o, where P = "\<lambda>e. labels_ok e \<and> ''missing'' \<notin> set (used e)"])
      (use assms(2) in \<open>auto simp: clear_def endpoint_node_def intro!: labels_push labels_node split: if_splits\<close>)
  then show ?thesis using assms upstream_drawn [OF assms(1)] by (simp add: clear_def)
qed

section \<open>The phases\<close>

definition has_node :: "node_table \<Rightarrow> jv \<Rightarrow> bool" where
  "has_node t v = (js_string (sub v ''name'') \<noteq> ''__proto__'' \<longrightarrow> map_of t (js_string (sub v ''name'')) \<noteq> None)"

lemma set_node_has: "has_node (set_node (sub v ''name'') n t) v" "has_node t w \<Longrightarrow> has_node (set_node name n t) w"
  by (auto simp: has_node_def set_node_def map_of_obj_set)

lemma services_have: "over service_node i ss d = Some d' \<Longrightarrow> \<forall>s \<in> set ss. has_node (svcNodes d') s"
  by (rule over_each) (auto simp: service_node_def set_node_has split: if_splits)

lemma upstreams_have:
  assumes "over upstream_node i us d = Some d'"
  shows "(\<forall>u \<in> set us. has_node (upNodes d') u) \<and> svcNodes d' = svcNodes d \<and> routeIds d' = routeIds d"
proof -
  have "\<forall>u \<in> set us. has_node (upNodes d') u" by (rule over_each [OF assms]) (auto simp: upstream_keeps set_node_has)
  moreover have "svcNodes d' = svcNodes d \<and> routeIds d' = routeIds d"
    by (rule over_inv [OF assms, where P = "\<lambda>e. svcNodes e = svcNodes d \<and> routeIds e = routeIds d"]) (auto dest: upstream_keeps)
  ultimately show ?thesis by simp
qed

lemma names_covered: "\<forall>v \<in> set vs. has_node t v \<and> js_string (sub v ''name'') \<noteq> ''__proto__'' \<Longrightarrow> covers (idx_names vs) t"
  by (auto simp: covers_def idx_names_def has_node_def)

lemma route_count: "over route_node i rs d = Some d' \<Longrightarrow> length (routeIds d') = length (routeIds d) + length rs"
  by (induction route_node i rs d rule: over.induct) (auto simp: route_node_def split: option.splits if_splits)

lemma subgraph_routes:
  assumes "subgraph name title route_node v d = Some d'" "js_elems v = Some rs"
  shows "length (routeIds d') = length (routeIds d) + length rs"
proof (cases "has_len v")
  case True
  then show ?thesis using assms route_count by (fastforce simp: subgraph_def split: option.splits)
next
  case False
  then have "rs = []" using assms(2) by (cases v) (auto simp: has_len_def sub_def nullish_def)
  then show ?thesis using assms(1) False by (simp add: subgraph_def)
qed

definition sec :: "jv \<Rightarrow> string \<Rightarrow> jv" where
  "sec doc k = js_or (sub doc k) (JArr [])"

lemma clear_start: "clear (push [DText t] empty_diag)"
  by (rule clear_text) (simp add: clear_def drawn_def labels_ok_def empty_diag_def ids_def)

text \<open>The state between the nodes and the edges.\<close>

definition nodes_done :: "diag \<Rightarrow> jv list \<Rightarrow> jv list \<Rightarrow> jv list \<Rightarrow> bool" where
  "nodes_done d routes svcs ups = (clear d \<and> length (routeIds d) = length routes \<and>
     (\<forall>s \<in> set svcs. has_node (svcNodes d) s) \<and> (\<forall>u \<in> set ups. has_node (upNodes d) u))"

lemma flow_phases:
  assumes "genRequestFlow doc = Some (Inr d)"
  obtains svcs ups routes d5 d6 d7 where
    "set svcs = elems (sub doc ''services'')" "set ups = elems (sub doc ''upstreams'')" "set routes = elems (sub doc ''routes'')"
    "nodes_done d5 routes svcs ups" "over (route_edge (idx_names svcs)) 0 routes d5 = Some d6"
    "over (service_edges (idx_names ups)) 0 svcs d6 = Some d7" "d = push colorDefs d7"
proof -
  let ?ls = "sec doc ''listeners''" and ?rs = "sec doc ''routes''"
  obtain svcs ups routes d1 d2 d4 d5 d6 d7 where
    js: "js_elems (sec doc ''services'') = Some svcs" "js_elems (sec doc ''upstreams'') = Some ups" "js_elems ?rs = Some routes" and
    st: "subgraph ''SGL'' ''Listeners'' listener_node ?ls (push [DText ''flowchart LR''] empty_diag) = Some d1"
    "subgraph ''SGR'' ''Routes'' route_node ?rs d1 = Some d2"
    "over service_node 0 svcs (link_sections ?ls ?rs d2) = Some d4" "over upstream_node 0 ups d4 = Some d5" and
    e: "over (route_edge (idx_names svcs)) 0 routes d5 = Some d6" "over (service_edges (idx_names ups)) 0 svcs d6 = Some d7" "d = push colorDefs d7"
    using assms unfolding genRequestFlow_def sec_def Let_def by (auto simp: bind_eq_Some_conv split: if_splits)
  have c1: "clear d1 \<and> routeIds d1 = []"
    by (rule subgraph_inv [OF st(1), where P = "\<lambda>e. clear e \<and> routeIds e = []"])
      (use clear_start clear_text node_steps_clear(1) in \<open>auto simp: listener_node_def empty_diag_def split: if_splits\<close>)
  have c2: "clear d2" by (rule subgraph_inv [OF st(2), where P = clear]) (use c1 clear_text node_steps_clear(2) in auto)
  have l2: "length (routeIds d2) = length routes" using subgraph_routes [OF st(2) js(3)] c1 by simp
  have c3: "clear (link_sections ?ls ?rs d2) \<and> routeIds (link_sections ?ls ?rs d2) = routeIds d2"
    using c2 clear_text by (simp add: link_sections_def)
  have c4: "clear d4 \<and> routeIds d4 = routeIds d2"
    by (rule over_inv [OF st(3), where P = "\<lambda>e. clear e \<and> routeIds e = routeIds d2"])
      (use c3 node_steps_clear(3) in \<open>auto simp: service_node_def split: if_splits\<close>)
  have c5: "clear d5" by (rule over_inv [OF st(4), where P = clear]) (use c4 upstream_clear in auto)
  have "nodes_done d5 routes svcs ups"
    using c5 c4 l2 services_have [OF st(3)] upstreams_have [OF st(4)] by (simp add: nodes_done_def)
  then show ?thesis using that [OF _ _ _ _ e] elems_js_elems js by (simp add: sec_def)
qed

text \<open>Names and references that are not spelled like a method which every object inherits.\<close>

definition plain_doc :: "jv \<Rightarrow> bool" where
  "plain_doc doc = ((\<forall>k \<in> {''services'', ''upstreams''}. \<forall>e \<in> elems (sub doc k). js_string (sub e ''name'') \<noteq> ''__proto__'') \<and>
     (\<forall>r \<in> elems (sub doc ''routes''). js_string (sub r ''service'') \<notin> set object_proto) \<and>
     (\<forall>s \<in> elems (sub doc ''services''). service_refs_plain s))"

lemma colorDefs_plain: "node_names colorDefs = []" "edges_of colorDefs = {}" "\<forall>l \<in> set colorDefs. \<nexists>ind n t. l = DNode ind n t"
  by (simp_all add: colorDefs_def DIAG_COLORS_def class_def_def)

text \<open>The edge phases keep labels safe, whatever the document holds.\<close>

lemma ref_edge_labels: "labels_ok d \<Longrightarrow> labels_ok (ref_edge ns t a x y k d)"
  by (auto simp: ref_edge_def missing_edge_def intro!: labels_push labels_node)

lemma service_edges_labels: "service_edges ns i s d = Some d' \<Longrightarrow> labels_ok d \<Longrightarrow> labels_ok d'"
proof -
  assume s: "service_edges ns i s d = Some d'" and l: "labels_ok d"
  obtain sid ts d1 where o: "over (target_edge ns sid) 0 ts d1 = Some d'" "labels_ok d1"
    using s l ref_edge_labels by (auto simp: service_edges_def Let_def split: if_splits option.splits)
  show ?thesis
    by (rule over_inv [OF o(1), where P = labels_ok]) (use o(2) ref_edge_labels in \<open>auto simp: target_edge_def split: if_splits\<close>)
qed

lemma safe_label_quotes: "safe_label l \<Longrightarrow> CHR 0x22 \<notin> set l"
proof -
  have "CHR 0x22 \<notin> set (js_join ''<br/>'' ps)" if "list_all plain_part ps" for ps
    using that by (induction "''<br/>''" ps rule: js_join.induct) (auto simp: plain_part_def)
  then show "safe_label l \<Longrightarrow> CHR 0x22 \<notin> set l" unfolding safe_label_def by blast
qed

lemma flow_labels:
  assumes "genRequestFlow doc = Some (Inr d)"
  shows "labels_ok d"
proof -
  obtain svcs ups routes d5 d6 d7 where n: "nodes_done d5 routes svcs ups"
    and e: "over (route_edge (idx_names svcs)) 0 routes d5 = Some d6" "over (service_edges (idx_names ups)) 0 svcs d6 = Some d7" "d = push colorDefs d7"
    using flow_phases [OF assms] .
  have "labels_ok d6"
    by (rule over_inv [OF e(1), where P = labels_ok]) (use n ref_edge_labels in \<open>auto simp: nodes_done_def clear_def route_edge_def split: if_splits\<close>)
  then have "labels_ok d7" by (rule over_inv [OF e(2), where P = labels_ok]) (rule service_edges_labels)
  then show ?thesis using colorDefs_plain(3) e(3) labels_push by blast
qed

section \<open>Missing nodes\<close>

definition lost :: "string list \<Rightarrow> jv \<Rightarrow> bool" where
  "lost ns x = (truthy x \<and> \<not> in_idx ns x)"

lemma ref_edge_missing: "''missing'' \<in> set (used (ref_edge ns t a x y k d)) \<longleftrightarrow> ''missing'' \<in> set (used d) \<or> \<not> in_idx ns k"
  by (simp add: ref_edge_def missing_edge_def)

lemma routes_missing:
  assumes o: "over (route_edge ns) 0 rs d = Some d'" and n: "length (routeIds d) = length rs"
  shows "''missing'' \<in> set (used d') \<longleftrightarrow> ''missing'' \<in> set (used d) \<or> (\<exists>r \<in> set rs. truthy r \<and> lost ns (sub r ''service''))"
proof -
  let ?Q = "\<lambda>i r. i < length rs \<and> truthy r \<and> lost ns (sub r ''service'')"
  have "length (routeIds d') = length rs \<and>
      (''missing'' \<in> set (used d') \<longleftrightarrow> ''missing'' \<in> set (used d) \<or> (\<exists>k < length rs. ?Q (0 + k) (rs ! k)))"
    by (rule over_mark [OF o, where I = "\<lambda>e. length (routeIds e) = length rs" and P = "\<lambda>e. ''missing'' \<in> set (used e)"])
      (use n in \<open>auto simp: route_edge_def ref_edge_missing lost_def split: if_splits\<close>)
  then show ?thesis by (auto simp: set_conv_nth)
qed

lemma targets_missing:
  assumes "over (target_edge ns sid) 0 ts d = Some d'"
  shows "''missing'' \<in> set (used d') \<longleftrightarrow> ''missing'' \<in> set (used d) \<or> (\<exists>t \<in> set ts. lost ns (sub t ''upstream''))"
proof -
  have "True \<and> (''missing'' \<in> set (used d') \<longleftrightarrow> ''missing'' \<in> set (used d) \<or> (\<exists>k < length ts. lost ns (sub (ts ! k) ''upstream'')))"
    by (rule over_mark [OF assms, where I = "\<lambda>_. True" and P = "\<lambda>e. ''missing'' \<in> set (used e)"])
      (auto simp: target_edge_def ref_edge_missing lost_def split: if_splits)
  then show ?thesis by (auto simp: set_conv_nth)
qed

lemma split_targets_set: "split_targets s = Some ts \<Longrightarrow> set ts = elems (sub (sub s ''split'') ''targets'')"
  using sub_falsy [of "sub s ''split''" "''targets''"] by (auto simp: split_targets_def list_or_elems elems_def split: if_splits)

definition service_lost :: "string list \<Rightarrow> jv \<Rightarrow> bool" where
  "service_lost ns s = (lost ns (sub s ''upstream'') \<or> (\<exists>t \<in> elems (sub (sub s ''split'') ''targets''). lost ns (sub t ''upstream'')))"

lemma service_missing:
  assumes "service_edges ns i s d = Some d'"
  shows "''missing'' \<in> set (used d') \<longleftrightarrow> ''missing'' \<in> set (used d) \<or> service_lost ns s"
proof -
  let ?sid = "node_text (svcNodes d) (sub s ''name'')"
  let ?d1 = "if truthy (sub s ''upstream'') then ref_edge ns (upNodes d) ?sid ''-->'' ''-->'' (sub s ''upstream'') d else d"
  obtain ts where ts: "split_targets s = Some ts" "over (target_edge ns ?sid) 0 ts ?d1 = Some d'"
    using assms by (auto simp: service_edges_def Let_def split: if_splits option.splits)
  have "''missing'' \<in> set (used ?d1) \<longleftrightarrow> ''missing'' \<in> set (used d) \<or> lost ns (sub s ''upstream'')"
    by (simp add: ref_edge_missing lost_def)
  then show ?thesis using targets_missing [OF ts(2)] split_targets_set [OF ts(1)] by (auto simp: service_lost_def)
qed

lemma services_missing:
  assumes "over (service_edges ns) 0 ss d = Some d'"
  shows "''missing'' \<in> set (used d') \<longleftrightarrow> ''missing'' \<in> set (used d) \<or> (\<exists>s \<in> set ss. service_lost ns s)"
proof -
  have "True \<and> (''missing'' \<in> set (used d') \<longleftrightarrow> ''missing'' \<in> set (used d) \<or> (\<exists>k < length ss. service_lost ns (ss ! k)))"
    by (rule over_mark [OF assms, where I = "\<lambda>_. True" and P = "\<lambda>e. ''missing'' \<in> set (used e)"]) (auto simp: service_missing)
  then show ?thesis by (auto simp: set_conv_nth)
qed

text \<open>Sections and references as the schema has them: entries are objects, names and references are texts or absent.\<close>

definition text_or_none :: "jv \<Rightarrow> bool" where
  "text_or_none x = (case x of JUndef \<Rightarrow> True | JStr n \<Rightarrow> True | _ \<Rightarrow> False)"

definition well_named :: "jv \<Rightarrow> bool" where
  "well_named doc = ((\<forall>k \<in> {''services'', ''upstreams''}. \<forall>e \<in> elems (sub doc k). js_typeof e = ''object'' \<and> text_or_none (sub e ''name'')) \<and>
     (\<forall>r \<in> elems (sub doc ''routes''). text_or_none (sub r ''service'')) \<and>
     (\<forall>s \<in> elems (sub doc ''services''). text_or_none (sub s ''upstream'') \<and>
        (\<forall>t \<in> elems (sub (sub s ''split'') ''targets''). text_or_none (sub t ''upstream''))))"

text \<open>A reference in the sense of the validator, the empty text apart.\<close>

definition leads :: "jv \<Rightarrow> jv \<Rightarrow> bool" where
  "leads sc x = (case x of JStr n \<Rightarrow> n = [] \<or> offers sc n | _ \<Rightarrow> True)"

lemma idx_offers:
  assumes "set vs = elems sc" "\<forall>e \<in> elems sc. js_typeof e = ''object'' \<and> text_or_none (sub e ''name'')" "n \<noteq> []"
  shows "in_idx (idx_names vs) (JStr n) \<longleftrightarrow> offers sc n"
proof -
  have "n \<in> set (idx_names vs) \<longleftrightarrow> (\<exists>e \<in> elems sc. truthy e \<and> truthy (sub e ''name'') \<and> js_string (sub e ''name'') = n)"
    using assms(1) by (auto simp: idx_names_def)
  also have "\<dots> \<longleftrightarrow> (\<exists>e \<in> elems sc. js_typeof e = ''object'' \<and> sub e ''name'' = JStr n)"
  proof (rule bex_cong [OF refl])
    fix e assume e: "e \<in> elems sc"
    have o: "js_typeof e = ''object'' \<and> text_or_none (sub e ''name'')" using assms(2) e by blast
    then have "truthy e \<or> sub e ''name'' = JUndef" by (cases e) (auto simp: sub_def nullish_def)
    then show "(truthy e \<and> truthy (sub e ''name'') \<and> js_string (sub e ''name'') = n) \<longleftrightarrow> (js_typeof e = ''object'' \<and> sub e ''name'' = JStr n)"
      using o assms(3) by (auto simp: text_or_none_def split: jv.splits)
  qed
  finally show ?thesis by (simp add: in_idx_def offers_def)
qed

lemma lost_leads:
  assumes "set vs = elems sc" "\<forall>e \<in> elems sc. js_typeof e = ''object'' \<and> text_or_none (sub e ''name'')" "text_or_none x"
  shows "lost (idx_names vs) x \<longleftrightarrow> \<not> leads sc x"
  using idx_offers [OF assms(1,2)] assms(3) by (auto simp: lost_def leads_def text_or_none_def split: jv.splits)

section \<open>Example\<close>

definition flow_demo :: jv where
  "flow_demo = JObj [
     (''listeners'', JArr [JObj [(''name'', JStr ''web''), (''port'', jint 80)]]),
     (''routes'', JArr [JObj [(''name'', JStr ''a <b>''), (''service'', JStr ''s1'')], JObj [(''service'', JStr ''gone'')]]),
     (''services'', JArr [JObj [(''name'', JStr ''s1''), (''upstream'', JStr ''u1''),
        (''split'', JObj [(''targets'', JArr [JObj [(''upstream'', JStr ''u1''), (''weight'', jint 9)]])])]]),
     (''upstreams'', JArr [JObj [(''name'', JStr ''u1''), (''endpoints'', JArr [JObj [(''address'', JStr ''10.0.0.1'')]])]])]"

lemma flow_demo_drawn:
  "case genRequestFlow flow_demo of Some (Inr d) \<Rightarrow> ''missing'' \<in> set (used d) \<and> DEdge ''N2'' ''-->'' ''N6'' \<in> set (dlines d) \<and>
     DEdge ''N3'' ''-.->|split 9|'' ''N4'' \<in> set (dlines d) \<and>
     DNode ''    '' ''N1'' ''a &lt;b&gt;<br/>?'' \<in> set (dlines d) \<and> click_target d ''N3'' = Some [KName ''services'', KIdx 0] | _ \<Rightarrow> False"
  by code_simp

text \<open>Two services without a name: the edge of the first leaves from the node of the second.\<close>

lemma unnamed_services_share_a_node:
  "case genRequestFlow (JObj [(''services'', JArr [JObj [(''upstream'', JStr ''u'')], JObj []]), (''upstreams'', JArr [JObj [(''name'', JStr ''u'')]])])
     of Some (Inr d) \<Rightarrow> edges_of (filter (\<lambda>l. case l of DEdge _ _ _ \<Rightarrow> True | _ \<Rightarrow> False) (dlines d)) = {(''N1'', ''N2'')} | _ \<Rightarrow> False"
  by code_simp

text \<open>The weight of a split target is written as it is: a text can end the line and add statements of its own.\<close>

lemma split_weight_unescaped:
  "case genRequestFlow (JObj [(''services'', JArr [JObj [(''name'', JStr ''s''), (''split'', JObj [(''targets'',
       JArr [JObj [(''upstream'', JStr ''u''), (''weight'', JStr (''1| N1'' @ [CHR 0x0A] @ ''  click N0 href x'' @ [CHR 0x0A] @ ''  N0 -->|''))]])])]]),
     (''upstreams'', JArr [JObj [(''name'', JStr ''u'')]])]) of
     Some (Inr d) \<Rightarrow> list_ex (\<lambda>l. line_text l = ''  N0 -.->|split 1| N1'' @ [CHR 0x0A] @ ''  click N0 href x'' @ [CHR 0x0A] @ ''  N0 -->|| N1'') (dlines d) | _ \<Rightarrow> False"
  by code_simp

section \<open>Properties\<close>

text \<open>
  C34. The request flow is a graph over the nodes that it writes: every node is written once and is known to the click
  handler under its own id, and every edge connects two of them, for a document whose names are not inherited ones.
\<close>

theorem flow_edges_between_nodes:
  assumes "genRequestFlow doc = Some (Inr d)" and "plain_doc doc"
  shows "distinct (node_names (dlines d)) \<and> node_names (dlines d) = map fst (nodeMap d) \<and>
    (\<forall>(a, b) \<in> edges_of (dlines d). a \<in> set (node_names (dlines d)) \<and> b \<in> set (node_names (dlines d)))"
proof -
  obtain svcs ups routes d5 d6 d7 where
    set: "set svcs = elems (sub doc ''services'')" "set ups = elems (sub doc ''upstreams'')" "set routes = elems (sub doc ''routes'')" and
    n: "nodes_done d5 routes svcs ups" and e: "over (route_edge (idx_names svcs)) 0 routes d5 = Some d6"
    "over (service_edges (idx_names ups)) 0 svcs d6 = Some d7" "d = push colorDefs d7"
    using flow_phases [OF assms(1)] .
  have names: "js_string (sub v ''name'') \<noteq> ''__proto__''" if "v \<in> set svcs \<union> set ups" for v
    using that assms(2) set unfolding plain_doc_def by blast
  have cov: "covers (idx_names svcs) (svcNodes d5)" "covers (idx_names ups) (upNodes d5)"
    using n names by (auto simp: nodes_done_def intro!: names_covered)
  have d6: "drawn d6 \<and> same_tables d6 d5"
    by (rule routes_drawn [OF e(1) _ cov(1)]) (use n assms(2) set in \<open>simp_all add: nodes_done_def clear_def plain_doc_def\<close>)
  have "\<forall>s \<in> set svcs. service_refs_plain s \<and> map_of (svcNodes d6) (js_string (sub s ''name'')) \<noteq> None"
    using n names assms(2) set d6 by (simp add: nodes_done_def has_node_def same_tables_def plain_doc_def)
  then have "drawn d7" using services_drawn [OF e(2)] d6 cov(2) by (simp add: same_tables_def)
  then have "drawn d" using colorDefs_plain by (simp add: e(3) drawn_push)
  moreover have "inj_on node_id S" for S by (rule inj_onI) (metis list.inject nat_of_digits_nat_str node_id_def)
  ultimately show ?thesis by (auto simp: drawn_def ids_def distinct_map atLeast0LessThan)
qed

theorem flow_edges_between_nodes_witness:
  "\<exists>d. genRequestFlow flow_demo = Some (Inr d) \<and> distinct (node_names (dlines d)) \<and> (''N2'', ''N6'') \<in> edges_of (dlines d) \<and> ''N6'' \<in> set (map fst (nodeMap d))"
proof -
  obtain d where d: "genRequestFlow flow_demo = Some (Inr d)" and e: "DEdge ''N2'' ''-->'' ''N6'' \<in> set (dlines d)"
    using flow_demo_drawn by (auto split: option.splits sum.splits)
  have p: "plain_doc flow_demo" by code_simp
  have "(''N2'', ''N6'') \<in> edges_of (dlines d)" using e by (force simp: edges_of_def)
  then show ?thesis using flow_edges_between_nodes [OF d p] d by fastforce
qed



end
