(* ===== verification/Studio_Attachments.thy ===== *)
theory Studio_Attachments
  imports Studio_Diagram
begin

text \<open>
  The other diagrams of config studio (\<open>tools/config-studio/src/app.template.html\<close>), on the lines and loops of
  \<open>Studio_Diagram\<close>: policy attachments, consumers and authentication, and the AI gateway. A table of nodes that a generator
  fills while it writes is part of the state of its loop.
\<close>

section \<open>Policy attachments\<close>

definition policy_parts :: "nat \<Rightarrow> jv \<Rightarrow> jv list" where
  "policy_parts i p = [js_or (sub p ''name'') (numbered ''policy'' i)] @
     (if truthy (sub p ''rate_limit'') \<or> truthy (sub p ''rate_limits'') then [JStr ''rate-limit''] else []) @
     (if truthy (sub p ''timeouts'') then [JStr ''timeouts''] else []) @
     (if truthy (sub p ''token_budget'') then [JStr ''token-budget''] else [])"

definition policy_node :: "nat \<Rightarrow> jv \<Rightarrow> diag \<times> node_table \<Rightarrow> (diag \<times> node_table) option" where
  "policy_node i p s = (if nullish p then None
     else Some (add_node ''  '' (Some [KName ''policies'', KIdx i]) (mLabel (policy_parts i p)) ''policy'' True (fst s),
       set_node (sub p ''name'') (next_id (fst s)) (snd s)))"

text \<open>The node of the global policies has a shape of its own, and a path that leads nowhere.\<close>

definition global_node :: "diag \<Rightarrow> diag" where
  "global_node d = (let n = next_id d in
     push [DText (''  '' @ n @ [CHR ''{'', CHR 0x22] @ ''global_policies'' @ [CHR 0x22, CHR ''}'']), DClass ''  '' n ''global'']
       (d\<lparr>nextNode := Suc (nextNode d), nodeMap := nodeMap d @ [(n, None)], used := mark ''global'' (used d)\<rparr>))"

definition global_list :: "jv \<Rightarrow> jv" where
  "global_list g = js_or (sub g ''policies'') g"

definition global_edges :: "string list \<Rightarrow> node_table \<Rightarrow> jv \<Rightarrow> diag \<Rightarrow> diag option" where
  "global_edges ns t g d = (if \<not> truthy g then Some d
     else case js_elems (global_list g) of None \<Rightarrow> None
     | Some pns \<Rightarrow> over (\<lambda>i pn e. Some (ref_edge ns t (next_id d) ''-->'' ''-->'' pn e)) 0 pns (global_node d))"

text \<open>\<open>entNode(key, idx, label, type)\<close>: one node for each entity, however many policies it has.\<close>

definition ent_key :: "string \<Rightarrow> nat \<Rightarrow> string" where
  "ent_key kd i = kd @ ''_'' @ nat_str i"

definition entNode :: "string \<Rightarrow> string \<Rightarrow> nat \<Rightarrow> jv \<Rightarrow> diag \<times> node_table \<Rightarrow> string \<times> diag \<times> node_table" where
  "entNode kd cls i l s = (case map_of (snd s) (ent_key kd i) of
       Some n \<Rightarrow> (n, s)
     | None \<Rightarrow> (next_id (fst s),
         add_node ''  '' (Some [KName kd, KIdx i]) (mLabel [JStr cls, js_or (sub l ''name'') (numbered cls i)]) cls True (fst s),
         (ent_key kd i, next_id (fst s)) # snd s))"

definition attach_edge :: "string list \<Rightarrow> node_table \<Rightarrow> string \<Rightarrow> string \<Rightarrow> nat \<Rightarrow> jv \<Rightarrow> nat \<Rightarrow> jv \<Rightarrow> diag \<times> node_table \<Rightarrow> (diag \<times> node_table) option" where
  "attach_edge ns t kd cls i l j pn s = Some (if in_idx ns pn
     then (case entNode kd cls i l s of (n, d, ents) \<Rightarrow> (push [DEdge n ''-->'' (node_text t pn)] d, ents)) else s)"

definition attach_entity :: "string list \<Rightarrow> node_table \<Rightarrow> string \<Rightarrow> string \<Rightarrow> nat \<Rightarrow> jv \<Rightarrow> diag \<times> node_table \<Rightarrow> (diag \<times> node_table) option" where
  "attach_entity ns t kd cls i l s = (case (if truthy l then list_or (sub l ''policies'') else Some []) of None \<Rightarrow> None
     | Some pns \<Rightarrow> over (attach_edge ns t kd cls i l) 0 pns s)"

definition attach_section :: "string list \<Rightarrow> node_table \<Rightarrow> jv \<Rightarrow> string \<times> string \<Rightarrow> diag \<times> node_table \<Rightarrow> (diag \<times> node_table) option" where
  "attach_section ns t doc sc s = (case list_or (sub doc (fst sc)) of None \<Rightarrow> None
     | Some vs \<Rightarrow> over (attach_entity ns t (fst sc) (snd sc)) 0 vs s)"

definition attached_sections :: "(string \<times> string) list" where
  "attached_sections = [(''listeners'', ''listener''), (''routes'', ''route''), (''services'', ''service''), (''consumers'', ''consumer'')]"

fun attach_all :: "string list \<Rightarrow> node_table \<Rightarrow> jv \<Rightarrow> (string \<times> string) list \<Rightarrow> diag \<times> node_table \<Rightarrow> (diag \<times> node_table) option" where
  "attach_all ns t doc [] s = Some s"
| "attach_all ns t doc (sc # scs) s = (case attach_section ns t doc sc s of None \<Rightarrow> None | Some s' \<Rightarrow> attach_all ns t doc scs s')"

text \<open>The end of a generator: a message when nothing but the first line was written.\<close>

definition finish :: "string \<Rightarrow> diag \<Rightarrow> string + diag" where
  "finish msg d = (if length (dlines d) \<le> 1 then Inl msg else Inr (push colorDefs d))"

definition genPolicyAttachments :: "jv \<Rightarrow> (string + diag) option" where
  "genPolicyAttachments doc = (if nullish doc then None
     else if \<not> has_len (sec doc ''policies'') \<and> \<not> truthy (sub doc ''global_policies'') then Some (Inl ''No policies configured.'')
     else do {
       ps \<leftarrow> js_elems (sec doc ''policies'');
       (d1, t) \<leftarrow> over policy_node 0 ps (push [DText ''flowchart TD''] empty_diag, []);
       d2 \<leftarrow> global_edges (idx_names ps) t (sub doc ''global_policies'') d1;
       (d3, ents) \<leftarrow> attach_all (idx_names ps) t doc attached_sections (d2, []);
       Some (finish ''No policy attachments found.'' d3) })"

section \<open>Consumers and authentication\<close>

definition credType :: "jv \<Rightarrow> jv" where
  "credType c = (if \<not> truthy c \<or> \<not> truthy (sub c ''type'') then JStr ''credential''
     else if sub c ''type'' = JStr ''api_key'' then JStr ''api-key'' else sub c ''type'')"

definition credential_node :: "nat \<Rightarrow> string \<Rightarrow> nat \<Rightarrow> jv \<Rightarrow> diag \<Rightarrow> diag option" where
  "credential_node i from j c d = Some (push [DEdge from ''---'' (next_id d)]
     (add_node ''  '' (Some [KName ''consumers'', KIdx i]) (mLabel [credType c]) ''credential'' False d))"

definition consumer_node :: "nat \<Rightarrow> jv \<Rightarrow> diag \<times> node_table \<Rightarrow> (diag \<times> node_table) option" where
  "consumer_node i c s = (if nullish c then None
     else case list_or (sub c ''credentials'') of None \<Rightarrow> None
     | Some cs \<Rightarrow> map_option (\<lambda>d. (d, set_node (sub c ''name'') (next_id (fst s)) (snd s)))
         (over (credential_node i (next_id (fst s))) 0 cs
           (add_node ''  '' (Some [KName ''consumers'', KIdx i]) (mLabel [JStr ''consumer'', js_or (sub c ''name'') (numbered ''consumer'' i)]) ''consumer'' True (fst s))))"

text \<open>A provider of the kind \<open>cls\<close>, which may name a consumer.\<close>

definition provider_node :: "string \<Rightarrow> string \<Rightarrow> string list \<Rightarrow> node_table \<Rightarrow> nat \<Rightarrow> jv \<Rightarrow> diag \<Rightarrow> diag option" where
  "provider_node kd cls ns t i p d = (if nullish p then None
     else let d1 = add_node ''  '' (Some [KName kd]) (mLabel [JStr cls, js_or (sub p ''name'') (numbered ''provider'' i)]) cls True d in
       Some (if truthy (sub p ''consumer'') then ref_edge ns t (next_id d) ''-->'' ''-->'' (sub p ''consumer'') d1 else d1))"

definition hmac_node :: "jv \<Rightarrow> diag \<Rightarrow> diag" where
  "hmac_node h d = (if truthy h then add_node ''  '' (Some [KName ''hmac_auth'']) (mLabel [JStr ''hmac auth'']) ''hmac'' True d else d)"

text \<open>The mapping of client certificates; its entries are used as names of consumers.\<close>

definition mtls_node :: "string list \<Rightarrow> node_table \<Rightarrow> jv \<Rightarrow> diag \<Rightarrow> diag option" where
  "mtls_node ns t m d = (if \<not> truthy m \<or> \<not> truthy (sub m ''enabled'') then Some d
     else let d1 = add_node ''  '' (Some [KName ''mtls_consumer_mapping'']) (mLabel [JStr ''mTLS mapping'']) ''mtls'' True d in
       case list_or (sub m ''consumers'') of None \<Rightarrow> None
       | Some cns \<Rightarrow> over (\<lambda>j cn e. Some (if in_idx ns cn then push [DEdge (next_id d) ''-->'' (node_text t cn)] e else e)) 0 cns d1)"

definition genConsumerAuth :: "jv \<Rightarrow> (string + diag) option" where
  "genConsumerAuth doc = (if nullish doc then None
     else if \<not> list_ex (\<lambda>k. has_len (sec doc k)) [''consumers'', ''jwt_providers'', ''oidc_providers''] \<and>
         \<not> truthy (sub doc ''hmac_auth'') \<and> \<not> truthy (sub doc ''mtls_consumer_mapping'')
       then Some (Inl ''No consumers or auth providers configured.'')
     else do {
       cs \<leftarrow> js_elems (sec doc ''consumers'');
       (d1, t) \<leftarrow> over consumer_node 0 cs (push [DText ''flowchart LR''] empty_diag, []);
       js \<leftarrow> js_elems (sec doc ''jwt_providers'');
       d2 \<leftarrow> over (provider_node ''jwt_providers'' ''jwt'' (idx_names cs) t) 0 js d1;
       os \<leftarrow> js_elems (sec doc ''oidc_providers'');
       d3 \<leftarrow> over (provider_node ''oidc_providers'' ''oidc'' (idx_names cs) t) 0 os d2;
       d4 \<leftarrow> mtls_node (idx_names cs) t (sub doc ''mtls_consumer_mapping'') (hmac_node (sub doc ''hmac_auth'') d3);
       Some (finish ''No consumer or auth relationships to show.'' d4) })"

section \<open>AI gateway\<close>

text \<open>The path of a node that stands for a referenced upstream; the last entry of a name counts.\<close>

definition idx_pos :: "jv list \<Rightarrow> jv \<Rightarrow> nat option" where
  "idx_pos vs name = (case filter (\<lambda>i. truthy (vs ! i) \<and> truthy (sub (vs ! i) ''name'') \<and> js_string (sub (vs ! i) ''name'') = js_string name)
       [0 ..< length vs] of [] \<Rightarrow> None | is \<Rightarrow> Some (last is))"

definition upstream_path :: "jv list \<Rightarrow> jv \<Rightarrow> key list" where
  "upstream_path ups name = [KName ''upstreams'', case idx_pos ups name of Some i \<Rightarrow> KIdx i
     | None \<Rightarrow> KName (js_string (proto_read [] (js_string name)))]"

definition ai_upstream :: "jv list \<Rightarrow> string \<Rightarrow> jv \<Rightarrow> diag \<Rightarrow> diag" where
  "ai_upstream ups from ref d = (if in_idx (idx_names ups) ref
     then push [DEdge from ''-->'' (next_id d)] (add_node ''  '' (Some (upstream_path ups ref)) (mLabel [JStr ''upstream'', ref]) ''upstream'' True d)
     else missing_edge from ''-->'' ref d)"

definition ai_provider :: "jv list \<Rightarrow> nat \<Rightarrow> jv \<Rightarrow> diag \<times> node_table \<Rightarrow> (diag \<times> node_table) option" where
  "ai_provider ups i p s = (if nullish p then None
     else let d1 = add_node ''  '' (Some [KName ''ai''])
         (mLabel [JStr ''provider'', js_or (sub p ''name'') (numbered ''provider'' i), js_or (sub p ''kind'') (JStr [])]) ''provider'' True (fst s) in
       Some (if truthy (sub p ''upstream'') then ai_upstream ups (next_id (fst s)) (sub p ''upstream'') d1 else d1,
         set_node (sub p ''name'') (next_id (fst s)) (snd s)))"

definition model_refs_drawn :: "string list \<Rightarrow> node_table \<Rightarrow> string \<Rightarrow> jv \<Rightarrow> diag \<Rightarrow> diag" where
  "model_refs_drawn ns t n m d1 = (
     let p = sub m ''provider'';
         d2 = (if truthy p then ref_edge ns t n ''-->'' ''-->'' p d1 else d1);
         fo = sub (sub m ''failover'') ''provider'';
         d3 = (if truthy (sub m ''failover'') \<and> truthy fo then ref_edge ns t n ''-.->|failover|'' ''-.->|failover|'' fo d2 else d2);
         ca = sub (sub m ''canary'') ''provider'' in
     if truthy (sub m ''canary'') \<and> truthy ca \<and> in_idx ns ca
     then push [DEdge n (''-.->|canary '' @ js_string (js_or (sub (sub m ''canary'') ''weight'') (jint 0)) @ ''|'') (node_text t ca)] d3 else d3)"

definition model_node :: "string list \<Rightarrow> node_table \<Rightarrow> string \<Rightarrow> jv \<Rightarrow> diag \<Rightarrow> diag" where
  "model_node ns t alias m d = (if \<not> truthy m then d
     else model_refs_drawn ns t (next_id d) m (add_node ''  '' (Some [KName ''ai''])
       (mLabel [JStr ''model'', JStr alias, js_or (sub m ''provider_model'') (JStr [])]) ''model'' True d))"

definition genAiGateway :: "jv \<Rightarrow> (string + diag) option" where
  "genAiGateway doc = (if nullish doc then None
     else let ai = sub doc ''ai''; models = js_or (sub ai ''models'') (JObj []) in
     if \<not> truthy ai \<or> (\<not> truthy (sub ai ''models'') \<and> \<not> truthy (sub ai ''providers''))
       then Some (Inl ''No AI gateway configured. Add an ai block to define providers and models.'')
     else do {
       ups \<leftarrow> js_elems (sec doc ''upstreams'');
       ps \<leftarrow> js_elems (sec ai ''providers'');
       ks \<leftarrow> object_keys models;
       if \<not> has_len (sec ai ''providers'') \<and> ks = [] then Some (Inl ''No AI providers or models configured.'')
       else do {
         (d1, t) \<leftarrow> over (ai_provider ups) 0 ps (push [DText ''flowchart LR''] empty_diag, []);
         d2 \<leftarrow> over (\<lambda>i a e. Some (model_node (idx_names ps) t (js_string a) (sub models (js_string a)) e)) 0 (map JStr ks) d1;
         Some (finish ''No AI provider or model relationships to show.'' d2) } })"

section \<open>Laws\<close>

text \<open>Every generator writes safe labels only: the fact about its state that each step keeps.\<close>

lemma start_labels: "labels_ok (push [DText t] empty_diag)"
  by (simp add: labels_ok_def empty_diag_def)

lemma edge_labels: "labels_ok d \<Longrightarrow> labels_ok (push [DEdge a x b] d)"
  by (simp add: labels_push)

lemma finish_labels: "labels_ok d \<Longrightarrow> finish msg d = Inr d' \<Longrightarrow> labels_ok d'"
  using colorDefs_plain(3) by (auto simp: finish_def intro!: labels_push split: if_splits)

lemma policy_labels:
  assumes "genPolicyAttachments doc = Some (Inr d)"
  shows "labels_ok d"
proof -
  obtain ps d1 t d2 d3 ents where
    o: "over policy_node 0 ps (push [DText ''flowchart TD''] empty_diag, []) = Some (d1, t)"
    and g: "global_edges (idx_names ps) t (sub doc ''global_policies'') d1 = Some d2"
    and a: "attach_all (idx_names ps) t doc attached_sections (d2, []) = Some (d3, ents)" and f: "finish ''No policy attachments found.'' d3 = Inr d"
    using assms by (auto simp: genPolicyAttachments_def bind_eq_Some_conv split: if_splits)
  have d1: "labels_ok (fst (d1, t))"
    by (rule over_inv [OF o, where P = "\<lambda>s. labels_ok (fst s)"]) (auto simp: start_labels policy_node_def intro!: labels_node split: if_splits)
  have "labels_ok (global_node e)" if "labels_ok e" for e
    using that by (simp add: labels_ok_def global_node_def Let_def)
  then have d2: "labels_ok d2"
    using g d1 by (auto simp: global_edges_def intro: ref_edge_labels elim!: over_inv [where P = labels_ok] split: if_splits option.splits)
  have "labels_ok (fst s')" if "attach_section ns t doc sc s = Some s'" "labels_ok (fst s)" for ns sc s s'
    using that unfolding attach_section_def
  proof (cases "list_or (sub doc (fst sc))")
    case (Some vs)
    then have v: "over (attach_entity ns t (fst sc) (snd sc)) 0 vs s = Some s'" using that(1) by (simp add: attach_section_def)
    show ?thesis
    proof (rule over_inv [OF v, where P = "\<lambda>s. labels_ok (fst s)"])
      fix i l e e' assume e: "labels_ok (fst e)" and st: "attach_entity ns t (fst sc) (snd sc) i l e = Some e'"
      obtain pns where p: "over (attach_edge ns t (fst sc) (snd sc) i l) 0 pns e = Some e'"
        using st by (auto simp: attach_entity_def split: option.splits)
      show "labels_ok (fst e')"
        by (rule over_inv [OF p, where P = "\<lambda>s. labels_ok (fst s)"])
          (use e in \<open>auto simp: attach_edge_def entNode_def intro!: edge_labels labels_node split: if_splits option.splits\<close>)
    qed (rule that(2))
  qed (use that(1) in \<open>simp add: attach_section_def\<close>)
  then have "attach_all ns t doc scs s = Some s' \<Longrightarrow> labels_ok (fst s) \<Longrightarrow> labels_ok (fst s')" for ns scs s s'
    by (induction scs arbitrary: s) (auto split: option.splits)
  then show ?thesis using a d2 finish_labels [OF _ f] by fastforce
qed

lemma consumer_labels:
  assumes "genConsumerAuth doc = Some (Inr d)"
  shows "labels_ok d"
proof -
  obtain cs d1 t js d2 os d3 d4 where
    o: "over consumer_node 0 cs (push [DText ''flowchart LR''] empty_diag, []) = Some (d1, t)"
    and j: "over (provider_node ''jwt_providers'' ''jwt'' (idx_names cs) t) 0 js d1 = Some d2"
    and k: "over (provider_node ''oidc_providers'' ''oidc'' (idx_names cs) t) 0 os d2 = Some d3"
    and m: "mtls_node (idx_names cs) t (sub doc ''mtls_consumer_mapping'') (hmac_node (sub doc ''hmac_auth'') d3) = Some d4"
    and f: "finish ''No consumer or auth relationships to show.'' d4 = Inr d"
    using assms by (auto simp: genConsumerAuth_def bind_eq_Some_conv split: if_splits)
  have "labels_ok (fst (d1, t))"
  proof (rule over_inv [OF o, where P = "\<lambda>s. labels_ok (fst s)"])
    fix i c s s' assume l: "labels_ok (fst s)" and st: "consumer_node i c s = Some s'"
    obtain x y b e where e: "over (credential_node i (next_id (fst s))) 0 x (add_node ''  '' y (mLabel b) ''consumer'' True (fst s)) = Some (fst s')"
      using st by (auto simp: consumer_node_def split: if_splits option.splits)
    show "labels_ok (fst s')"
      by (rule over_inv [OF e, where P = labels_ok]) (use l in \<open>auto simp: credential_node_def intro!: edge_labels labels_node\<close>)
  qed (simp add: start_labels)
  then have d1: "labels_ok d1" by simp
  have p: "labels_ok e'" if "provider_node kd cls ns t i v e = Some e'" "labels_ok e" for kd cls ns i v e e'
    using that by (auto simp: provider_node_def Let_def intro!: ref_edge_labels labels_node split: if_splits)
  have d2: "labels_ok d2" by (rule over_inv [OF j, where P = labels_ok]) (use d1 p in auto)
  have "labels_ok d3" by (rule over_inv [OF k, where P = labels_ok]) (use d2 p in auto)
  then have h: "labels_ok (hmac_node (sub doc ''hmac_auth'') d3)" by (auto simp: hmac_node_def intro: labels_node)
  have "labels_ok d4" using m h
    by (auto simp: mtls_node_def Let_def intro: labels_node edge_labels elim!: over_inv [where P = labels_ok] split: if_splits option.splits)
  then show ?thesis using finish_labels [OF _ f] by simp
qed

lemma ai_labels:
  assumes "genAiGateway doc = Some (Inr d)"
  shows "labels_ok d"
proof -
  let ?ai = "sub doc ''ai''"
  let ?m = "js_or (sub ?ai ''models'') (JObj [])"
  obtain ups ps ks d1 t d2 where
    o: "over (ai_provider ups) 0 ps (push [DText ''flowchart LR''] empty_diag, []) = Some (d1, t)"
    and m: "over (\<lambda>i a e. Some (model_node (idx_names ps) t (js_string a) (sub ?m (js_string a)) e)) 0 (map JStr ks) d1 = Some d2"
    and f: "finish ''No AI provider or model relationships to show.'' d2 = Inr d"
    using assms by (auto simp: genAiGateway_def Let_def bind_eq_Some_conv split: if_splits)
  have u: "labels_ok e \<Longrightarrow> labels_ok (ai_upstream ups a x e)" for a x e
    by (auto simp: ai_upstream_def missing_edge_def intro!: edge_labels labels_node)
  have "labels_ok (fst (d1, t))"
    by (rule over_inv [OF o, where P = "\<lambda>s. labels_ok (fst s)"])
      (auto simp: start_labels ai_provider_def Let_def intro!: u labels_node split: if_splits)
  then have d1: "labels_ok d1" by simp
  have r: "labels_ok (model_refs_drawn ns t n v e)" if "labels_ok e" for ns n v e
    using that by (simp add: model_refs_drawn_def Let_def ref_edge_labels edge_labels)
  have "labels_ok (model_node ns t a v e)" if "labels_ok e" for ns a v e
    using that by (auto simp: model_node_def intro!: r labels_node)
  then have "labels_ok d2" using over_inv [OF m, where P = labels_ok] d1 by auto
  then show ?thesis using finish_labels [OF _ f] by simp
qed

text \<open>Attachments of entities add no missing node: an unknown policy is passed over.\<close>

lemma entity_no_missing:
  assumes "attach_entity ns t kd cls i l s = Some s'" "cls \<noteq> ''missing''"
  shows "''missing'' \<in> set (used (fst s')) \<longleftrightarrow> ''missing'' \<in> set (used (fst s))"
proof -
  obtain pns where p: "over (attach_edge ns t kd cls i l) 0 pns s = Some s'"
    using assms(1) by (auto simp: attach_entity_def split: option.splits)
  show ?thesis
    by (rule over_inv [OF p, where P = "\<lambda>e. ''missing'' \<in> set (used (fst e)) \<longleftrightarrow> ''missing'' \<in> set (used (fst s))"])
      (use assms(2) in \<open>auto simp: attach_edge_def entNode_def split: if_splits option.splits\<close>)
qed

lemma section_no_missing:
  assumes "attach_section ns t doc sc s = Some s'" "snd sc \<noteq> ''missing''"
  shows "''missing'' \<in> set (used (fst s')) \<longleftrightarrow> ''missing'' \<in> set (used (fst s))"
proof -
  obtain vs where v: "over (attach_entity ns t (fst sc) (snd sc)) 0 vs s = Some s'"
    using assms(1) by (auto simp: attach_section_def split: option.splits)
  show ?thesis
    by (rule over_inv [OF v, where P = "\<lambda>e. ''missing'' \<in> set (used (fst e)) \<longleftrightarrow> ''missing'' \<in> set (used (fst s))"])
      (use entity_no_missing assms(2) in auto)
qed

lemma attach_no_missing:
  "attach_all ns t doc scs s = Some s' \<Longrightarrow> list_all (\<lambda>sc. snd sc \<noteq> ''missing'') scs \<Longrightarrow>
    ''missing'' \<in> set (used (fst s')) \<longleftrightarrow> ''missing'' \<in> set (used (fst s))"
proof (induction scs arbitrary: s)
  case (Cons sc scs)
  obtain s1 where s1: "attach_section ns t doc sc s = Some s1" "attach_all ns t doc scs s1 = Some s'"
    using Cons.prems(1) by (auto split: option.splits)
  show ?case using Cons.IH [OF s1(2)] section_no_missing [OF s1(1)] Cons.prems(2) by simp
qed simp

lemma global_missing:
  assumes "global_edges ns t g d = Some d'"
  shows "''missing'' \<in> set (used d') \<longleftrightarrow> ''missing'' \<in> set (used d) \<or> (truthy g \<and> (\<exists>pn \<in> elems (global_list g). \<not> in_idx ns pn))"
proof (cases "truthy g")
  case True
  then obtain pns where p: "js_elems (global_list g) = Some pns"
    and o: "over (\<lambda>i pn e. Some (ref_edge ns t (next_id d) ''-->'' ''-->'' pn e)) 0 pns (global_node d) = Some d'"
    using assms by (auto simp: global_edges_def split: option.splits)
  have "True \<and> (''missing'' \<in> set (used d') \<longleftrightarrow> ''missing'' \<in> set (used (global_node d)) \<or> (\<exists>k < length pns. \<not> in_idx ns (pns ! k)))"
    by (rule over_mark [OF o, where I = "\<lambda>_. True" and P = "\<lambda>e. ''missing'' \<in> set (used e)"])
      (auto simp: ref_edge_missing)
  moreover have "''missing'' \<in> set (used (global_node d)) \<longleftrightarrow> ''missing'' \<in> set (used d)" by (simp add: global_node_def Let_def)
  moreover have "(\<exists>k < length pns. \<not> in_idx ns (pns ! k)) \<longleftrightarrow> (\<exists>pn \<in> elems (global_list g). \<not> in_idx ns pn)"
    unfolding elems_js_elems [OF p, symmetric] by (metis in_set_conv_nth)
  ultimately show ?thesis using True by simp
qed (use assms in \<open>simp add: global_edges_def\<close>)

lemma policy_nodes_unmarked:
  assumes "over policy_node 0 ps (push [DText h] empty_diag, []) = Some s"
  shows "''missing'' \<notin> set (used (fst s))"
  by (rule over_inv [OF assms, where P = "\<lambda>e. ''missing'' \<notin> set (used (fst e))"])
    (auto simp: policy_node_def empty_diag_def split: if_splits)

section \<open>Examples\<close>

definition policy_demo :: jv where
  "policy_demo = JObj [
     (''policies'', JArr [JObj [(''name'', JStr ''limit''), (''rate_limit'', JObj [])]]),
     (''global_policies'', JArr [JStr ''limit'']),
     (''routes'', JArr [JObj [(''name'', JStr ''r''), (''policies'', JArr [JStr ''limit'', JStr ''gone''])]])]"

definition auth_demo :: jv where
  "auth_demo = JObj [
     (''consumers'', JArr [JObj [(''name'', JStr ''app''), (''credentials'', JArr [JObj [(''type'', JStr ''api_key'')]])]]),
     (''jwt_providers'', JArr [JObj [(''name'', JStr ''idp''), (''consumer'', JStr ''app'')]]),
     (''mtls_consumer_mapping'', JObj [(''enabled'', JBool True), (''consumers'', JArr [JObj [(''fingerprint'', JStr ''ab''), (''consumer'', JStr ''app'')]])])]"

definition ai_demo :: jv where
  "ai_demo = JObj [(''ai'', JObj [(''providers'', JArr [JObj [(''name'', JStr ''p''), (''upstream'', JStr ''u'')]]),
     (''models'', JObj [(''m'', JObj [(''provider'', JStr ''p''), (''canary'', JObj [(''provider'', JStr ''gone'')])])])]),
     (''upstreams'', JArr [JObj [(''name'', JStr ''u'')]])]"

lemma demo_diagrams:
  "case genPolicyAttachments policy_demo of Some (Inr d) \<Rightarrow> ''missing'' \<notin> set (used d) \<and>
     edges_of (dlines d) = {(''N1'', ''N0''), (''N2'', ''N0'')} \<and> click_target d ''N2'' = Some [KName ''routes'', KIdx 0] | _ \<Rightarrow> False"
  "case genConsumerAuth auth_demo of Some (Inr d) \<Rightarrow> edges_of (dlines d) = {(''N0'', ''N1''), (''N2'', ''N0'')} \<and> next_id d = ''N4'' | _ \<Rightarrow> False"
  "case genAiGateway ai_demo of Some (Inr d) \<Rightarrow> edges_of (dlines d) = {(''N0'', ''N1''), (''N2'', ''N0'')} \<and> ''missing'' \<notin> set (used d) \<and>
     click_target d ''N1'' = Some [KName ''upstreams'', KIdx 0] | _ \<Rightarrow> False"
  by code_simp+

section \<open>Properties\<close>



text \<open>
  The mapping of client certificates is never connected to a consumer: its entries are objects with a fingerprint and a
  consumer, but the diagram looks them up as names, so it draws the node of the mapping and no edge.
\<close>

theorem mtls_mapping_unconnected:
  assumes "mtls_node ns t m d = Some d'" and "\<forall>x \<in> elems (sub m ''consumers''). \<exists>kvs. x = JObj kvs" and "''[object Object]'' \<notin> set ns"
  shows "edges_of (dlines d') = edges_of (dlines d) \<and>
    (truthy m \<and> truthy (sub m ''enabled'') \<longrightarrow> DNode ''  '' (next_id d) ''mTLS mapping'' \<in> set (dlines d'))"
proof (cases "truthy m \<and> truthy (sub m ''enabled'')")
  case True
  let ?l = "mLabel [JStr ''mTLS mapping'']"
  let ?d1 = "add_node ''  '' (Some [KName ''mtls_consumer_mapping'']) ?l ''mtls'' True d"
  have l: "?l = ''mTLS mapping''" by code_simp
  obtain cns where c: "list_or (sub m ''consumers'') = Some cns"
    using assms(1) True by (cases "list_or (sub m ''consumers'')") (simp_all add: mtls_node_def)
  have o: "over (\<lambda>j cn e. Some (if in_idx ns cn then push [DEdge (next_id d) ''-->'' (node_text t cn)] e else e)) 0 cns ?d1 = Some d'"
    using assms(1) True c unfolding mtls_node_def Let_def by simp
  have no: "\<not> in_idx ns cn" if "cn \<in> set cns" for cn
  proof -
    have "cn \<in> elems (sub m ''consumers'')" using that unfolding list_or_elems [OF c] .
    then obtain kvs where "cn = JObj kvs" using assms(2) by blast
    then show ?thesis using assms(3) by (simp add: in_idx_def object_proto_def)
  qed
  have "d' = ?d1" by (rule over_inv [OF o, where P = "\<lambda>e. e = ?d1"]) (simp_all add: no)
  then show ?thesis using l by simp
qed (use assms(1) in \<open>auto simp: mtls_node_def\<close>)

theorem mtls_mapping_unconnected_witness:
  "\<exists>d'. mtls_node [''app''] [(''app'', ''N0'')] (sub auth_demo ''mtls_consumer_mapping'') empty_diag = Some d' \<and> edges_of (dlines d') = {}"
proof -
  let ?m = "sub auth_demo ''mtls_consumer_mapping''"
  have e: "mtls_node [''app''] [(''app'', ''N0'')] ?m empty_diag \<noteq> None" "sub ?m ''consumers'' = JArr [JObj [(''fingerprint'', JStr ''ab''), (''consumer'', JStr ''app'')]]"
    "edges_of (dlines empty_diag) = {}" "''[object Object]'' \<notin> set [''app'']"
    by code_simp+
  then obtain d' where d: "mtls_node [''app''] [(''app'', ''N0'')] ?m empty_diag = Some d'" by auto
  have "\<forall>x \<in> elems (sub ?m ''consumers''). \<exists>kvs. x = JObj kvs" by (simp add: e(2) elems_def)
  then show ?thesis using mtls_mapping_unconnected [OF d _ e(4)] d e(3) by blast
qed

text \<open>
  C35. Names cannot break out of their labels: in every diagram, the text between the quotes of a node consists of
  parts without quotes and angle brackets, separated by line breaks, whatever the document holds.
\<close>

theorem all_labels_safe:
  assumes "gen \<in> {genRequestFlow, genPolicyAttachments, genConsumerAuth, genAiGateway}" and "gen doc = Some (Inr d)"
    and "DNode ind n l \<in> set (dlines d)"
  shows "safe_label l \<and> CHR 0x22 \<notin> set l"
proof -
  have "labels_ok d" using assms(1,2) flow_labels policy_labels consumer_labels ai_labels by blast
  then show ?thesis using assms(3) safe_label_quotes unfolding labels_ok_def by blast
qed

theorem all_labels_safe_witness:
  "\<exists>d. genRequestFlow flow_demo = Some (Inr d) \<and> safe_label ''a &lt;b&gt;<br/>?''"
proof -
  obtain d where d: "genRequestFlow flow_demo = Some (Inr d)" and e: "DNode ''    '' ''N1'' ''a &lt;b&gt;<br/>?'' \<in> set (dlines d)"
    using flow_demo_drawn by (auto split: option.splits sum.splits)
  show ?thesis using all_labels_safe [where gen = genRequestFlow, OF insertI1 d e] d by blast
qed

end
