(* ===== verification/Event_Systems.thy ===== *)
theory Event_Systems
  imports Prelude
begin

text \<open>
  Components that react to events. A step function yields \<open>None\<close> for an event that cannot happen in a state (a click on a
  button that is not shown, the answer to a call that was not made); a run is a list of events that can happen one
  after the other. The locales state what an invariant and a refinement of such a component have to satisfy.
\<close>

fun run_events :: "('e \<Rightarrow> 's \<Rightarrow> 's option) \<Rightarrow> 'e list \<Rightarrow> 's \<Rightarrow> 's option" where
  "run_events step [] s = Some s"
| "run_events step (e # es) s = (case step e s of None \<Rightarrow> None | Some s' \<Rightarrow> run_events step es s')"

lemma run_events_append:
  "run_events step (es @ fs) s = (case run_events step es s of None \<Rightarrow> None | Some s' \<Rightarrow> run_events step fs s')"
  by (induction es arbitrary: s) (auto split: option.splits)

lemma run_events_ConsE:
  assumes "run_events step (e # es) s = Some s'"
  obtains s1 where "step e s = Some s1" "run_events step es s1 = Some s'"
  using assms by (auto split: option.splits)

text \<open>A property that every event of a class keeps is kept by runs of such events.\<close>

lemma run_events_keeps:
  assumes "\<And>e t t'. Q e \<Longrightarrow> P t \<Longrightarrow> step e t = Some t' \<Longrightarrow> P t'"
  shows "run_events step es s = Some s' \<Longrightarrow> list_all Q es \<Longrightarrow> P s \<Longrightarrow> P s'"
  by (induction es arbitrary: s) (auto split: option.splits intro: assms)

locale event_invariant =
  fixes step :: "'e \<Rightarrow> 's \<Rightarrow> 's option" and inv :: "'s \<Rightarrow> bool"
  assumes step_inv: "inv s \<Longrightarrow> step e s = Some s' \<Longrightarrow> inv s'"
begin

lemma run_inv: "inv s \<Longrightarrow> run_events step es s = Some s' \<Longrightarrow> inv s'"
  using run_events_keeps [of "\<lambda>e. True" inv step es s s'] step_inv by (simp add: list_all_iff)

end

locale event_refinement = event_invariant step inv
  for step :: "'e \<Rightarrow> 's \<Rightarrow> 's option" and inv :: "'s \<Rightarrow> bool" +
  fixes astep :: "'f \<Rightarrow> 'a \<Rightarrow> 'a option" and abs_ev :: "'e \<Rightarrow> 'f" and abs_st :: "'s \<Rightarrow> 'a"
  assumes step_refines: "inv s \<Longrightarrow> step e s = Some s' \<Longrightarrow> astep (abs_ev e) (abs_st s) = Some (abs_st s')"
begin

lemma run_refines:
  "inv s \<Longrightarrow> run_events step es s = Some s' \<Longrightarrow> run_events astep (map abs_ev es) (abs_st s) = Some (abs_st s')"
proof (induction es arbitrary: s)
  case (Cons e es)
  obtain s1 where s1: "step e s = Some s1" "run_events step es s1 = Some s'" using Cons.prems(2) by (rule run_events_ConsE)
  show ?case using Cons.IH [OF step_inv [OF Cons.prems(1) s1(1)] s1(2)] step_refines [OF Cons.prems(1) s1(1)] by simp
qed simp

end

end
