(* ===== verification/Studio_App.thy ===== *)
theory Studio_App
  imports Studio_Yaml Studio_Defaults Studio_Attachments Event_Systems
begin

text \<open>
  The page of config studio as a component that reacts to events (\<open>tools/config-studio/src/app.template.html\<close>): the
  registry of sections, the sidebar, \<open>render\<close> and \<open>softRender\<close>, the edits of the forms, the YAML pane, the status bar
  with its issues, templates, download and copy. A handler is a sequence of calls, each of which may throw; what was
  done before stays done. The drawing of the forms and of the overview is the parameter \<open>forms\<close>, the message of
  what it throws. \<open>None\<close> is an event that cannot happen, or a step that leaves the model of the document.
\<close>

section \<open>Sections\<close>

record sect =
  skey :: string
  slabel :: string
  sent :: bool

definition sect_of :: "string \<Rightarrow> string \<Rightarrow> sect" where
  "sect_of k l = \<lparr>skey = k, slabel = l, sent = False\<rparr>"

definition ent_of :: "string \<Rightarrow> string \<Rightarrow> sect" where
  "ent_of k l = \<lparr>skey = k, slabel = l, sent = True\<rparr>"

definition GROUPS :: "(string \<times> sect list) list" where
  "GROUPS = [
    (''Overview'', [sect_of ''overview'' ''Overview'', sect_of ''diagrams'' ''Diagrams'']),
    (''Traffic'', [ent_of ''listeners'' ''Listeners'', ent_of ''routes'' ''Routes'', ent_of ''services'' ''Services'', ent_of ''upstreams'' ''Upstreams'']),
    (''Identities'', [ent_of ''consumers'' ''Consumers'', sect_of ''jwt_providers'' ''JWT Providers'', sect_of ''oidc_providers'' ''OIDC Providers'',
      sect_of ''hmac_auth'' ''HMAC Auth'', sect_of ''mtls_consumer_mapping'' ''mTLS Mapping'']),
    (''Policy & Security'', [ent_of ''policies'' ''Policies'', sect_of ''authorization'' ''Authorization'', sect_of ''global_policies'' ''Global Policies'',
      sect_of ''trusted_proxies'' ''Trusted Proxies'', sect_of ''ssrf_filter'' ''SSRF Filter'', sect_of ''geoip'' ''GeoIP'']),
    (''AI Gateway'', [sect_of ''ai'' ''AI'']),
    (''Observability'', [sect_of ''analytics'' ''Analytics'', sect_of ''analytics_stream'' ''Analytics Stream'', sect_of ''webhooks'' ''Webhooks'']),
    (''Administration'', [sect_of ''admin'' ''Admin API'', sect_of ''license'' ''License'']),
    (''Extensions'', [sect_of ''plugins'' ''Plugins'', sect_of ''mesh'' ''Service Mesh'', sect_of ''fleet'' ''Fleet'',
      sect_of ''config_convergence'' ''Config Convergence'']),
    (''Platform'', [sect_of ''admission_queue'' ''Admission Queue'', sect_of ''redis_rate_limiter'' ''Redis Rate Limiter'',
      sect_of ''redis_quotas'' ''Redis Quotas'', sect_of ''lifecycle'' ''Lifecycle & Profiles'', sect_of ''load_shed_dry_run'' ''Load Shed Dry-Run'',
      sect_of ''max_concurrent_requests'' ''Max Concurrent'', sect_of ''allow_empty_routes'' ''Allow Empty Routes'',
      sect_of ''mtls_forward_headers'' ''mTLS Forward Headers''])]"

definition SECTION_BY_KEY :: "string \<Rightarrow> sect option" where
  "SECTION_BY_KEY k = List.find (\<lambda>x. skey x = k) (concat (map snd GROUPS))"

section \<open>The page\<close>

text \<open>What the sidebar shows; a count comes with its warning mark.\<close>

datatype side_item = Group string | SecBtn string bool string "(bool \<times> string) option" | EntBtn string nat bool string | AddBtn string

text \<open>
  \<open>secKey\<close>, \<open>diagramKey\<close> and \<open>selIdx\<close> of the page are \<open>sel\<close>. \<open>formRoot\<close> is the path of the form that is drawn, \<open>formEnt\<close> the section
  of the remove button above it, \<open>drawnDiag\<close> the diagram on the page. \<open>shownYaml\<close> and \<open>editYaml\<close> are the pane and its text area,
  \<open>flashes\<close> the texts that running timers of \<open>flashStatus\<close> will put back (all take as long, so the oldest ends first), \<open>copying\<close> the
  number of clipboard writes that are not answered, \<open>listed\<close> the issues in the panel, \<open>downloads\<close> the files that were handed out.
\<close>

record app =
  pg :: page
  secKey :: string
  diagramKey :: string
  formRoot :: "key list option"
  formEnt :: "string option"
  drawnDiag :: "diag option"
  diagZoom :: rat
  shownSidebar :: "side_item list"
  shownYaml :: string
  editYaml :: string
  footText :: string
  statusText :: string
  barClass :: string
  flashes :: "string list"
  copying :: nat
  issuesOpen :: bool
  listed :: "report list"
  tplOpen :: bool
  helpOpen :: bool
  downloads :: "string list"

abbreviation app_doc :: "app \<Rightarrow> jv" where
  "app_doc s \<equiv> sdoc (work (pg s))"

record app_env =
  senv :: studio_env
  forms :: "app \<Rightarrow> string option"
  load_yaml :: "string \<Rightarrow> string + jv"
  type_err :: string
  has_mermaid :: bool
  has_clipboard :: bool

section \<open>Sequences of calls\<close>

text \<open>A call yields the state with the message of what it threw, if it threw.\<close>

type_synonym act = "app \<Rightarrow> (app \<times> string option) option"

definition quietly :: "(app \<Rightarrow> app) \<Rightarrow> act" where
  "quietly f s = Some (f s, None)"

fun run_acts :: "act list \<Rightarrow> act" where
  "run_acts [] s = Some (s, None)"
| "run_acts (a # r) s = (case a s of None \<Rightarrow> None | Some (s', Some m) \<Rightarrow> Some (s', Some m) | Some (s', None) \<Rightarrow> run_acts r s')"

definition on_pg :: "(page \<Rightarrow> page) \<Rightarrow> app \<Rightarrow> app" where
  "on_pg f s = s\<lparr>pg := f (pg s)\<rparr>"

definition on_doc :: "app_env \<Rightarrow> (studio \<Rightarrow> studio res) \<Rightarrow> act" where
  "on_doc E f s = (case f (work (pg s)) of Ok w \<Rightarrow> Some (on_pg (\<lambda>p. p\<lparr>work := w\<rparr>) s, None)
     | Throw \<Rightarrow> Some (s, Some (type_err E)) | Outside \<Rightarrow> None)"

section \<open>Sidebar\<close>

text \<open>The title of an entity. \<open>mp\<close> is the path of a route, as a text or as an object.\<close>

definition entityTitle :: "string \<Rightarrow> jv \<Rightarrow> nat \<Rightarrow> string" where
  "entityTitle k v i = (let item = ''item '' @ nat_str (i + 1); mp = sub (sub v ''match'') ''path'' in
     if truthy v \<and> js_typeof v = ''object'' then
       (if js_typeof (sub v ''name'') = ''string'' \<and> truthy (sub v ''name'') then js_string (sub v ''name'')
        else if k = ''routes'' \<and> truthy (sub v ''match'') \<and> truthy mp then
          (if js_typeof mp = ''string'' then js_string mp else js_string (js_or (sub mp ''value'') (JStr ''?'')))
        else item)
     else item)"

definition errors_below :: "string \<Rightarrow> report list \<Rightarrow> nat" where
  "errors_below k xs = length (filter (\<lambda>x. (case ipath x of [] \<Rightarrow> False | p # _ \<Rightarrow> p = KName k) \<and> severity x = Error) xs)"

text \<open>The buttons of one section, and whether \<open>forEach\<close> was reached and found a list.\<close>

definition side_section :: "jv \<Rightarrow> report list \<Rightarrow> string \<Rightarrow> int \<Rightarrow> sect \<Rightarrow> side_item list \<times> bool" where
  "side_section doc xs cur idx x = (let k = skey x; e = errors_below k xs; v = sub doc k; btn = SecBtn k (cur = k) (slabel x) in
     if nullish doc then ([], False)
     else if sent x then
       (let n = sub (js_or v (JArr [])) ''length'';
            b = btn (Some (e \<noteq> 0, if e \<noteq> 0 then nat_str e else if truthy n then js_string n else ''0'')) in
        case list_or v of None \<Rightarrow> ([b], False)
        | Some vs \<Rightarrow> (b # map (\<lambda>i. EntBtn k i (cur = k \<and> idx = int i) (entityTitle k (vs ! i) i)) [0 ..< length vs] @ [AddBtn k], True))
     else ([btn (if v \<noteq> JUndef then Some (False, ''set'') else if e \<noteq> 0 then Some (True, nat_str e) else None)], True))"

fun side_run :: "(side_item list \<times> bool) list \<Rightarrow> side_item list \<times> bool" where
  "side_run [] = ([], True)"
| "side_run ((ys, ok) # xs) = (if ok then (case side_run xs of (zs, ok') \<Rightarrow> (ys @ zs, ok')) else (ys, False))"

definition side_items :: "jv \<Rightarrow> report list \<Rightarrow> string \<Rightarrow> int \<Rightarrow> side_item list \<times> bool" where
  "side_items doc xs cur idx = side_run (concat (map (\<lambda>(l, ss). ([Group l], True) # map (side_section doc xs cur idx) ss) GROUPS))"

section \<open>Drawing\<close>

definition bar_class :: "report list \<Rightarrow> string" where
  "bar_class xs = (let e = count Error xs; w = length xs - e in if e \<noteq> 0 then ''err'' else if w \<noteq> 0 then ''warn'' else [])"

definition draw_status :: "app_env \<Rightarrow> act" where
  "draw_status E s = Some (case renderStatus (senv E) (pg s) of None \<Rightarrow> (s, Some (type_err E))
     | Some p \<Rightarrow> (s\<lparr>pg := p, statusText := status_text (lastIssues p), barClass := bar_class (lastIssues p)\<rparr>, None))"

definition draw_sidebar :: "app_env \<Rightarrow> act" where
  "draw_sidebar E s = (case side_items (app_doc s) (lastIssues (pg s)) (secKey s) (selIdx (pg s)) of
     (xs, ok) \<Rightarrow> Some (s\<lparr>shownSidebar := xs\<rparr>, if ok then None else Some (type_err E)))"

definition diagram_of :: "string \<Rightarrow> jv \<Rightarrow> (string + diag) option" where
  "diagram_of k doc = (if k = ''policy-attachments'' then genPolicyAttachments doc
     else if k = ''consumer-auth'' then genConsumerAuth doc
     else if k = ''ai-gateway'' then genAiGateway doc else genRequestFlow doc)"

definition draw_diagram :: "app_env \<Rightarrow> act" where
  "draw_diagram E s = Some (if \<not> has_mermaid E then (s, None)
     else case diagram_of (diagramKey s) (app_doc s) of None \<Rightarrow> (s, Some (type_err E))
     | Some (Inl msg) \<Rightarrow> (s, None) | Some (Inr d) \<Rightarrow> (s\<lparr>drawnDiag := Some d\<rparr>, None))"

definition prop_of :: "app_env \<Rightarrow> string \<Rightarrow> schema option" where
  "prop_of E k = map_of (prop_list (schema_root (senv E))) k"

text \<open>The form at a path; when drawing it throws, nothing of it is on the page.\<close>

definition draw_form :: "app_env \<Rightarrow> key list \<Rightarrow> act" where
  "draw_form E p s = Some (case forms E s of None \<Rightarrow> (s\<lparr>formRoot := Some p\<rparr>, None) | Some m \<Rightarrow> (s, Some m))"

text \<open>The entity that is shown: the selected one, or the first when the selection is not in the list.\<close>

definition shown_idx :: "jv list \<Rightarrow> int \<Rightarrow> int" where
  "shown_idx vs i = (if i < 0 \<or> i \<ge> int (length vs) then 0 else i)"

definition draw_entity :: "app_env \<Rightarrow> string \<Rightarrow> act" where
  "draw_entity E k s = (if nullish (app_doc s) then Some (s, Some (type_err E))
     else case js_or (sub (app_doc s) k) (JArr []) of
       JArr [] \<Rightarrow> Some (s, None)
     | JArr vs \<Rightarrow> (let i = shown_idx vs (selIdx (pg s)) in
         draw_form E [KName k, KIdx (nat i)] (on_pg (\<lambda>p. p\<lparr>selIdx := i\<rparr>) (s\<lparr>formEnt := Some k\<rparr>)))
     | v \<Rightarrow> if truthy (sub v ''length'') then None else Some (s, None))"

definition draw_main :: "app_env \<Rightarrow> act" where
  "draw_main E s0 = (let s = s0\<lparr>formRoot := None, formEnt := None, drawnDiag := None\<rparr>; k = secKey s in
     if k = ''overview'' then Some (s, forms E s)
     else if k = ''diagrams'' then draw_diagram E s
     else if prop_of E k = None then Some (s, None)
     else (case SECTION_BY_KEY k of None \<Rightarrow> None
       | Some x \<Rightarrow> if sent x then draw_entity E k s else draw_form E [KName k] s))"

definition foot_text :: "jv \<Rightarrow> string \<Rightarrow> string" where
  "foot_text doc t = (case object_keys doc of Some (k # ks) \<Rightarrow>
       nat_str (Suc (length ks)) @ '' top-level block(s) - '' @ nat_str (length (split_on (CHR 0x0A) t)) @ '' lines''
     | _ \<Rightarrow> ''empty'')"

definition unapplied_note :: string where
  "unapplied_note = ''unapplied edits in this pane - click '' @ [CHR 0x22] @ ''Apply to builder'' @ [CHR 0x22] @ '' to keep them, or Done to discard''"

definition draw_yaml :: "app_env \<Rightarrow> bool \<Rightarrow> act" where
  "draw_yaml E force s = Some (if yamlDirty (pg s) \<and> \<not> force then (s\<lparr>footText := unapplied_note\<rparr>, None)
     else case docToYaml (app_doc s) of None \<Rightarrow> (s, Some (type_err E))
     | Some t \<Rightarrow> (on_pg (\<lambda>p. p\<lparr>yamlDirty := False\<rparr>) (s\<lparr>shownYaml := t, editYaml := t, footText := foot_text (app_doc s) t\<rparr>), None))"

definition render_app :: "app_env \<Rightarrow> act" where
  "render_app E = run_acts [draw_status E, draw_sidebar E, draw_main E, draw_yaml E True]"

definition softRender :: "app_env \<Rightarrow> act" where
  "softRender E = run_acts [draw_status E, draw_sidebar E, draw_yaml E False]"

section \<open>Edits of the forms\<close>

text \<open>The reassigned \<open>setPath\<close> and \<open>delPath\<close>.\<close>

definition put_w :: "app_env \<Rightarrow> key list \<Rightarrow> jv \<Rightarrow> act" where
  "put_w E p v = run_acts [on_doc E (setPath p v), softRender E]"

definition del_w :: "app_env \<Rightarrow> key list \<Rightarrow> act" where
  "del_w E p = run_acts [on_doc E (delPath p), softRender E]"

datatype edit = Put "key list" jv | Del "key list"

fun edit_path :: "edit \<Rightarrow> key list" where
  "edit_path (Put p v) = p"
| "edit_path (Del p) = p"

fun edit_w :: "app_env \<Rightarrow> edit \<Rightarrow> act" where
  "edit_w E (Put p v) = put_w E p v"
| "edit_w E (Del p) = del_w E p"

text \<open>\<open>rest.length === 0\<close> and \<open>Object.keys(m).length === 0\<close> for what is left at a path.\<close>

definition del_if :: "app_env \<Rightarrow> (jv \<Rightarrow> bool option) \<Rightarrow> key list \<Rightarrow> act" where
  "del_if E gone p s = (let v = getPath p (app_doc s) in
     if v = JUndef then Some (s, None)
     else case gone v of None \<Rightarrow> Some (s, Some (type_err E)) | Some b \<Rightarrow> if b then del_w E p s else Some (s, None))"

definition no_length :: "jv \<Rightarrow> bool option" where
  "no_length v = map_option (\<lambda>n. n = jint 0) (js_get v ''length'')"

definition no_keys :: "jv \<Rightarrow> bool option" where
  "no_keys v = map_option (\<lambda>ks. ks = []) (object_keys v)"

definition remove_w :: "app_env \<Rightarrow> key list \<Rightarrow> nat \<Rightarrow> act" where
  "remove_w E p i = run_acts [del_w E (p @ [KIdx i]), del_if E no_length p]"

definition remove_key_w :: "app_env \<Rightarrow> key list \<Rightarrow> string \<Rightarrow> act" where
  "remove_key_w E p k = run_acts [del_w E (p @ [KName k]), del_if E no_keys p]"

definition rename_w :: "app_env \<Rightarrow> key list \<Rightarrow> string \<Rightarrow> string \<Rightarrow> act" where
  "rename_w E p k k' s = (if k' = [] \<or> k' = k then Some (s, None)
     else run_acts [del_w E (p @ [KName k]), put_w E (p @ [KName k']) (getPath (p @ [KName k]) (app_doc s)), render_app E] s)"

text \<open>\<open>moveItem\<close> calls \<open>persist\<close> and \<open>render\<close> itself; it does neither when there is nothing to swap.\<close>

definition can_move :: "jv \<Rightarrow> nat \<Rightarrow> int \<Rightarrow> bool" where
  "can_move v i dir = (case v of JArr vs \<Rightarrow> 0 \<le> int i + dir \<and> int i + dir < int (length vs) | _ \<Rightarrow> False)"

definition move_w :: "app_env \<Rightarrow> key list \<Rightarrow> nat \<Rightarrow> int \<Rightarrow> act" where
  "move_w E p i dir s = run_acts (on_doc E (moveItem p i dir) # (if can_move (getPath p (app_doc s)) i dir then [render_app E] else [])) s"

text \<open>
  What a form can do: a leaf editor writes or deletes (several times in the editor of the fields that are not in the schema),
  a structural edit calls \<open>render\<close> after that.
\<close>

datatype form_act = Leaf "edit list" | Block edit | RemoveItem "key list" nat | RemoveKey "key list" string
  | RenameKey "key list" string string | MoveItem "key list" nat int

fun act_paths :: "form_act \<Rightarrow> key list list" where
  "act_paths (Leaf es) = map edit_path es"
| "act_paths (Block e) = [edit_path e]"
| "act_paths (RemoveItem p i) = [p]"
| "act_paths (RemoveKey p k) = [p]"
| "act_paths (RenameKey p k k') = [p]"
| "act_paths (MoveItem p i d) = [p]"

fun form_w :: "app_env \<Rightarrow> form_act \<Rightarrow> act" where
  "form_w E (Leaf es) = run_acts (map (edit_w E) es)"
| "form_w E (Block e) = run_acts [edit_w E e, render_app E]"
| "form_w E (RemoveItem p i) = run_acts [remove_w E p i, render_app E]"
| "form_w E (RemoveKey p k) = run_acts [remove_key_w E p k, render_app E]"
| "form_w E (RenameKey p k k') = rename_w E p k k'"
| "form_w E (MoveItem p i d) = move_w E p i d"

text \<open>The paths of a form begin with the path it was drawn for, which is never empty.\<close>

definition in_form :: "key list option \<Rightarrow> form_act \<Rightarrow> bool" where
  "in_form r a = (case r of Some (k # q) \<Rightarrow> list_all (\<lambda>p. take (Suc (length q)) p = k # q) (act_paths a) | _ \<Rightarrow> False)"

lemma in_form_paths: "in_form r a \<Longrightarrow> p \<in> set (act_paths a) \<Longrightarrow> p \<noteq> []"
  by (auto simp: in_form_def list_all_iff split: option.splits list.splits)

section \<open>Sidebar, navigation and entities\<close>

definition select :: "string \<Rightarrow> int \<Rightarrow> app \<Rightarrow> app" where
  "select k i s = on_pg (\<lambda>p. p\<lparr>selIdx := i\<rparr>) (s\<lparr>secKey := k\<rparr>)"

definition click_section :: "app_env \<Rightarrow> string \<Rightarrow> int \<Rightarrow> act" where
  "click_section E k i = run_acts [quietly (select k i), draw_main E, draw_sidebar E]"

text \<open>The starter value of a new entity: from the items of the section's schema.\<close>

definition entity_schema :: "app_env \<Rightarrow> string \<Rightarrow> schema option option" where
  "entity_schema E k = (case prop_of E k of None \<Rightarrow> Some None
     | Some x \<Rightarrow> map_option items_of (coreOf (depth (senv E)) (sdefs (senv E)) x))"

definition new_entity :: "app_env \<Rightarrow> string \<Rightarrow> jv res option" where
  "new_entity E k = (case entity_schema E k of None \<Rightarrow> None | Some None \<Rightarrow> Some (Ok (JStr []))
     | Some (Some it) \<Rightarrow> defaultValue (depth (senv E)) (sdefs (senv E)) it)"

definition list_len :: "jv \<Rightarrow> nat" where
  "list_len v = (case v of JArr vs \<Rightarrow> length vs | _ \<Rightarrow> 0)"

definition select_last :: "string \<Rightarrow> app \<Rightarrow> app" where
  "select_last k s = select k (int (list_len (sub (app_doc s) k)) - 1) s"

definition add_entity :: "app_env \<Rightarrow> string \<Rightarrow> act" where
  "add_entity E k s = (if props (schema_root (senv E)) = None then Some (s, Some (type_err E))
     else if \<not> listy (sub (app_doc s) k) then None
     else case new_entity E k of None \<Rightarrow> None | Some Outside \<Rightarrow> None | Some Throw \<Rightarrow> Some (s, Some (type_err E))
     | Some (Ok d) \<Rightarrow> run_acts [put_w E [KName k, KIdx (list_len (sub (app_doc s) k))] d, quietly (select_last k), render_app E] s)"

text \<open>The button above an entity, after the confirmation. The section is the one drawn, the position the current one.\<close>

definition clamp_idx :: "string \<Rightarrow> app \<Rightarrow> app" where
  "clamp_idx k s = on_pg (\<lambda>p. p\<lparr>selIdx := min (selIdx p) (int (list_len (sub (app_doc s) k)) - 1)\<rparr>) s"

definition remove_entity :: "app_env \<Rightarrow> string \<Rightarrow> act" where
  "remove_entity E k s = (if selIdx (pg s) < 0 then None
     else run_acts [remove_w E [KName k] (nat (selIdx (pg s))), quietly (clamp_idx k), render_app E] s)"

text \<open>\<open>SECTION_BY_KEY\<close> is an object: it also has what every object inherits.\<close>

definition go_to :: "app_env \<Rightarrow> string \<Rightarrow> int \<Rightarrow> act" where
  "go_to E k i = run_acts [quietly (select k i), render_app E]"

definition navigateTo :: "app_env \<Rightarrow> key list \<Rightarrow> act" where
  "navigateTo E p = (case p of [] \<Rightarrow> go_to E ''overview'' (- 1)
     | k # r \<Rightarrow> if key_str k \<in> set object_proto then (\<lambda>s. None)
         else if SECTION_BY_KEY (key_str k) = None then go_to E ''overview'' (- 1)
         else go_to E (key_str k) (case r of KIdx i # _ \<Rightarrow> int i | _ \<Rightarrow> - 1))"

section \<open>Issues panel, YAML pane and templates\<close>

definition toggleIssues :: "app \<Rightarrow> app" where
  "toggleIssues s = (if issuesOpen s then s\<lparr>issuesOpen := False\<rparr> else s\<lparr>issuesOpen := True, listed := lastIssues (pg s)\<rparr>)"

text \<open>The path of an issue as the panel writes it: a part that equals the first one goes without a dot.\<close>

definition part_text :: "key \<Rightarrow> key \<Rightarrow> string" where
  "part_text k0 k = (case k of KIdx i \<Rightarrow> ''['' @ nat_str (i + 1) @ '']'' | KName n \<Rightarrow> if k = k0 then n else ''.'' @ n)"

definition path_text :: "key list \<Rightarrow> string" where
  "path_text p = (case p of [] \<Rightarrow> ''(top level)'' | k # _ \<Rightarrow> concat (map (part_text k) p))"

definition enterYamlEdit :: "app \<Rightarrow> app" where
  "enterYamlEdit = on_pg (\<lambda>p. p\<lparr>editing := True\<rparr>)"

definition set_dirty :: "bool \<Rightarrow> app \<Rightarrow> app" where
  "set_dirty b = on_pg (\<lambda>p. p\<lparr>yamlDirty := b\<rparr>)"

definition exitYamlEdit :: "app_env \<Rightarrow> bool \<Rightarrow> act" where
  "exitYamlEdit E applied = run_acts [quietly (on_pg (\<lambda>p. p\<lparr>editing := False\<rparr>)),
     quietly (if applied then set_dirty False else id), draw_yaml E True]"

definition replace_doc :: "jv \<Rightarrow> app \<Rightarrow> app" where
  "replace_doc d = on_pg (\<lambda>p. p\<lparr>work := persist ((work p)\<lparr>sdoc := d\<rparr>)\<rparr>)"

definition apply_doc :: "app_env \<Rightarrow> jv \<Rightarrow> act" where
  "apply_doc E d = run_acts [quietly (replace_doc d), quietly (on_pg (\<lambda>p. p\<lparr>selIdx := - 1, yamlDirty := False\<rparr>)),
     render_app E, exitYamlEdit E True]"

definition apply_yaml :: "app_env \<Rightarrow> act" where
  "apply_yaml E s = (case load_yaml E (editYaml s) of
       Inl e \<Rightarrow> Some (on_pg (alert (''YAML parse error:'' @ nl @ e)) s, None)
     | Inr v \<Rightarrow> (let d = (if nullish v then JObj [] else v) in
         if js_typeof d \<noteq> ''object'' \<or> is_array d then Some (on_pg (alert ''Top level must be a YAML mapping.'') s, None)
         else case apply_doc E d s of None \<Rightarrow> None
           | Some (s', None) \<Rightarrow> Some (s', None)
           | Some (s', Some e) \<Rightarrow> Some (on_pg (alert (''YAML parse error:'' @ nl @ e)) s', None)))"

definition select_start :: "app \<Rightarrow> app" where
  "select_start s = select ''overview'' (- 1) (s\<lparr>diagramKey := ''request-flow''\<rparr>)"

definition open_templates :: "app \<Rightarrow> app" where
  "open_templates s = s\<lparr>tplOpen := True\<rparr>"

definition close_templates :: "app \<Rightarrow> app" where
  "close_templates s = s\<lparr>tplOpen := False\<rparr>"

definition pick_template :: "app_env \<Rightarrow> jv \<Rightarrow> act" where
  "pick_template E d = run_acts [quietly (replace_doc d), quietly select_start, render_app E, quietly close_templates]"

definition clear_draft :: "app_env \<Rightarrow> act" where
  "clear_draft E = run_acts [quietly (replace_doc (JObj [])), quietly select_start, render_app E, quietly open_templates]"

section \<open>Download, copy and the flashing status\<close>

definition download_yaml :: "app_env \<Rightarrow> act" where
  "download_yaml E s = Some (case docToYaml (app_doc s) of None \<Rightarrow> (s, Some (type_err E))
     | Some t \<Rightarrow> (s\<lparr>downloads := downloads s @ [t]\<rparr>, None))"

definition flashStatus :: "string \<Rightarrow> app \<Rightarrow> app" where
  "flashStatus m s = s\<lparr>flashes := flashes s @ [statusText s], statusText := m\<rparr>"

definition copied_note :: string where
  "copied_note = ''copied dwara.yaml to clipboard''"

text \<open>\<open>fallbackCopy\<close>: only an exception of \<open>execCommand\<close> counts as a failure.\<close>

definition fallbackCopy :: "bool \<Rightarrow> app \<Rightarrow> app" where
  "fallbackCopy thrown = (if thrown then on_pg (alert ''copy failed - use Download instead'') else flashStatus copied_note)"

definition copy_yaml :: "app_env \<Rightarrow> bool \<Rightarrow> act" where
  "copy_yaml E thrown s = Some (if docToYaml (app_doc s) = None then (s, Some (type_err E))
     else if has_clipboard E then (s\<lparr>copying := Suc (copying s)\<rparr>, None) else (fallbackCopy thrown s, None))"

text \<open>The answer of the clipboard.\<close>

definition copy_answer :: "bool \<Rightarrow> bool \<Rightarrow> app \<Rightarrow> app" where
  "copy_answer ok thrown s = (if ok then flashStatus copied_note else fallbackCopy thrown) (s\<lparr>copying := copying s - 1\<rparr>)"

text \<open>The copy buttons of the overview and of a diagram: the answer of the clipboard is not awaited.\<close>

definition copy_other :: "app_env \<Rightarrow> string \<Rightarrow> bool \<Rightarrow> app \<Rightarrow> app" where
  "copy_other E m thrown s = flashStatus m (if has_clipboard E then s else fallbackCopy thrown s)"

definition flash_end :: "app \<Rightarrow> app option" where
  "flash_end s = (case flashes s of [] \<Rightarrow> None | t # ts' \<Rightarrow> Some (s\<lparr>flashes := ts', statusText := t\<rparr>))"

text \<open>The timer of \<open>persist\<close>; a full storage makes \<open>setItem\<close> throw, which is swallowed.\<close>

definition save_timer :: "bool \<Rightarrow> app \<Rightarrow> app" where
  "save_timer ok = on_pg (\<lambda>p. p\<lparr>work := (if ok then save_now (work p) else (work p)\<lparr>saveDue := False\<rparr>)\<rparr>)"

definition zoom_out :: "rat \<Rightarrow> rat" where
  "zoom_out z = max (1 / 4) (z - 1 / 10)"

definition zoom_in :: "rat \<Rightarrow> rat" where
  "zoom_in z = min 4 (z + 1 / 10)"

section \<open>Templates\<close>

definition jtext :: "string \<Rightarrow> string \<Rightarrow> string \<times> jv" where
  "jtext k t = (k, JStr t)"

definition jobjs :: "string \<Rightarrow> (string \<times> jv) list list \<Rightarrow> string \<times> jv" where
  "jobjs k os = (k, JArr (map JObj os))"

definition tpl_listener :: "string \<Rightarrow> int \<Rightarrow> (string \<times> jv) list" where
  "tpl_listener n port = [jtext ''name'' n, jtext ''address'' ''0.0.0.0'', (''port'', jint port)]"

definition tpl_match :: "string \<Rightarrow> string \<Rightarrow> string \<times> jv" where
  "tpl_match t v = (''match'', JObj [(''path'', JObj [jtext ''type'' t, jtext ''value'' v])])"

definition tpl_action :: "string \<Rightarrow> string \<times> jv" where
  "tpl_action t = (''action'', JObj [jtext ''type'' t])"

definition tpl_route :: "(string \<times> jv) list" where
  "tpl_route = [jtext ''name'' ''default'', jtext ''service'' ''api'', tpl_match ''regex'' ''/.*'', tpl_action ''proxy'']"

definition tpl_backend :: "(string \<times> jv) list" where
  "tpl_backend = [jobjs ''services'' [[jtext ''name'' ''api'', jtext ''upstream'' ''app'']],
     jobjs ''upstreams'' [[jtext ''name'' ''app'', jobjs ''endpoints'' [[jtext ''address'' ''127.0.0.1'', (''port'', jint 9000)]]]]]"

definition TEMPLATES :: "(string \<times> jv) list" where
  "TEMPLATES = [
    (''Blank'', JObj []),
    (''Reverse proxy'', JObj ([jobjs ''listeners'' [tpl_listener ''edge-http'' 8080], jobjs ''routes'' [tpl_route]] @ tpl_backend)),
    (''API with key auth + rate limit'', JObj ([jobjs ''listeners'' [tpl_listener ''edge-http'' 8080],
       jobjs ''routes'' [[jtext ''name'' ''api-route'', jtext ''service'' ''api'', tpl_match ''prefix'' ''/v1'', tpl_action ''proxy'',
         (''auth_required'', JBool True), (''policies'', JArr [JStr ''standard-rl''])]]] @ tpl_backend @
      [jobjs ''consumers'' [[jtext ''name'' ''demo-client'',
         jobjs ''credentials'' [[jtext ''type'' ''api_key'', jtext ''key'' ''replace-with-a-real-api-key'']]]],
       jobjs ''policies'' [[jtext ''name'' ''standard-rl'', (''rate_limit'', JObj [(''requests'', jint 100), (''window_seconds'', jint 60)])]]])),
    (''TLS edge'', JObj ([jobjs ''listeners'' [tpl_listener ''edge-https'' 8443 @ [jtext ''protocol'' ''https'',
         (''tls'', JObj [jtext ''mode'' ''terminate'', jtext ''cert_file'' ''/etc/dwara/certs/server.crt'', jtext ''key_file'' ''/etc/dwara/certs/server.key''])]],
       jobjs ''routes'' [tpl_route]] @ tpl_backend)),
    (''AI gateway'', JObj [jobjs ''listeners'' [tpl_listener ''edge-http'' 8080],
       jobjs ''routes'' [[jtext ''name'' ''ai-chat'', jtext ''service'' ''openai-api'', tpl_match ''exact'' ''/v1/chat/completions'', tpl_action ''ai'']],
       jobjs ''services'' [[jtext ''name'' ''openai-api'', jtext ''upstream'' ''openai-api'']],
       jobjs ''upstreams'' [[jtext ''name'' ''openai-api'', jtext ''protocol'' ''https'',
         jobjs ''endpoints'' [[jtext ''address'' ''api.openai.com'', (''port'', jint 443)]]]],
       (''ai'', JObj [jobjs ''providers'' [[jtext ''name'' ''openai'', jtext ''kind'' ''openai'', jtext ''upstream'' ''openai-api'',
           (''auth'', JObj [jtext ''header'' ''Authorization'', jtext ''value'' ''Bearer ${OPENAI_API_KEY}''])]],
         (''models'', JObj [(''gpt-4o'', JObj [jtext ''provider'' ''openai'', jtext ''provider_model'' ''gpt-4o''])])])])]"

section \<open>Events\<close>

datatype app_event = Form form_act | ClickSection string | ClickEntity string nat | AddEntity string | RemoveEntity bool
  | PickDiagram string | ClickNode string | ZoomOut | ZoomIn | ZoomReset
  | ToggleIssues | ClickIssue nat | EditYaml | TypeYaml string | ApplyYaml | DoneYaml | RefreshYaml
  | Download bool | Copy bool | CopyAnswer bool bool | CopyOther string bool | FlashEnd | SaveTimer bool
  | OpenTemplates | CloseTemplates | PickTemplate nat | Clear bool | OpenHelp | CloseHelp | Escape

text \<open>The handler of an event, where the page offers the event.\<close>

definition diag_keys :: "string list" where
  "diag_keys = [''request-flow'', ''policy-attachments'', ''consumer-auth'', ''ai-gateway'']"

definition offered :: "bool \<Rightarrow> act \<Rightarrow> act" where
  "offered b a s = (if b then a s else None)"

fun app_handler :: "app_env \<Rightarrow> app_event \<Rightarrow> act" where
  "app_handler E (Form a) s = offered (in_form (formRoot s) a) (form_w E a) s"
| "app_handler E (ClickSection k) s = offered (\<exists>x \<in> set (shownSidebar s). case x of SecBtn k' _ _ _ \<Rightarrow> k' = k | _ \<Rightarrow> False) (click_section E k (- 1)) s"
| "app_handler E (ClickEntity k i) s = offered (\<exists>x \<in> set (shownSidebar s). case x of EntBtn k' j _ _ \<Rightarrow> k' = k \<and> j = i | _ \<Rightarrow> False) (click_section E k (int i)) s"
| "app_handler E (AddEntity k) s = offered (AddBtn k \<in> set (shownSidebar s)) (add_entity E k) s"
| "app_handler E (RemoveEntity yes) s = (case formEnt s of None \<Rightarrow> None | Some k \<Rightarrow> if yes then remove_entity E k s else Some (s, None))"
| "app_handler E (PickDiagram k) s = offered (secKey s = ''diagrams'' \<and> k \<in> set diag_keys) (run_acts [quietly (\<lambda>s. s\<lparr>diagramKey := k\<rparr>), draw_main E]) s"
| "app_handler E (ClickNode n) s = (case drawnDiag s of None \<Rightarrow> None | Some d \<Rightarrow>
     (case click_target d n of None \<Rightarrow> Some (s, None) | Some p \<Rightarrow> navigateTo E p s))"
| "app_handler E ZoomOut s = offered (drawnDiag s \<noteq> None) (quietly (\<lambda>s. s\<lparr>diagZoom := zoom_out (diagZoom s)\<rparr>)) s"
| "app_handler E ZoomIn s = offered (drawnDiag s \<noteq> None) (quietly (\<lambda>s. s\<lparr>diagZoom := zoom_in (diagZoom s)\<rparr>)) s"
| "app_handler E ZoomReset s = offered (drawnDiag s \<noteq> None) (quietly (\<lambda>s. s\<lparr>diagZoom := 1\<rparr>)) s"
| "app_handler E ToggleIssues s = quietly toggleIssues s"
| "app_handler E (ClickIssue n) s = offered (issuesOpen s \<and> n < length (listed s))
     (run_acts [quietly (\<lambda>s. s\<lparr>issuesOpen := False\<rparr>), navigateTo E (ipath (listed s ! n))]) s"
| "app_handler E EditYaml s = offered (\<not> editing (pg s)) (quietly enterYamlEdit) s"
| "app_handler E (TypeYaml t) s = offered (editing (pg s)) (quietly (\<lambda>s. set_dirty True (s\<lparr>editYaml := t\<rparr>))) s"
| "app_handler E ApplyYaml s = offered (editing (pg s)) (apply_yaml E) s"
| "app_handler E DoneYaml s = offered (editing (pg s)) (run_acts [quietly (set_dirty True), exitYamlEdit E False]) s"
| "app_handler E RefreshYaml s = run_acts [quietly (set_dirty False), draw_yaml E True] s"
| "app_handler E (Download yes) s = (if count Error (lastIssues (pg s)) \<noteq> 0 \<and> \<not> yes then Some (s, None) else download_yaml E s)"
| "app_handler E (Copy thrown) s = copy_yaml E thrown s"
| "app_handler E (CopyAnswer ok thrown) s = offered (copying s \<noteq> 0) (quietly (copy_answer ok thrown)) s"
| "app_handler E (CopyOther m thrown) s = offered (secKey s \<in> {''overview'', ''diagrams''}) (quietly (copy_other E m thrown)) s"
| "app_handler E FlashEnd s = map_option (\<lambda>s'. (s', None)) (flash_end s)"
| "app_handler E (SaveTimer ok) s = offered (saveDue (work (pg s))) (quietly (save_timer ok)) s"
| "app_handler E OpenTemplates s = quietly open_templates s"
| "app_handler E CloseTemplates s = quietly close_templates s"
| "app_handler E (PickTemplate n) s = offered (tplOpen s \<and> n < length TEMPLATES) (pick_template E (snd (TEMPLATES ! n))) s"
| "app_handler E (Clear yes) s = (if yes then clear_draft E s else Some (s, None))"
| "app_handler E OpenHelp s = quietly (\<lambda>s. s\<lparr>helpOpen := True\<rparr>) s"
| "app_handler E CloseHelp s = quietly (\<lambda>s. s\<lparr>helpOpen := False\<rparr>) s"
| "app_handler E Escape s = quietly (\<lambda>s. s\<lparr>issuesOpen := False, helpOpen := False, tplOpen := False\<rparr>) s"

text \<open>An exception that reaches the event loop is logged; the state stays as the handler left it.\<close>

definition app_step :: "app_env \<Rightarrow> app_event \<Rightarrow> app \<Rightarrow> app option" where
  "app_step E e s = map_option fst (app_handler E e s)"

definition blank_app :: "string option \<Rightarrow> app" where
  "blank_app saved = \<lparr>pg = boot_studio saved, secKey = ''overview'', diagramKey = ''request-flow'', formRoot = None, formEnt = None,
     drawnDiag = None, diagZoom = 1, shownSidebar = [], shownYaml = [], editYaml = [], footText = [], statusText = ''validating...'',
     barClass = [], flashes = [], copying = 0, issuesOpen = False, listed = [], tplOpen = False, helpOpen = False, downloads = []\<rparr>"

definition first_templates :: "app_env \<Rightarrow> act" where
  "first_templates E s = Some (case object_keys (app_doc s) of None \<Rightarrow> (s, Some (type_err E))
     | Some ks \<Rightarrow> ((if ks = [] then open_templates s else s), None))"

definition boot_app :: "app_env \<Rightarrow> string option \<Rightarrow> app option" where
  "boot_app E saved = map_option fst (run_acts [render_app E, first_templates E] (blank_app saved))"

definition app_run :: "app_env \<Rightarrow> string option \<Rightarrow> app_event list \<Rightarrow> app option" where
  "app_run E saved es = (case boot_app E saved of None \<Rightarrow> None | Some s \<Rightarrow> run_events (app_step E) es s)"

end
