(* ===== verification/Studio_Forms.thy ===== *)
theory Studio_Forms
  imports Studio_App
begin

text \<open>
  The editors of the form fields of config studio (\<open>tools/config-studio/src/app.template.html\<close>): what \<open>fieldEditor\<close>,
  \<open>leafInput\<close>, \<open>objectForm\<close> and \<open>mapEditor\<close> offer for a value, and the edits their listeners make of what the user enters. An
  edit is one of \<open>Studio_App\<close>, where \<open>setPath\<close> and \<open>delPath\<close> draw the page again.
\<close>

section \<open>Numbers\<close>

text \<open>\<open>parseInt(s, 10)\<close>.\<close>

definition parseInt :: "string \<Rightarrow> jnum" where
  "parseInt s0 = (let s = dropWhile is_space s0;
       neg = (s \<noteq> [] \<and> hd s = CHR ''-'');
       r = (if s \<noteq> [] \<and> (hd s = CHR ''-'' \<or> hd s = CHR ''+'') then tl s else s);
       ds = takeWhile is_digit r in
     if ds = [] then NaN else Fin (of_int ((if neg then -1 else 1) * int (nat_of_digits 0 ds))))"

fun is_finite :: "jnum \<Rightarrow> bool" where
  "is_finite (Fin r) = True"
| "is_finite _ = False"

definition num_edit :: "string \<Rightarrow> key list \<Rightarrow> string \<Rightarrow> edit" where
  "num_edit kind path text = (if text = [] then Del path
     else let n = (if kind = ''integer'' then parseInt text else parseFloat text) in
       if is_finite n then Put path (JNum n) else Del path)"

section \<open>Scalars\<close>

definition text_edit :: "key list \<Rightarrow> string \<Rightarrow> edit" where
  "text_edit path text = (if text = [] then Del path else Put path (JStr text))"

definition bool_edit :: "bool \<Rightarrow> key list \<Rightarrow> bool \<Rightarrow> edit" where
  "bool_edit optional path checked = (if checked then Put path (JBool True) else if optional then Del path else Put path (JBool False))"

definition coerceScalar :: "string \<Rightarrow> schema \<Rightarrow> jv" where
  "coerceScalar s c = (if stype_of c = Some (TOne ''integer'') then JNum (parseInt s)
     else if stype_of c = Some (TOne ''number'') then JNum (parseFloat s) else JStr s)"

text \<open>The options of a choice, and the value chosen among them.\<close>

definition choice_options :: "defs \<Rightarrow> schema \<Rightarrow> jv list" where
  "choice_options D c = (case senum c of Some vs \<Rightarrow> vs | None \<Rightarrow> union_values (union_of D c))"

definition choice_edit :: "schema \<Rightarrow> key list \<Rightarrow> string \<Rightarrow> edit" where
  "choice_edit c path chosen = (if chosen = [] then Del path else Put path (coerceScalar chosen c))"

text \<open>The input of an item of a list or of an entry of a map: a select box of the enumeration, or a text field.\<close>

definition leaf_options :: "defs \<Rightarrow> schema \<Rightarrow> jv list option" where
  "leaf_options D c = (if senum c \<noteq> None \<or> kind_of D c = ''choice'' then Some (case senum c of Some vs \<Rightarrow> vs | None \<Rightarrow> []) else None)"

definition leaf_edit :: "defs \<Rightarrow> schema \<Rightarrow> key list \<Rightarrow> string \<Rightarrow> edit" where
  "leaf_edit D c path text = Put path (if leaf_options D c \<noteq> None then coerceScalar text c
     else let t = (if text = [] then ''0'' else text) in
       if stype_of c = Some (TOne ''integer'') then JNum (parseInt t)
       else if stype_of c = Some (TOne ''number'') then JNum (parseFloat t) else JStr text)"

text \<open>The textarea of a field without a type; a text that is no JSON changes nothing.\<close>

definition raw_edit :: "key list \<Rightarrow> string \<Rightarrow> edit list" where
  "raw_edit path text = (case json_parse text of None \<Rightarrow> [] | Some v \<Rightarrow> [Put path v])"

section \<open>References\<close>

definition ref_section :: "string \<Rightarrow> string" where
  "ref_section kind = (if kind = ''service'' then ''services'' else if kind = ''upstream'' then ''upstreams'' else ''policies'')"

text \<open>\<open>refNames(kind)\<close>; empty names are dropped by \<open>filter(Boolean)\<close>.\<close>

definition refNames :: "string \<Rightarrow> jv \<Rightarrow> string list option" where
  "refNames kind doc = map_option (\<lambda>vs. filter (\<lambda>n. n \<noteq> []) (concat (map (\<lambda>e. case entry_name e of None \<Rightarrow> [] | Some n \<Rightarrow> [n]) vs)))
     (list_or (sub doc (ref_section kind)))"

text \<open>The options of the select box for a service or an upstream, with the mark of a name that is not defined.\<close>

definition ref_options :: "string list \<Rightarrow> jv \<Rightarrow> (string \<times> bool) list" where
  "ref_options names v = ([], False) # map (\<lambda>n. (n, False)) names @
     (case v of JStr n \<Rightarrow> if n \<in> set names then [] else [(n, True)] | _ \<Rightarrow> [])"

text \<open>The chips for policies: those defined, with their state, then the names that are attached but not defined.\<close>

definition chip_on :: "jv list \<Rightarrow> string \<Rightarrow> bool" where
  "chip_on vs n = (JStr n \<in> set vs)"

definition dangling_chips :: "string list \<Rightarrow> jv list \<Rightarrow> jv list" where
  "dangling_chips names vs = filter (\<lambda>v. v \<notin> JStr ` set names) vs"

definition toggled :: "string \<Rightarrow> jv list \<Rightarrow> jv list" where
  "toggled n vs = (if JStr n \<in> set vs then remove1 (JStr n) vs else vs @ [JStr n])"

definition chips_edit :: "key list \<Rightarrow> jv list \<Rightarrow> edit" where
  "chips_edit path vs = (if vs = [] then Del path else Put path (JArr vs))"

text \<open>The value is read when the chip is clicked; anything that is no list is outside of the model.\<close>

definition chip_click :: "key list \<Rightarrow> string \<Rightarrow> jv \<Rightarrow> edit option" where
  "chip_click path n doc = map_option (\<lambda>vs. chips_edit path (toggled n vs)) (js_elems (js_or (getPath path doc) (JArr [])))"

section \<open>Objects and maps\<close>

text \<open>\<open>!props[k]\<close>: what every object inherits counts as a property.\<close>

definition has_prop :: "schema \<Rightarrow> string \<Rightarrow> bool" where
  "has_prop c k = (k \<in> fst ` set (prop_list c) \<or> k \<in> set object_proto)"

definition form_fields :: "schema \<Rightarrow> string list" where
  "form_fields c = filter (\<lambda>k. k \<in> set (required_of c)) (map fst (prop_list c)) @ filter (\<lambda>k. k \<notin> set (required_of c)) (map fst (prop_list c))"

definition leftover_keys :: "schema \<Rightarrow> jv \<Rightarrow> string list" where
  "leftover_keys c v = (case object_keys (js_or v (JObj [])) of None \<Rightarrow> [] | Some ks \<Rightarrow> filter (\<lambda>k. \<not> has_prop c k) ks)"

text \<open>
  The textarea of the fields that are not in the schema. The list \<open>left\<close> is the one of the moment when the form was drawn. After the
  fields are deleted, \<open>Object.keys\<close> of null throws, which the listener swallows.
\<close>

definition leftover_edits :: "key list \<Rightarrow> string list \<Rightarrow> string \<Rightarrow> edit list" where
  "leftover_edits path left text = (case json_parse text of None \<Rightarrow> []
     | Some p \<Rightarrow> map (\<lambda>k. Del (path @ [KName k])) left @
         (case object_keys p of None \<Rightarrow> [] | Some ks \<Rightarrow> map (\<lambda>k. Put (path @ [KName k]) (case js_get p k of None \<Rightarrow> JUndef | Some v \<Rightarrow> v)) ks))"

text \<open>Which editor \<open>mapEditor\<close> draws for a value, by the kind of its schema.\<close>

datatype value_editor = UnionForm | ObjectForm | LeafField

definition map_editor :: "string \<Rightarrow> value_editor" where
  "map_editor kind = (if kind = ''union'' then UnionForm else if kind = ''object'' then ObjectForm else LeafField)"

text \<open>Which editor \<open>arrayEditor\<close> draws for an item: a card for structures, with a form for all that is no union.\<close>

definition item_editor :: "string \<Rightarrow> value_editor" where
  "item_editor kind = (if kind = ''union'' then UnionForm else if kind = ''object'' \<or> kind = ''map'' then ObjectForm else LeafField)"

section \<open>Edits of the document\<close>

fun doc_edit :: "edit \<Rightarrow> studio \<Rightarrow> studio res" where
  "doc_edit (Put p v) s = setPath p v s"
| "doc_edit (Del p) s = delPath p s"

fun doc_edits :: "edit list \<Rightarrow> studio \<Rightarrow> studio res" where
  "doc_edits [] s = Ok s"
| "doc_edits (e # es) s = res_bind (doc_edit e s) (doc_edits es)"

section \<open>Laws\<close>

declare num_str.simps(4) [simp del]

lemma takeWhile_digits: "list_all is_digit t \<Longrightarrow> takeWhile is_digit t = t"
  by (induction t) auto

lemma nat_str_head: "nat_str m \<noteq> []" "is_digit (hd (nat_str m))"
  using nat_str_nonempty [of m] nat_str_digits [of m] by (auto intro: bspec)

lemma parseInt_int_str: "parseInt (int_str i) = Fin (of_int i)"
proof -
  have d: "\<not> is_space c" "c \<noteq> CHR ''-''" "c \<noteq> CHR ''+''" if "is_digit c" for c
    using that by (auto simp: is_digit_def is_space_def Let_def)
  have ns: "\<not> is_space (CHR ''-'')" by (simp add: is_space_def)
  have w: "dropWhile is_space (nat_str m) = nat_str m" for m
    using nat_str_head [of m] d(1) by (cases "nat_str m") auto
  have t: "takeWhile is_digit (nat_str m) = nat_str m" for m by (rule takeWhile_digits) (simp add: nat_str_digits list_all_iff)
  show ?thesis
  proof (cases "i < 0")
    case True
    then have s: "int_str i = CHR ''-'' # nat_str (nat (- i))" by (simp add: int_str_def)
    show ?thesis unfolding s using True ns nat_str_head(1) by (simp add: parseInt_def t nat_of_digits_nat_str)
  next
    case False
    then have s: "int_str i = nat_str (nat i)" by (simp add: int_str_def)
    show ?thesis unfolding s using False nat_str_head [of "nat i"] d(2,3) by (auto simp: parseInt_def w t nat_of_digits_nat_str Let_def)
  qed
qed

lemma parseInt_whole: "parseInt t = NaN \<or> (\<exists>i. parseInt t = Fin (of_int i))"
proof -
  have "(if b then NaN else Fin (of_int x)) = NaN \<or> (\<exists>i. (if b then NaN else Fin (of_int x)) = Fin (of_int i))" for b x by auto
  then show ?thesis unfolding parseInt_def Let_def .
qed

lemma int_str_nonempty: "int_str i \<noteq> []"
  by (simp add: int_str_def nat_str_nonempty)

lemma is_finite_iff: "is_finite n \<longleftrightarrow> (\<exists>r. n = Fin r)"
  by (cases n) auto

text \<open>Edits of a member of an object that is there.\<close>

lemma put_member:
  assumes "getPath pre (sdoc s) = JObj kvs" "list_all idx_ok pre" "k \<noteq> ''__proto__''"
  shows "\<exists>s'. setPath (pre @ [KName k]) v s = Ok s' \<and> getPath pre (sdoc s') = JObj (obj_set k v kvs)"
proof -
  obtain d where "set_at (pre @ [KName k]) v (sdoc s) = Ok d" "getPath pre d = JObj (obj_set k v kvs)"
    using set_at_ok [OF assms(1) _ assms(2), of "KName k" v] assms(3) by auto
  then show ?thesis by (auto simp: setPath_def persist_def)
qed

lemma del_member:
  assumes "getPath pre (sdoc s) = JObj kvs" "list_all idx_ok pre"
  shows "\<exists>s'. delPath (pre @ [KName k]) s = Ok s' \<and> getPath pre (sdoc s') = JObj (obj_del k kvs)"
  using delPath_ok [OF assms(1) _ assms(2), of "KName k"] by simp

lemma member_read: "getPath pre d = JObj kvs \<Longrightarrow> getPath (pre @ [KName k]) d = (case map_of kvs k of Some v \<Rightarrow> v | None \<Rightarrow> proto_read [] k)"
  by (simp add: getPath_append nullish_def)

lemma member_gone: "getPath pre d = JObj kvs \<Longrightarrow> map_of kvs k = None \<Longrightarrow> plain (KName k) \<Longrightarrow> getPath (pre @ [KName k]) d = JUndef"
  by (simp add: member_read plain_def proto_read_def)

lemma plain_not_proto: "plain (KName k) \<Longrightarrow> k \<noteq> ''__proto__''"
  by (auto simp: plain_def object_proto_def)

section \<open>Properties\<close>

text \<open>
  A number field writes finite numbers only, whole ones for an integer, and entering the text of a number writes that number;
  anything else deletes the field.
\<close>

theorem number_field_sound:
  "(case num_edit kind path t of Del p \<Rightarrow> p = path
     | Put p v \<Rightarrow> p = path \<and> (\<exists>r. v = JNum (Fin r) \<and> (kind = ''integer'' \<longrightarrow> of_int \<lfloor>r\<rfloor> = r))) \<and>
   num_edit ''integer'' path (int_str i) = Put path (jint i) \<and>
   (decimal r \<longrightarrow> num_edit ''number'' path (num_str (Fin r)) = Put path (JNum (Fin r)))"
proof (intro conjI impI)
  show "case num_edit kind path t of Del p \<Rightarrow> p = path
     | Put p v \<Rightarrow> p = path \<and> (\<exists>r. v = JNum (Fin r) \<and> (kind = ''integer'' \<longrightarrow> of_int \<lfloor>r\<rfloor> = r))"
    using parseInt_whole [of t] by (auto simp: num_edit_def Let_def is_finite_iff)
  show "num_edit ''integer'' path (int_str i) = Put path (jint i)"
    using int_str_nonempty [of i] by (simp add: num_edit_def parseInt_int_str)
  assume d: "decimal r"
  have "num_str (Fin r) \<noteq> []"
  proof
    assume "num_str (Fin r) = []"
    then show False using parseFloat_num_str [OF d] by (simp add: parseFloat_def dec_prefix_def p_digits_def)
  qed
  then show "num_edit ''number'' path (num_str (Fin r)) = Put path (JNum (Fin r))" using d by (simp add: num_edit_def)
qed

theorem number_field_sound_witness:
  "num_edit ''number'' [KName ''availability''] (num_str (Fin (999 / 1000))) = Put [KName ''availability''] (JNum (Fin (999 / 1000)))"
proof -
  have "decimal (999 / 1000)" by code_simp
  then show ?thesis using number_field_sound by blast
qed

text \<open>An exponent that a browser's number field accepts is not read in an integer field; a list item takes what is no number.\<close>

lemma integer_exponent_lost: "num_edit ''integer'' p ''1e3'' = Put p (jint 1)"
  by code_simp

lemma list_item_nan: "leaf_edit [] (with_type ''integer'' empty_schema) p ''abc'' = Put p (JNum NaN)"
  by code_simp

lemma leftover_once:
  assumes "getPath pre (sdoc s) = JObj kvs" and "list_all idx_ok pre" and "json_parse t = Some (JObj [(k, v)])" and "k \<noteq> ''__proto__''"
  shows "\<exists>s'. doc_edits (leftover_edits pre [k0] t) s = Ok s' \<and> getPath pre (sdoc s') = JObj (obj_set k v (obj_del k0 kvs))"
proof -
  obtain s1 where s1: "delPath (pre @ [KName k0]) s = Ok s1" "getPath pre (sdoc s1) = JObj (obj_del k0 kvs)"
    using del_member [OF assms(1,2)] by blast
  obtain s2 where s2: "setPath (pre @ [KName k]) v s1 = Ok s2" "getPath pre (sdoc s2) = JObj (obj_set k v (obj_del k0 kvs))"
    using put_member [OF s1(2) assms(2,4)] by blast
  have "leftover_edits pre [k0] t = [Del (pre @ [KName k0]), Put (pre @ [KName k]) v]" using assms(3) by (simp add: leftover_edits_def)
  then show ?thesis using s1 s2 by simp
qed

text \<open>
  C30. Renaming a field that is not in the schema: the editor deletes the names it was drawn with, not the ones it has written since, so
  that a name read while the user is typing stays in the document beside the final one.
\<close>

theorem half_typed_field_stays:
  assumes "getPath pre (sdoc s) = JObj kvs" and "list_all idx_ok pre" and "json_parse t = Some (JObj [(k, v)])"
    and "json_parse t' = Some (JObj [(k', v')])" and "k \<noteq> ''__proto__''" "k' \<noteq> ''__proto__''" "k \<noteq> k'" "k \<noteq> k0"
  shows "\<exists>s1 s2. doc_edits (leftover_edits pre [k0] t) s = Ok s1 \<and> doc_edits (leftover_edits pre [k0] t') s1 = Ok s2 \<and>
    getPath (pre @ [KName k]) (sdoc s2) = v \<and> getPath (pre @ [KName k']) (sdoc s2) = v'"
proof -
  obtain s1 where s1: "doc_edits (leftover_edits pre [k0] t) s = Ok s1" "getPath pre (sdoc s1) = JObj (obj_set k v (obj_del k0 kvs))"
    using leftover_once [OF assms(1-3,5)] by blast
  obtain s2 where s2: "doc_edits (leftover_edits pre [k0] t') s1 = Ok s2"
    "getPath pre (sdoc s2) = JObj (obj_set k' v' (obj_del k0 (obj_set k v (obj_del k0 kvs))))"
    using leftover_once [OF s1(2) assms(2,4,6)] by blast
  have "getPath (pre @ [KName k]) (sdoc s2) = v" "getPath (pre @ [KName k']) (sdoc s2) = v'"
    using assms(7,8) by (simp_all add: member_read [OF s2(2)] map_of_obj_set map_of_obj_del)
  then show ?thesis using s1(1) s2(1) by blast
qed

definition typo_studio :: studio where
  "typo_studio = \<lparr>sdoc = JObj [(''listners'', JBool True)], saveDue = False, stored = None\<rparr>"

text \<open>From listners over liste to listeners: the half-typed name stays.\<close>

theorem half_typed_field_stays_witness:
  "\<exists>s1 s2. doc_edits (leftover_edits [] [''listners''] (''{'' @ json_quote ''liste'' @ '':true}'')) typo_studio = Ok s1 \<and>
    doc_edits (leftover_edits [] [''listners''] (''{'' @ json_quote ''listeners'' @ '':true}'')) s1 = Ok s2 \<and>
    getPath [KName ''liste''] (sdoc s2) = JBool True \<and> getPath [KName ''listeners''] (sdoc s2) = JBool True"
proof -
  have 1: "getPath [] (sdoc typo_studio) = JObj [(''listners'', JBool True)]" by (simp add: typo_studio_def)
  have 2: "json_parse (''{'' @ json_quote ''liste'' @ '':true}'') = Some (JObj [(''liste'', JBool True)])" by code_simp
  have 3: "json_parse (''{'' @ json_quote ''listeners'' @ '':true}'') = Some (JObj [(''listeners'', JBool True)])" by code_simp
  show ?thesis using half_typed_field_stays [OF 1 _ 2 3, of "''listners''"] by simp
qed

text \<open>
  Which members of an object the form shows: all, as a field of the schema or in the editor of the others, except those
  that carry a name every object inherits and are not in the schema; those can be neither seen nor removed.
\<close>

theorem hidden_members:
  assumes "v = JObj kvs" and "k \<in> fst ` set kvs"
  shows "(k \<in> set (form_fields c) \<union> set (leftover_keys c v) \<longleftrightarrow> \<not> (k \<in> set object_proto \<and> k \<notin> fst ` set (prop_list c))) \<and>
    set (form_fields c) \<inter> set (leftover_keys c v) = {}"
proof -
  have "js_or v (JObj []) = v" using assms(1) by simp
  then have l: "set (leftover_keys c v) = {x \<in> fst ` set kvs. \<not> has_prop c x}" by (auto simp: leftover_keys_def assms(1))
  have f: "set (form_fields c) = fst ` set (prop_list c)" by (auto simp: form_fields_def)
  show ?thesis
    unfolding l f using assms(2) by (auto simp: has_prop_def)
qed

theorem hidden_members_witness:
  "''constructor'' \<notin> set (form_fields empty_schema) \<union> set (leftover_keys empty_schema (JObj [(''constructor'', JBool True), (''typo'', JBool True)])) \<and>
   ''typo'' \<in> set (leftover_keys empty_schema (JObj [(''constructor'', JBool True), (''typo'', JBool True)]))"
proof -
  let ?kvs = "[(''constructor'', JBool True), (''typo'', JBool True)]"
  have "prop_list empty_schema = []" by (simp add: prop_list_def empty_schema_def)
  moreover have "''constructor'' \<in> set object_proto" "''typo'' \<notin> set object_proto" by (simp_all add: object_proto_def)
  moreover have "form_fields empty_schema = []" by code_simp
  ultimately show ?thesis
    using hidden_members [OF refl, of "''constructor''" ?kvs empty_schema] hidden_members [OF refl, of "''typo''" ?kvs empty_schema] by simp
qed

text \<open>
  A click on the chip of a policy: the document is edited at that member only in that the policy is attached if it was not, and
  detached if it was; the other names stay in order, and the member goes with its last name.
\<close>

lemma toggled_chips: "distinct vs \<Longrightarrow> chip_on (toggled n vs) n = (\<not> chip_on vs n)" "m \<noteq> n \<Longrightarrow> chip_on (toggled n vs) m = chip_on vs m"
  "filter (\<lambda>v. v \<noteq> JStr n) (toggled n vs) = filter (\<lambda>v. v \<noteq> JStr n) vs"
proof -
  show "distinct vs \<Longrightarrow> chip_on (toggled n vs) n = (\<not> chip_on vs n)" by (auto simp: chip_on_def toggled_def)
  show "m \<noteq> n \<Longrightarrow> chip_on (toggled n vs) m = chip_on vs m" by (auto simp: chip_on_def toggled_def in_set_remove1)
  have "filter (\<lambda>v. v \<noteq> x) (remove1 x ys) = filter (\<lambda>v. v \<noteq> x) ys" for x and ys :: "jv list" by (induction ys) auto
  then show "filter (\<lambda>v. v \<noteq> JStr n) (toggled n vs) = filter (\<lambda>v. v \<noteq> JStr n) vs" by (simp add: toggled_def)
qed

theorem chip_click_toggles:
  assumes "getPath pre (sdoc s) = JObj kvs" and "list_all idx_ok pre" and "plain (KName k)"
    and "js_or (getPath (pre @ [KName k]) (sdoc s)) (JArr []) = JArr vs" and "distinct vs"
  shows "\<exists>e s'. chip_click (pre @ [KName k]) n (sdoc s) = Some e \<and> doc_edit e s = Ok s' \<and>
    getPath (pre @ [KName k]) (sdoc s') = (if toggled n vs = [] then JUndef else JArr (toggled n vs)) \<and>
    (\<forall>m. chip_on (toggled n vs) m = (if m = n then \<not> chip_on vs m else chip_on vs m)) \<and>
    (\<forall>k'. k' \<noteq> k \<longrightarrow> getPath (pre @ [KName k']) (sdoc s') = getPath (pre @ [KName k']) (sdoc s))"
proof -
  let ?ws = "toggled n vs" and ?p = "pre @ [KName k]"
  have c: "chip_click ?p n (sdoc s) = Some (chips_edit ?p ?ws)" using assms(4) by (simp add: chip_click_def)
  have t: "\<forall>m. chip_on ?ws m = (if m = n then \<not> chip_on vs m else chip_on vs m)" using toggled_chips assms(5) by auto
  show ?thesis
  proof (cases "?ws = []")
    case True
    obtain s' where s': "delPath ?p s = Ok s'" "getPath pre (sdoc s') = JObj (obj_del k kvs)" using del_member [OF assms(1,2)] by blast
    have "getPath ?p (sdoc s') = JUndef" by (rule member_gone [OF s'(2) _ assms(3)]) (simp add: map_of_obj_del)
    moreover have "getPath (pre @ [KName k']) (sdoc s') = getPath (pre @ [KName k']) (sdoc s)" if "k' \<noteq> k" for k'
      using that by (simp add: member_read [OF s'(2)] member_read [OF assms(1)] map_of_obj_del)
    ultimately show ?thesis using c t s'(1) True by (auto simp: chips_edit_def)
  next
    case False
    obtain s' where s': "setPath ?p (JArr ?ws) s = Ok s'" "getPath pre (sdoc s') = JObj (obj_set k (JArr ?ws) kvs)"
      using put_member [OF assms(1,2) plain_not_proto [OF assms(3)]] by blast
    have "getPath ?p (sdoc s') = JArr ?ws" by (simp add: member_read [OF s'(2)] map_of_obj_set)
    moreover have "getPath (pre @ [KName k']) (sdoc s') = getPath (pre @ [KName k']) (sdoc s)" if "k' \<noteq> k" for k'
      using that by (simp add: member_read [OF s'(2)] member_read [OF assms(1)] map_of_obj_set)
    ultimately show ?thesis using c t s'(1) False by (auto simp: chips_edit_def)
  qed
qed

definition chip_studio :: studio where
  "chip_studio = \<lparr>sdoc = JObj [(''routes'', JArr [JObj [(''name'', JStr ''r''), (''policies'', JArr [JStr ''rl''])]])], saveDue = False, stored = None\<rparr>"

theorem chip_click_toggles_witness:
  "\<exists>e s'. chip_click [KName ''routes'', KIdx 0, KName ''policies''] ''rl'' (sdoc chip_studio) = Some e \<and> doc_edit e chip_studio = Ok s' \<and>
    getPath [KName ''routes'', KIdx 0, KName ''policies''] (sdoc s') = JUndef"
proof -
  have 1: "getPath [KName ''routes'', KIdx 0] (sdoc chip_studio) = JObj [(''name'', JStr ''r''), (''policies'', JArr [JStr ''rl''])]" by code_simp
  have 2: "list_all idx_ok [KName ''routes'', KIdx 0]" "plain (KName ''policies'')" by code_simp+
  have 3: "js_or (getPath ([KName ''routes'', KIdx 0] @ [KName ''policies'']) (sdoc chip_studio)) (JArr []) = JArr [JStr ''rl'']" by code_simp
  have 4: "toggled ''rl'' [JStr ''rl''] = []" by (simp add: toggled_def)
  obtain e s' where "chip_click ([KName ''routes'', KIdx 0] @ [KName ''policies'']) ''rl'' (sdoc chip_studio) = Some e" "doc_edit e chip_studio = Ok s'"
    "getPath ([KName ''routes'', KIdx 0] @ [KName ''policies'']) (sdoc s') = JUndef"
    using chip_click_toggles [OF 1 2 3, of "''rl''"] 4 by auto
  then show ?thesis unfolding append.simps by blast
qed

text \<open>
  A map whose values are lists (the groups of a masking policy) has text fields for the lists: whatever is typed replaces the list
  by a string, which the validator rejects.
\<close>

theorem list_in_map_overwritten:
  assumes "coreOf n D (deref D s) = Some c" and "variants_of c = None" and "stype_of c = Some (TOne ''array'')" and "senum c = None"
  shows "map_editor (kind_of D c) = LeafField \<and> leaf_edit D c path t = Put path (JStr t) \<and> \<not> conforms R D s (JStr t)"
proof -
  have u: "oneOf c = None" "anyOf c = None" using assms(2) by (auto simp: variants_of_def split: option.splits)
  then have k: "kind_of D c = ''array''" using assms(3,4) by (simp add: kind_of_def first_type_def Let_def)
  then have l: "leaf_options D c = None" using assms(4) by (simp add: leaf_options_def)
  have "type_of c = Some ''array''" using assms(3) by (simp add: type_of_def)
  then have "value_error c (JStr t) \<noteq> None" by (simp add: value_error_def type_error_def)
  moreover have "\<not> nullish (JStr t)" by (simp add: nullish_def)
  ultimately have "\<not> conforms R D s (JStr t)" using conforms_value_iff [OF _ assms(1,2), of "JStr t" R] by simp
  then show ?thesis using k l assms(3) by (simp add: map_editor_def leaf_edit_def Let_def)
qed

definition name_list :: schema where
  "name_list = Schema None (Some (TOne ''array'')) None None None None None no_bounds (Some (with_type ''string'' empty_schema)) None None AddlAny None"

theorem list_in_map_overwritten_witness:
  "leaf_edit [] name_list [KName ''groups'', KName ''pii''] ''email'' = Put [KName ''groups'', KName ''pii''] (JStr ''email'') \<and>
    \<not> conforms (\<lambda>_ _. None) [] name_list (JStr ''email'')"
proof -
  have c: "coreOf 1 [] (deref [] name_list) = Some name_list" by code_simp
  have o: "variants_of name_list = None" "stype_of name_list = Some (TOne ''array'')" "senum name_list = None" by code_simp+
  show ?thesis using list_in_map_overwritten [OF c o] by blast
qed

end
