(* ===== verification/Studio_Overview.thy ===== *)
theory Studio_Overview
  imports Studio_Forms
begin

text \<open>
  The overview of config studio (\<open>renderOverview\<close> in \<open>tools/config-studio/src/app.template.html\<close>) as the texts and classes
  that it puts on the page, a \<open>TypeError\<close> as \<open>None\<close>; and the editor of a union without a discriminator (the second half
  of \<open>unionEditor\<close>). Entries named \<open>__proto__\<close> are outside of the model of the tables.
\<close>

section \<open>The wiring table\<close>

text \<open>\<open>svcIdx[name]\<close>: the last entry of that name, or what every object inherits.\<close>

definition idx_entry :: "jv list \<Rightarrow> jv \<Rightarrow> jv" where
  "idx_entry vs name = (case List.find (\<lambda>v. truthy v \<and> truthy (sub v ''name'') \<and> js_string (sub v ''name'') = js_string name) (rev vs) of
     Some v \<Rightarrow> v | None \<Rightarrow> proto_read [] (js_string name))"

definition ov_service :: "jv list \<Rightarrow> jv \<Rightarrow> jv" where
  "ov_service svcs r = (if truthy r then idx_entry svcs (sub r ''service'') else r)"

definition ov_upstream :: "jv list \<Rightarrow> jv \<Rightarrow> jv" where
  "ov_upstream ups svc = (if truthy svc \<and> truthy (sub svc ''upstream'') then idx_entry ups (sub svc ''upstream'') else JNull)"

definition ov_endpoints :: "jv \<Rightarrow> string option" where
  "ov_endpoints up = (if truthy up \<and> truthy (sub up ''endpoints'')
     then map_option (\<lambda>es. js_join '', '' (map (\<lambda>e. or_text (sub e ''address'') ''?'' @ '':'' @ or_text (sub e ''port'') ''?'') es))
       (js_elems (sub up ''endpoints''))
     else Some [])"

text \<open>The match of a route; a path that is missing is written as the text \<open>undefined\<close>.\<close>

definition ov_label :: "jv \<Rightarrow> string" where
  "ov_label mp = (if js_typeof mp = ''string'' \<or> \<not> truthy mp then js_string mp
     else (if truthy (sub mp ''type'') then js_string (sub mp ''type'') @ '':'' else []) @ or_text (sub mp ''value'') ''?'')"

definition ov_match :: "jv \<Rightarrow> string option" where
  "ov_match r = (let m = sub r ''match''; ms = js_or (sub m ''methods'') (JArr []) in
     if truthy r \<and> truthy m
     then (if has_len ms then map_option (\<lambda>vs. ov_label (sub m ''path'') @ '' ['' @ js_string (JArr vs) @ '']'') (js_elems ms)
       else Some (ov_label (sub m ''path'')))
     else Some ''-'')"

record ov_row =
  orName :: string
  orMatch :: string
  orService :: "string \<times> string"
  orUpstream :: "string \<times> string"
  orEndpoints :: string

definition service_chip :: "jv \<Rightarrow> jv \<Rightarrow> string \<times> string" where
  "service_chip r svc = (if truthy svc then ''ok'' else ''err'', or_text (sub r ''service'') ''-'')"

definition upstream_chip :: "jv \<Rightarrow> jv \<Rightarrow> string \<times> string" where
  "upstream_chip svc up = (if truthy up then ''ok'' else if truthy svc \<and> truthy (sub svc ''split'') then ''err'' else [],
     if truthy svc \<and> truthy (sub svc ''upstream'') then js_string (sub svc ''upstream'')
     else if truthy svc \<and> truthy (sub svc ''split'') then ''split'' else ''-'')"

definition ov_row_of :: "jv list \<Rightarrow> jv list \<Rightarrow> jv \<Rightarrow> ov_row option" where
  "ov_row_of svcs ups r = (let svc = ov_service svcs r; up = ov_upstream ups svc in
     case ov_endpoints up of None \<Rightarrow> None | Some eps \<Rightarrow> (case ov_match r of None \<Rightarrow> None | Some m \<Rightarrow>
       Some \<lparr>orName = or_text (sub r ''name'') ''-'', orMatch = m, orService = service_chip r svc, orUpstream = upstream_chip svc up,
         orEndpoints = eps\<rparr>))"

section \<open>The overview\<close>

record overview =
  ovHead :: string
  ovCards :: "(string \<times> string) list"
  ovRows :: "ov_row list"
  ovEmpty :: bool

definition ov_head :: "report list \<Rightarrow> string" where
  "ov_head xs = (let e = count Error xs; w = count Warning xs in
     if e \<noteq> 0 then nat_str e @ '' error(s) and '' @ nat_str w @ '' warning(s) - open the status bar for details.''
     else ''Config structure is valid. '' @ (if w \<noteq> 0 then nat_str w @ '' advisory warning(s).'' else []))"

definition ov_card :: "jv \<Rightarrow> string \<Rightarrow> string \<times> string" where
  "ov_card doc k = (k, js_string (sub (js_or (sub doc k) (JArr [])) ''length''))"

fun all_rows :: "(jv \<Rightarrow> ov_row option) \<Rightarrow> jv list \<Rightarrow> ov_row list option" where
  "all_rows f [] = Some []"
| "all_rows f (r # rs) = (case f r of None \<Rightarrow> None | Some x \<Rightarrow> map_option ((#) x) (all_rows f rs))"

definition render_overview :: "report list \<Rightarrow> jv \<Rightarrow> overview option" where
  "render_overview xs doc = (if nullish doc then None
     else case list_or (sub doc ''services'') of None \<Rightarrow> None | Some svcs \<Rightarrow>
       (case list_or (sub doc ''upstreams'') of None \<Rightarrow> None | Some ups \<Rightarrow>
       (case list_or (sub doc ''routes'') of None \<Rightarrow> None | Some rs \<Rightarrow>
         map_option (\<lambda>rows. \<lparr>ovHead = ov_head xs,
             ovCards = map (ov_card doc) [''listeners'', ''routes'', ''services'', ''upstreams'', ''consumers'', ''policies''],
             ovRows = rows, ovEmpty = (rs = [])\<rparr>) (all_rows (ov_row_of svcs ups) rs))))"

section \<open>Unions without a discriminator\<close>

text \<open>The variant that is drawn: the first one the value passes.\<close>

definition alt_variant :: "nat \<Rightarrow> (string \<Rightarrow> string \<Rightarrow> bool option) \<Rightarrow> defs \<Rightarrow> schema list \<Rightarrow> jv \<Rightarrow> key list \<Rightarrow> schema option option" where
  "alt_variant n R D vs v p = first_match (\<lambda>w. checkNode n R D w v p) vs"

text \<open>Its editor, if there is one.\<close>

definition alt_editor :: "nat \<Rightarrow> defs \<Rightarrow> schema \<Rightarrow> jv \<Rightarrow> value_editor option option" where
  "alt_editor n D w v = (case typeName n D w of None \<Rightarrow> None
     | Some k \<Rightarrow> Some (if k = ''object'' then Some ObjectForm else if k = ''choice'' \<or> js_typeof v \<noteq> ''object'' then Some LeafField else None))"

text \<open>The listener of its select box, whose options are the positions of the variants.\<close>

definition pick_alt :: "nat \<Rightarrow> defs \<Rightarrow> schema list \<Rightarrow> key list \<Rightarrow> nat \<Rightarrow> studio \<Rightarrow> studio res option" where
  "pick_alt n D vs path i s = (if i < length vs then map_option (\<lambda>r. res_bind r (\<lambda>x. setPath path x s)) (defaultValue n D (vs ! i)) else Some Outside)"

text \<open>A chip whose policy is not defined: a click removes the first item that equals it.\<close>

definition dangling_click :: "key list \<Rightarrow> jv \<Rightarrow> jv \<Rightarrow> edit option" where
  "dangling_click path v doc = (case js_elems (js_or (getPath path doc) (JArr [])) of None \<Rightarrow> None
     | Some vs \<Rightarrow> if v \<in> set vs then Some (chips_edit path (remove1 v vs)) else None)"

section \<open>Laws\<close>

lemma idx_entry_found: "truthy (idx_entry vs x) \<longleftrightarrow> in_idx (idx_names vs) x"
proof (cases "List.find (\<lambda>v. truthy v \<and> truthy (sub v ''name'') \<and> js_string (sub v ''name'') = js_string x) (rev vs)")
  case None
  then have "js_string x \<notin> set (idx_names vs)" unfolding find_None_iff by (auto simp: idx_names_def)
  then show ?thesis using None by (simp add: idx_entry_def in_idx_def proto_read_def)
next
  case (Some v)
  then have "v \<in> set vs" "truthy v" "truthy (sub v ''name'')" "js_string (sub v ''name'') = js_string x"
    unfolding find_Some_iff by (metis nth_mem set_rev)+
  then have "js_string x \<in> set (idx_names vs)" by (force simp: idx_names_def)
  then show ?thesis using Some \<open>truthy v\<close> by (simp add: idx_entry_def in_idx_def)
qed

lemma all_rows_nth: "all_rows f rs = Some ys \<Longrightarrow> length ys = length rs \<and> (\<forall>i < length rs. f (rs ! i) = Some (ys ! i))"
proof (induction rs arbitrary: ys)
  case (Cons r rs)
  then obtain x zs where "f r = Some x" "all_rows f rs = Some zs" "ys = x # zs" by (auto split: option.splits)
  then show ?case using Cons.IH [of zs] by (auto simp: nth_Cons split: nat.split)
qed simp

lemma overview_rows:
  assumes "render_overview xs doc = Some u" and "sub doc ''routes'' = JArr rs"
  obtains svcs ups where "list_or (sub doc ''services'') = Some svcs" "list_or (sub doc ''upstreams'') = Some ups"
    "length rs = length (ovRows u)" "\<And>i. i < length rs \<Longrightarrow> ov_row_of svcs ups (rs ! i) = Some (ovRows u ! i)"
proof -
  have "list_or (sub doc ''routes'') = Some rs" using assms(2) by (simp add: list_or_def)
  then obtain svcs ups rows where l: "list_or (sub doc ''services'') = Some svcs" "list_or (sub doc ''upstreams'') = Some ups"
    and a: "all_rows (ov_row_of svcs ups) rs = Some rows" and u: "ovRows u = rows"
    using assms(1) by (auto simp: render_overview_def split: if_splits option.splits)
  show ?thesis using that [OF l] all_rows_nth [OF a] unfolding u by simp
qed

lemma row_service: "ov_row_of svcs ups r = Some x \<Longrightarrow> orService x = service_chip r (ov_service svcs r)"
  by (auto simp: ov_row_of_def Let_def split: option.splits)

text \<open>
  The chip of a service is red exactly when the reference leads nowhere in the sense of the validator; the chip of an upstream is
  not: a dangling upstream is left without a colour, and a service that splits its traffic is red although nothing is missing.
\<close>

theorem overview_chips:
  assumes "render_overview xs doc = Some u" and "well_named doc" and "sub doc ''routes'' = JArr rs" and "i < length rs"
    and "truthy (rs ! i)" and "truthy (sub (rs ! i) ''service'')"
  shows "length (ovRows u) = length rs \<and> orService (ovRows u ! i) =
    (if leads (sub doc ''services'') (sub (rs ! i) ''service'') then ''ok'' else ''err'', js_string (sub (rs ! i) ''service''))"
proof -
  let ?r = "rs ! i"
  obtain svcs ups where l: "list_or (sub doc ''services'') = Some svcs" and n: "length rs = length (ovRows u)"
    and r: "ov_row_of svcs ups ?r = Some (ovRows u ! i)"
    using overview_rows [OF assms(1,3)] assms(4) by metis
  have i: "?r \<in> elems (sub doc ''routes'')" using assms(3,4) by (simp add: elems_def)
  have s: "orService (ovRows u ! i) = service_chip ?r (ov_service svcs ?r)" by (rule row_service [OF r])
  have w: "\<forall>e \<in> elems (sub doc ''services''). js_typeof e = ''object'' \<and> text_or_none (sub e ''name'')" "text_or_none (sub ?r ''service'')"
    using assms(2) i by (auto simp: well_named_def)
  show ?thesis using lost_leads [OF list_or_elems [OF l] w] assms(5,6) n unfolding s
    by (simp add: service_chip_def ov_service_def idx_entry_found lost_def or_text_def js_or_def)
qed

definition split_demo :: jv where
  "split_demo = JObj [
     (''routes'', JArr [JObj [(''name'', JStr ''a''), (''service'', JStr ''s'')], JObj [(''name'', JStr ''b''), (''service'', JStr ''t''), (''match'', JObj [(''methods'', JArr [JStr ''GET''])])]]),
     (''services'', JArr [JObj [(''name'', JStr ''s''), (''upstream'', JStr ''gone'')],
        JObj [(''name'', JStr ''t''), (''split'', JObj [(''targets'', JArr [JObj [(''upstream'', JStr ''u''), (''weight'', jint 1)]])])]]),
     (''upstreams'', JArr [JObj [(''name'', JStr ''u'')]])]"

text \<open>The upstream of the first route does not exist, the targets of the second do; and a match without a path.\<close>

lemma upstream_chips_mislead:
  "map_option (map (\<lambda>x. (orUpstream x, orMatch x)) \<circ> ovRows) (render_overview [] split_demo) =
     Some [(([], ''gone''), ''-''), ((''err'', ''split''), ''undefined [GET]'')]"
  by code_simp

theorem overview_chips_witness:
  "\<exists>u. render_overview [] split_demo = Some u \<and> orService (ovRows u ! 0) = (''ok'', ''s'')"
proof -
  obtain u where u: "render_overview [] split_demo = Some u"
    using upstream_chips_mislead by (cases "render_overview [] split_demo") simp_all
  have w: "well_named split_demo" by code_simp
  have r: "sub split_demo ''routes'' = JArr (the (js_elems (sub split_demo ''routes'')))" by code_simp
  have t: "case the (js_elems (sub split_demo ''routes'')) of [] \<Rightarrow> False | x # _ \<Rightarrow> truthy x \<and> sub x ''service'' = JStr ''s''" by code_simp
  have l: "leads (sub split_demo ''services'') (JStr ''s'')" by code_simp
  show ?thesis using overview_chips [OF u w r, of 0] u t l by (auto split: list.splits)
qed

section \<open>The shape that is drawn\<close>

lemma conforms_deref: "ref_ends D t \<Longrightarrow> conforms R D (deref D t) v \<longleftrightarrow> conforms R D t v"
proof -
  have imp: "conforms R D u v" if e: "deref D s = deref D u" and c: "conforms R D s v" for s u
    using c by cases (use e in \<open>auto intro: conforms.intros\<close>)
  assume "ref_ends D t"
  then have "deref D (deref D t) = deref D t" by (rule deref_resolved)
  then show ?thesis using imp [of "deref D t" t] imp [of t "deref D t"] by auto
qed

text \<open>
  The editor of a union agrees with the validator, when no variant of it is the null schema: a value has a form exactly when it
  conforms, and the form is that of a variant it conforms to.
\<close>

theorem alt_shape_drawn:
  assumes "\<not> nullish v" and "coreOf n D (deref D s) = Some c" and "variants_of c = Some vs"
    and "list_all (\<lambda>t. ref_ends D t \<and> \<not> isNullSchema (deref D t)) vs" and "alt_variant m R D (variants_in D c) v p = Some w"
  shows "(conforms R D s v \<longleftrightarrow> w \<noteq> None) \<and> (\<forall>x. w = Some x \<longrightarrow> x \<in> deref D ` set vs \<and> conforms R D x v)"
proof -
  have i: "set (variants_in D c) = deref D ` set vs" using assms(3,4) by (auto simp: variants_in_def list_all_iff)
  have d: "conforms R D (deref D t) v \<longleftrightarrow> conforms R D t v" if "t \<in> set vs" for t
    using that assms(4) by (auto simp: list_all_iff intro!: conforms_deref)
  have u: "conforms R D s v \<longleftrightarrow> (\<exists>x \<in> set (variants_in D c). conforms R D x v)"
    using conforms_union_iff [OF assms(1-3)] d by (auto simp: i)
  show ?thesis
  proof (cases w)
    case None
    then have "\<not> conforms R D x v" if "x \<in> set (variants_in D c)" for x
      using first_match_none [OF _ that] assms(5) conforms_accepted by (fastforce simp: alt_variant_def)
    then show ?thesis using u None by simp
  next
    case (Some x)
    then have "x \<in> set (variants_in D c)" "conforms R D x v"
      using first_match_in [of _ "variants_in D c" x] assms(5) accepted_conforms by (fastforce simp: alt_variant_def)+
    then show ?thesis using u Some i by auto
  qed
qed

text \<open>Booleans and mappings, as for the additional properties in a schema of request bodies.\<close>

definition bool_or_object :: schema where
  "bool_or_object = Schema None None (Some [with_type ''boolean'' empty_schema, with_type ''object'' empty_schema])
     None None None None no_bounds None None None AddlAny None"

text \<open>The text field of a boolean stores a string, which is no boolean: after it is touched, no variant and no form is left.\<close>

lemma boolean_item_lost:
  "leaf_edit [] (with_type ''boolean'' empty_schema) p ''true'' = Put p (JStr ''true'')"
  "alt_variant 9 (\<lambda>_ _. None) [] (variants_in [] bool_or_object) (JBool True) p = Some (Some (with_type ''boolean'' empty_schema))"
  "alt_editor 9 [] (with_type ''boolean'' empty_schema) (JBool True) = Some (Some LeafField)"
  "alt_variant 9 (\<lambda>_ _. None) [] (variants_in [] bool_or_object) (JStr ''true'') p = Some None"
  by code_simp+

theorem alt_shape_drawn_witness:
  "conforms (\<lambda>_ _. None) [] bool_or_object (JBool True) \<and> \<not> conforms (\<lambda>_ _. None) [] bool_or_object (JStr ''true'')"
proof -
  obtain vs where vs: "variants_of bool_or_object = Some vs" by (simp add: variants_of_def bool_or_object_def)
  have c: "coreOf 9 [] (deref [] bool_or_object) = Some bool_or_object" by code_simp
  have l: "list_all (\<lambda>t. ref_ends [] t \<and> \<not> isNullSchema (deref [] t)) (the (variants_of bool_or_object))" by code_simp
  have n: "\<not> nullish (JBool True)" "\<not> nullish (JStr ''true'')" by (simp_all add: nullish_def)
  have l': "list_all (\<lambda>t. ref_ends [] t \<and> \<not> isNullSchema (deref [] t)) vs" using l vs by simp
  show ?thesis
    using alt_shape_drawn [OF n(1) c vs l' boolean_item_lost(2) [of "[]"]] alt_shape_drawn [OF n(2) c vs l' boolean_item_lost(4) [of "[]"]] by simp
qed

section \<open>When the overview is drawn\<close>

lemma listy_elems: "listy v \<Longrightarrow> \<exists>vs. list_or v = Some vs \<and> set vs = elems v"
  by (cases v) (auto simp: listy_def list_or_def elems_def)

lemma fun_endpoints: "\<not> truthy (sub (JFun f) ''endpoints'') \<and> \<not> truthy (sub JUndef ''endpoints'')"
  by (simp add: sub_def nullish_def proto_read_def object_proto_def function_proto_def)

lemma all_rows_total: "(\<And>r. r \<in> set rs \<Longrightarrow> f r \<noteq> None) \<Longrightarrow> all_rows f rs \<noteq> None"
  by (induction rs) (auto split: option.splits)

lemma idx_entry_cases: "idx_entry vs x \<in> set vs \<or> (\<exists>f. idx_entry vs x = JFun f) \<or> idx_entry vs x = JUndef"
proof (cases "List.find (\<lambda>v. truthy v \<and> truthy (sub v ''name'') \<and> js_string (sub v ''name'') = js_string x) (rev vs)")
  case (Some v)
  then have "v \<in> set vs" unfolding find_Some_iff by (metis nth_mem set_rev)
  then show ?thesis using Some by (simp add: idx_entry_def)
qed (simp add: idx_entry_def proto_read_def)

text \<open>The overview throws only for a section, endpoints or methods that are there and no lists.\<close>

lemma overview_total:
  assumes "\<not> nullish doc" and "\<forall>k \<in> {''services'', ''upstreams'', ''routes''}. listy (sub doc k)"
    and "\<forall>u \<in> elems (sub doc ''upstreams''). listy (sub u ''endpoints'')"
    and "\<forall>r \<in> elems (sub doc ''routes''). listy (sub (sub r ''match'') ''methods'')"
  shows "render_overview xs doc \<noteq> None"
proof -
  obtain svcs ups rs where l: "list_or (sub doc ''services'') = Some svcs" "list_or (sub doc ''upstreams'') = Some ups"
    "list_or (sub doc ''routes'') = Some rs" and s: "set ups = elems (sub doc ''upstreams'')" "set rs = elems (sub doc ''routes'')"
    using listy_elems [of "sub doc ''services''"] listy_elems [of "sub doc ''upstreams''"] listy_elems [of "sub doc ''routes''"] assms(2) by auto
  have arr: "js_elems v \<noteq> None" if "listy v" "truthy v" for v using that by (cases v) (auto simp: listy_def)
  have e: "ov_endpoints u \<noteq> None" if "u \<in> set ups \<or> (\<exists>f. u = JFun f) \<or> u = JUndef \<or> u = JNull" for u
    using that assms(3) arr fun_endpoints unfolding s(1) by (auto simp: ov_endpoints_def)
  have u: "ov_endpoints (ov_upstream ups svc) \<noteq> None" for svc
    by (rule e) (use idx_entry_cases [of ups "sub svc ''upstream''"] in \<open>auto simp: ov_upstream_def\<close>)
  have m: "ov_match r \<noteq> None" if "r \<in> set rs" for r
  proof -
    have "listy (sub (sub r ''match'') ''methods'')" using that assms(4) s(2) by simp
    then have "js_elems (js_or (sub (sub r ''match'') ''methods'') (JArr [])) \<noteq> None" using arr by (auto simp: js_or_def)
    then show ?thesis by (auto simp: ov_match_def Let_def)
  qed
  have "ov_row_of svcs ups r \<noteq> None" if "r \<in> set rs" for r
    using u [of "ov_service svcs r"] m [OF that] by (auto simp: ov_row_of_def Let_def split: option.splits)
  then have "all_rows (ov_row_of svcs ups) rs \<noteq> None" by (rule all_rows_total)
  then show ?thesis using l assms(1) by (simp add: render_overview_def)
qed

end
