(* ===== verification/Studio_Session.thy ===== *)
theory Studio_Session
  imports Studio_App
begin

text \<open>
  What holds during a session with config studio: the issues and the status line follow the document, the YAML pane shows
  it, the draft is kept, and what becomes of text that was typed into the pane. The locale \<open>page_invariant\<close> lists what an
  invariant owes to the drawing functions and edits of \<open>Studio_App\<close>, and carries it through all handlers and runs.
\<close>

section \<open>Invariants of sequences of calls\<close>

text \<open>A call that keeps a property, one that establishes it; with \<open>n\<close>, only when it does not throw.\<close>

definition keeps :: "bool \<Rightarrow> (app \<Rightarrow> bool) \<Rightarrow> act \<Rightarrow> bool" where
  "keeps n I a = (\<forall>s s' m. I s \<longrightarrow> a s = Some (s', m) \<longrightarrow> (n \<longrightarrow> m = None) \<longrightarrow> I s')"

definition gains :: "bool \<Rightarrow> (app \<Rightarrow> bool) \<Rightarrow> act \<Rightarrow> bool" where
  "gains n I a = (\<forall>s s' m. a s = Some (s', m) \<longrightarrow> (n \<longrightarrow> m = None) \<longrightarrow> I s')"

text \<open>A call that leaves a part of the state alone.\<close>

definition leaves :: "(app \<Rightarrow> 'a) \<Rightarrow> act \<Rightarrow> bool" where
  "leaves f a = (\<forall>s s' m. a s = Some (s', m) \<longrightarrow> f s' = f s)"

named_theorems acts

lemma keepsI: "(\<And>s s' m. I s \<Longrightarrow> a s = Some (s', m) \<Longrightarrow> (n \<Longrightarrow> m = None) \<Longrightarrow> I s') \<Longrightarrow> keeps n I a"
  unfolding keeps_def by blast

lemma keepsD: "keeps n I a \<Longrightarrow> I s \<Longrightarrow> a s = Some (s', m) \<Longrightarrow> (n \<Longrightarrow> m = None) \<Longrightarrow> I s'"
  unfolding keeps_def by blast

lemma gainsI: "(\<And>s s' m. a s = Some (s', m) \<Longrightarrow> (n \<Longrightarrow> m = None) \<Longrightarrow> I s') \<Longrightarrow> gains n I a"
  unfolding gains_def by blast

lemma gainsD: "gains n I a \<Longrightarrow> a s = Some (s', m) \<Longrightarrow> (n \<Longrightarrow> m = None) \<Longrightarrow> I s'"
  unfolding gains_def by blast

lemma leavesI: "(\<And>s s' m. a s = Some (s', m) \<Longrightarrow> f s' = f s) \<Longrightarrow> leaves f a"
  unfolding leaves_def by blast

lemma leavesD: "leaves f a \<Longrightarrow> a s = Some (s', m) \<Longrightarrow> f s' = f s"
  unfolding leaves_def by blast

lemma gains_keeps: "gains n I a \<Longrightarrow> keeps n I a"
  by (blast intro: keepsI dest: gainsD)

lemma leaves_keeps: "leaves f a \<Longrightarrow> (\<And>s s'. f s' = f s \<Longrightarrow> I s \<Longrightarrow> I s') \<Longrightarrow> keeps n I a"
  by (blast intro: keepsI dest: leavesD)

lemma run_actsE:
  assumes "run_acts (a # xs) s = Some (s', m)"
  obtains s1 where "a s = Some (s1, None)" "run_acts xs s1 = Some (s', m)" | "a s = Some (s', m)"
proof (cases "a s")
  case (Some r)
  obtain s1 k where r: "r = (s1, k)" by (cases r)
  show thesis using assms that Some unfolding r by (cases k) simp_all
qed (use assms in simp)

lemma run_one: "run_acts [a] s = a s"
  by (auto split: option.splits prod.splits)

lemma quiet_first: "run_acts (quietly f # xs) s = run_acts xs (f s)"
  by (simp add: quietly_def)

lemma keeps_run [acts]: "list_all (keeps n I) xs \<Longrightarrow> keeps n I (run_acts xs)"
proof (induction xs)
  case (Cons a xs)
  then have a: "keeps n I a" and xs: "keeps n I (run_acts xs)" by simp_all
  show ?case
  proof (rule keepsI)
    fix s s' m assume i: "I s" and r: "run_acts (a # xs) s = Some (s', m)" and n: "n \<Longrightarrow> m = None"
    show "I s'"
    proof (rule run_actsE [OF r])
      fix s1 assume "a s = Some (s1, None)" "run_acts xs s1 = Some (s', m)"
      then show "I s'" using keepsD [OF a i] keepsD [OF xs _ _ n] by blast
    qed (use keepsD [OF a i _ n] in blast)
  qed
qed (simp add: keeps_def)

lemma leaves_run [acts]: "list_all (leaves f) xs \<Longrightarrow> leaves f (run_acts xs)"
proof (induction xs)
  case (Cons a xs)
  then have a: "leaves f a" and xs: "leaves f (run_acts xs)" by simp_all
  show ?case
  proof (rule leavesI)
    fix s s' m assume r: "run_acts (a # xs) s = Some (s', m)"
    show "f s' = f s" by (rule run_actsE [OF r]) (use leavesD [OF a] leavesD [OF xs] in metis)+
  qed
qed (simp add: leaves_def)

lemma gains_run: "gains n I a \<Longrightarrow> list_all (keeps n I) xs \<Longrightarrow> gains n I (run_acts (a # xs))"
proof (rule gainsI)
  fix s s' m assume a: "gains n I a" and xs: "list_all (keeps n I) xs" and r: "run_acts (a # xs) s = Some (s', m)" and n: "n \<Longrightarrow> m = None"
  show "I s'"
  proof (rule run_actsE [OF r])
    fix s1 assume "a s = Some (s1, None)" "run_acts xs s1 = Some (s', m)"
    then show "I s'" using gainsD [OF a] keepsD [OF keeps_run [OF xs] _ _ n] by blast
  qed (use gainsD [OF a _ n] in blast)
qed

text \<open>A sequence that does not throw establishes what its last call establishes.\<close>

lemma gains_later: "gains True I (run_acts xs) \<Longrightarrow> xs \<noteq> [] \<Longrightarrow> gains True I (run_acts (a # xs))"
proof (rule gainsI)
  fix s s' m assume g: "gains True I (run_acts xs)" and r: "run_acts (a # xs) s = Some (s', m)" and n: "True \<Longrightarrow> m = None"
  obtain s1 where "run_acts xs s1 = Some (s', None)" using r n by (auto split: option.splits prod.splits)
  then show "I s'" by (rule gainsD [OF g]) simp
qed

lemma gains_only: "gains n I a \<Longrightarrow> gains n I (run_acts [a])"
  unfolding gains_def run_one .

lemma quiet_then_gains: "gains n I (run_acts xs) \<Longrightarrow> gains n I (run_acts (quietly f # xs))"
  by (simp add: gains_def quietly_def)

text \<open>A write of the document may be followed by whatever establishes the property again.\<close>

lemma doc_then_gains: "gains n I (run_acts xs) \<Longrightarrow> keeps n I (run_acts (on_doc E f # xs))"
proof (rule keepsI)
  fix s s' m assume g: "gains n I (run_acts xs)" and i: "I s" and r: "run_acts (on_doc E f # xs) s = Some (s', m)" and n: "n \<Longrightarrow> m = None"
  show "I s'"
  proof (cases "f (work (pg s))")
    case (Ok w)
    then show ?thesis using r gainsD [OF g _ n] by (auto simp: on_doc_def)
  qed (use r i in \<open>simp_all add: on_doc_def\<close>)
qed

lemma keeps_quietly [acts]: "(\<And>s. I s \<Longrightarrow> I (f s)) \<Longrightarrow> keeps n I (quietly f)"
  by (auto simp: keeps_def quietly_def)

lemma moved_gains: "gains n I (render_app E) \<Longrightarrow> keeps n I (move_w E p i d)"
proof (rule keepsI)
  fix s s' m assume g: "gains n I (render_app E)" and i: "I s" and r: "move_w E p i d s = Some (s', m)" and n: "n \<Longrightarrow> m = None"
  show "I s'"
  proof (cases "can_move (getPath p (app_doc s)) i d")
    case True
    then show ?thesis using r keepsD [OF doc_then_gains [OF gains_only [OF g]] i _ n] by (simp add: move_w_def)
  next
    case False
    have "s' = s"
    proof (cases "getPath p (app_doc s)")
      case (JArr vs)
      then show ?thesis using r False by (auto simp: move_w_def on_doc_def on_pg_def moveItem_def can_move_def)
    qed (use r False in \<open>auto simp: move_w_def on_doc_def on_pg_def moveItem_def can_move_def split: if_splits\<close>)
    with i show ?thesis by simp
  qed
qed

section \<open>Invariants of the page\<close>

text \<open>Events whose handlers neither touch the document nor draw the form.\<close>

fun plain_event :: "app_event \<Rightarrow> bool" where
  "plain_event e = (case e of Form _ \<Rightarrow> False | ClickSection _ \<Rightarrow> False | ClickEntity _ _ \<Rightarrow> False | AddEntity _ \<Rightarrow> False | RemoveEntity _ \<Rightarrow> False
     | PickDiagram _ \<Rightarrow> False | ClickNode _ \<Rightarrow> False | ClickIssue _ \<Rightarrow> False | ApplyYaml \<Rightarrow> False | PickTemplate _ \<Rightarrow> False | Clear _ \<Rightarrow> False | _ \<Rightarrow> True)"

text \<open>The runs in which no handler throws.\<close>

definition calm_step :: "app_env \<Rightarrow> app_event \<Rightarrow> app \<Rightarrow> app option" where
  "calm_step E e s = (case app_handler E e s of Some (s', None) \<Rightarrow> Some s' | _ \<Rightarrow> None)"

locale page_invariant =
  fixes E :: app_env and n :: bool and I :: "app \<Rightarrow> bool" and Q :: "app_event \<Rightarrow> bool"
  assumes put: "p \<noteq> [] \<Longrightarrow> keeps n I (put_w E p v)" and del: "p \<noteq> [] \<Longrightarrow> keeps n I (del_w E p)" and move: "keeps n I (move_w E p i d)"
    and status: "keeps n I (draw_status E)" and sidebar: "keeps n I (draw_sidebar E)" and main: "keeps n I (draw_main E)"
    and yaml: "keeps n I (draw_yaml E b)"
    and selected: "I s \<Longrightarrow> I (select k j s)" and tab: "I s \<Longrightarrow> I (s\<lparr>diagramKey := k\<rparr>)" and panel: "I s \<Longrightarrow> I (s\<lparr>issuesOpen := False\<rparr>)"
    and template: "keeps n I (pick_template E d')" and cleared: "keeps n I (clear_draft E)" and applied: "keeps n I (apply_yaml E)"
    and other: "Q e \<Longrightarrow> plain_event e \<Longrightarrow> keeps n I (app_handler E e)"
begin

lemma render: "keeps n I (render_app E)"
  unfolding render_app_def by (simp add: acts status sidebar main yaml)

lemma edited: "edit_path e \<noteq> [] \<Longrightarrow> keeps n I (edit_w E e)"
  by (cases e) (simp_all add: put del)

lemma del_if: "p \<noteq> [] \<Longrightarrow> keeps n I (del_if E g p)"
proof (rule keepsI)
  fix s s' m assume p: "p \<noteq> []" and i: "I s" and r: "del_if E g p s = Some (s', m)" and n: "n \<Longrightarrow> m = None"
  show "I s'" using r i keepsD [OF del [OF p] i _ n] by (auto simp: del_if_def Let_def split: option.splits if_splits)
qed

lemma removed: "p \<noteq> [] \<Longrightarrow> keeps n I (remove_w E p i)" "p \<noteq> [] \<Longrightarrow> keeps n I (remove_key_w E p k)"
  by (simp_all add: remove_w_def remove_key_w_def acts del del_if)

lemma renamed: "keeps n I (rename_w E p k k')"
proof (rule keepsI)
  fix s s' m assume i: "I s" and r: "rename_w E p k k' s = Some (s', m)" and n: "n \<Longrightarrow> m = None"
  have *: "keeps n I (run_acts [del_w E (p @ [KName k]), put_w E (p @ [KName k']) v, render_app E])" for v by (simp add: acts del put render)
  show "I s'" using r i keepsD [OF * i _ n] unfolding rename_w_def by (metis option.inject prod.inject)
qed

lemma form: "(\<And>p. p \<in> set (act_paths a) \<Longrightarrow> p \<noteq> []) \<Longrightarrow> keeps n I (form_w E a)"
  by (cases a) (simp_all add: acts list_all_iff edited render removed renamed move)

lemma section_clicked: "keeps n I (click_section E k i)"
  unfolding click_section_def by (simp add: acts selected main sidebar)

lemma navigated: "keeps n I (navigateTo E p)"
  unfolding navigateTo_def go_to_def
  by (auto simp: acts selected render keeps_def [of _ _ "\<lambda>s. None"] split: list.splits key.splits)

lemma clamp_select: "clamp_idx k s = select (secKey s) (min (selIdx (pg s)) (int (list_len (sub (app_doc s) k)) - 1)) s"
  by (simp add: clamp_idx_def select_def on_pg_def)

lemma entity_added: "keeps n I (add_entity E k)"
proof (rule keepsI)
  fix s s' m assume i: "I s" and r: "add_entity E k s = Some (s', m)" and n: "n \<Longrightarrow> m = None"
  have *: "keeps n I (run_acts [put_w E [KName k, KIdx j] d, quietly (select_last k), render_app E])" for j d
    by (simp add: acts put render selected select_last_def)
  show "I s'" using r i keepsD [OF * i _ n] by (auto simp: add_entity_def split: if_splits option.splits res.splits)
qed

lemma entity_removed: "keeps n I (remove_entity E k)"
proof (rule keepsI)
  fix s s' m assume i: "I s" and r: "remove_entity E k s = Some (s', m)" and n: "n \<Longrightarrow> m = None"
  have *: "keeps n I (run_acts [remove_w E [KName k] j, quietly (clamp_idx k), render_app E])" for j
    by (simp add: acts removed render selected clamp_select)
  show "I s'" using r i keepsD [OF * i _ n] by (auto simp: remove_entity_def split: if_splits)
qed

lemma guarded: "keeps n I a \<Longrightarrow> I s \<Longrightarrow> offered b a s = Some (s', m) \<Longrightarrow> (n \<Longrightarrow> m = None) \<Longrightarrow> I s'"
  using keepsD [of n I a s s' m] by (auto simp: offered_def split: if_splits)

lemma handled: "Q e \<Longrightarrow> I s \<Longrightarrow> app_handler E e s = Some (s', m) \<Longrightarrow> (n \<Longrightarrow> m = None) \<Longrightarrow> I s'"
proof -
  assume q: "Q e" and i: "I s" and h: "app_handler E e s = Some (s', m)" and n: "n \<Longrightarrow> m = None"
  note g = guarded [OF _ i _ n]
  show "I s'"
  proof (cases "plain_event e")
    case True
    show ?thesis by (rule keepsD [OF other [OF q True] i h n])
  next
    case False
    then show ?thesis
    proof (cases e)
      case (Form a)
      then have "in_form (formRoot s) a" using h by (simp add: offered_def split: if_splits)
      then show ?thesis using h g [OF form [OF in_form_paths]] Form by simp
    next
      case (ClickSection k)
      then show ?thesis using h g [OF section_clicked] by simp
    next
      case (ClickEntity k j)
      then show ?thesis using h g [OF section_clicked] by simp
    next
      case (AddEntity k)
      then show ?thesis using h g [OF entity_added] by simp
    next
      case (RemoveEntity yes)
      then show ?thesis using h i keepsD [OF entity_removed i _ n] by (auto split: option.splits if_splits)
    next
      case (PickDiagram k)
      have "keeps n I (run_acts [quietly (\<lambda>s. s\<lparr>diagramKey := k\<rparr>), draw_main E])" by (simp add: acts tab main)
      then show ?thesis using h [unfolded PickDiagram app_handler.simps] by (rule g)
    next
      case (ClickNode x)
      then show ?thesis using h i keepsD [OF navigated i _ n] by (auto split: option.splits)
    next
      case (ClickIssue j)
      have "keeps n I (run_acts [quietly (\<lambda>s. s\<lparr>issuesOpen := False\<rparr>), navigateTo E (ipath (listed s ! j))])"
        by (simp add: acts panel navigated)
      then show ?thesis using h [unfolded ClickIssue app_handler.simps] by (rule g)
    next
      case ApplyYaml
      then show ?thesis using h g [OF applied] by simp
    next
      case (PickTemplate j)
      then show ?thesis using h g [OF template] by simp
    next
      case (Clear yes)
      then show ?thesis using h i keepsD [OF cleared i _ n] by (auto split: if_splits)
    qed simp_all
  qed
qed

lemma run: "\<not> n \<Longrightarrow> run_events (app_step E) es s = Some s' \<Longrightarrow> list_all Q es \<Longrightarrow> I s \<Longrightarrow> I s'"
proof (erule run_events_keeps [rotated])
  fix e t t' assume "\<not> n" "Q e" "I t" "app_step E e t = Some t'"
  then show "I t'" using handled [of e t] by (auto simp: app_step_def)
qed

lemma calm_run: "run_events (calm_step E) es s = Some s' \<Longrightarrow> list_all Q es \<Longrightarrow> I s \<Longrightarrow> I s'"
proof (erule run_events_keeps [rotated])
  fix e t t' assume "Q e" "I t" "calm_step E e t = Some t'"
  then show "I t'" using handled [of e t] by (auto simp: calm_step_def split: option.splits prod.splits)
qed

end

section \<open>Issues and status line\<close>

text \<open>What the drawing of sidebar, form and text leaves alone.\<close>

definition frame :: "app \<Rightarrow> jv \<times> report list \<times> string \<times> string" where
  "frame s = (app_doc s, lastIssues (pg s), barClass s, statusText s)"

lemma frame_on_pg [simp]: "(\<And>p. sdoc (work (f p)) = sdoc (work p) \<and> lastIssues (f p) = lastIssues p) \<Longrightarrow> frame (on_pg f s) = frame s"
  by (simp add: frame_def on_pg_def)

lemma frame_draws [acts]: "leaves frame (draw_sidebar E)" "leaves frame (draw_diagram E)" "leaves frame (draw_form E p)"
  "leaves frame (draw_yaml E b)"
  by (auto simp: leaves_def frame_def on_pg_def draw_sidebar_def draw_diagram_def draw_form_def draw_yaml_def
      split: prod.splits option.splits sum.splits if_splits)

lemma frame_entity [acts]: "leaves frame (draw_entity E k)"
  by (auto simp: leaves_def draw_entity_def draw_form_def Let_def frame_def on_pg_def split: jv.splits list.splits if_splits option.splits)

lemma frame_main [acts]: "leaves frame (draw_main E)"
proof (rule leavesI)
  fix s s' m assume "draw_main E s = Some (s', m)"
  then show "frame s' = frame s"
    using leavesD [OF frame_draws(2)] leavesD [OF frame_draws(3)] leavesD [OF frame_entity]
    by (auto simp: draw_main_def Let_def frame_def split: option.splits if_splits)
qed

text \<open>The issues and the colour of the bar follow the document; with \<open>b\<close>, the text of the bar, too.\<close>

definition live :: "app_env \<Rightarrow> bool \<Rightarrow> app \<Rightarrow> bool" where
  "live E b s = (env_ok (senv E) \<and> lists_ok (app_doc s) \<longrightarrow> validate (senv E) (app_doc s) = Some (Some (lastIssues (pg s))) \<and>
     barClass s = bar_class (lastIssues (pg s)) \<and> (b \<longrightarrow> statusText s = status_text (lastIssues (pg s))))"

lemma live_frame: "frame s' = frame s \<Longrightarrow> live E b s \<Longrightarrow> live E b s'"
  by (simp add: frame_def live_def)

lemma live_draws: "keeps n (live E b) (draw_sidebar E)" "keeps n (live E b) (draw_main E)" "keeps n (live E b) (draw_yaml E f)"
  by (rule leaves_keeps [OF _ live_frame], rule acts, assumption+)+

lemma live_status: "gains n (live E b) (draw_status E)"
proof (rule gainsI)
  fix s s' m assume d: "draw_status E s = Some (s', m)"
  show "live E b s'"
  proof (cases "renderStatus (senv E) (pg s)")
    case None
    then have "env_ok (senv E) \<Longrightarrow> \<not> lists_ok (app_doc s)" using drawn_iff [of "senv E" "pg s"] by simp
    then show ?thesis using d None by (auto simp: draw_status_def live_def)
  next
    case (Some p)
    then have "\<exists>xs. validate (senv E) (app_doc s) = Some (Some xs) \<and> p = (pg s)\<lparr>lastIssues := xs\<rparr>"
      by (auto simp: renderStatus_def split: option.splits)
    then show ?thesis using d Some by (auto simp: draw_status_def live_def)
  qed
qed

lemma live_render: "gains n (live E b) (render_app E)"
  unfolding render_app_def by (rule gains_run [OF live_status]) (simp add: live_draws)

lemma live_soft: "gains n (live E b) (softRender E)"
  unfolding softRender_def by (rule gains_run [OF live_status]) (simp add: live_draws)

lemma live_quietly: "(\<And>s. frame (f s) = frame s) \<Longrightarrow> keeps n (live E b) (quietly f)"
  by (rule keeps_quietly) (rule live_frame)

lemma live_exit: "keeps n (live E b) (exitYamlEdit E c)"
  unfolding exitYamlEdit_def by (auto intro!: keeps_run live_quietly simp: live_draws set_dirty_def)

lemma live_apply: "keeps n (live E b) (apply_yaml E)"
proof (rule keepsI)
  fix s s' m assume i: "live E b s" and r: "apply_yaml E s = Some (s', m)"
  have *: "keeps False (live E b) (apply_doc E d)" for d
    unfolding apply_doc_def
    by (rule gains_keeps, intro quiet_then_gains gains_run [OF live_render]) (simp add: live_exit)
  have "live E b (on_pg (alert t) u) = live E b u" for t u by (simp add: live_def on_pg_def alert_def)
  then show "live E b s'" using r i keepsD [OF * i]
    by (auto simp: apply_yaml_def Let_def split: sum.splits if_splits option.splits prod.splits)
qed

text \<open>The events that lead to a flashing text.\<close>

definition no_copy :: "app_event \<Rightarrow> bool" where
  "no_copy e = (case e of Copy _ \<Rightarrow> False | CopyAnswer _ _ \<Rightarrow> False | CopyOther _ _ \<Rightarrow> False | FlashEnd \<Rightarrow> False | _ \<Rightarrow> True)"

lemma live_other:
  assumes "b \<longrightarrow> no_copy e" and "plain_event e"
  shows "keeps n (live E b) (app_handler E e)"
proof (rule keepsI)
  fix s s' m assume i: "live E b s" and h: "app_handler E e s = Some (s', m)" and n: "n \<Longrightarrow> m = None"
  have y: "live E b s'" if "draw_yaml E c u = Some (s', m)" "live E b u" for c u using keepsD [OF live_draws(3) that(2,1) n] .
  have x: "live E b s'" if "exitYamlEdit E c u = Some (s', m)" "live E b u" for c u using keepsD [OF live_exit that(2,1) n] .
  show "live E b s'"
  proof (cases e)
    case DoneYaml
    have "live E b (set_dirty True s)" by (rule live_frame [OF _ i]) (simp add: set_dirty_def)
    then show ?thesis using h DoneYaml x by (simp add: offered_def quiet_first run_one del: run_acts.simps(2) split: if_splits)
  next
    case RefreshYaml
    have "live E b (set_dirty False s)" by (rule live_frame [OF _ i]) (simp add: set_dirty_def)
    then show ?thesis using h RefreshYaml y by (simp add: quiet_first run_one del: run_acts.simps(2))
  qed (use h i assms in \<open>auto simp: live_def offered_def quietly_def no_copy_def toggleIssues_def enterYamlEdit_def on_pg_def set_dirty_def
      open_templates_def close_templates_def save_timer_def save_now_def download_yaml_def copy_yaml_def copy_answer_def copy_other_def
      fallbackCopy_def flashStatus_def flash_end_def alert_def split: if_splits option.splits list.splits\<close>)
qed

lemma live_replaced: "keeps n (live E b) (pick_template E d)" "keeps n (live E b) (clear_draft E)"
proof -
  have "gains n (live E b) (run_acts [quietly f, quietly g, render_app E, quietly h])" if "\<And>s. frame (h s) = frame s" for f g h
    by (intro quiet_then_gains gains_run [OF live_render]) (simp add: live_quietly that)
  note * = gains_keeps [OF this]
  show "keeps n (live E b) (pick_template E d)" "keeps n (live E b) (clear_draft E)"
    unfolding pick_template_def clear_draft_def by (rule *, simp add: frame_def close_templates_def open_templates_def)+
qed

lemma live_edits: "keeps n (live E b) (put_w E p v)" "keeps n (live E b) (del_w E p)" "keeps n (live E b) (move_w E p i d)"
  unfolding put_w_def del_w_def by (rule doc_then_gains gains_only live_soft moved_gains live_render)+

interpretation live: page_invariant E n "live E b" "\<lambda>e. b \<longrightarrow> no_copy e" for E n b
proof unfold_locales
  show "keeps n (live E b) (draw_status E)" by (rule gains_keeps [OF live_status])
  fix s k j assume l: "live E b s"
  show "live E b (select k j s)" by (rule live_frame [OF _ l]) (simp add: frame_def select_def on_pg_def)
  show "live E b (s\<lparr>diagramKey := k\<rparr>)" "live E b (s\<lparr>issuesOpen := False\<rparr>)" by (rule live_frame [OF _ l], simp add: frame_def)+
qed (rule live_edits live_draws live_replaced live_apply live_other; assumption)+

text \<open>The first drawing.\<close>

lemma boot_appE:
  assumes "boot_app E saved = Some s"
  obtains m where "run_acts [render_app E, first_templates E] (blank_app saved) = Some (s, m)"
  using assms by (auto simp: boot_app_def simp del: run_acts.simps)

lemma first_keeps: "leaves frame (first_templates E)"
  by (auto simp: leaves_def frame_def first_templates_def open_templates_def split: option.splits)

lemma live_boot: "boot_app E saved = Some s \<Longrightarrow> live E b s"
proof (erule boot_appE)
  fix m assume "run_acts [render_app E, first_templates E] (blank_app saved) = Some (s, m)"
  moreover have "gains False (live E b) (run_acts [render_app E, first_templates E])"
    by (rule gains_run [OF live_render]) (simp add: leaves_keeps [OF first_keeps live_frame])
  ultimately show ?thesis by (blast dest: gainsD)
qed

lemma app_runE:
  assumes "app_run E saved es = Some s"
  obtains s0 where "boot_app E saved = Some s0" "run_events (app_step E) es s0 = Some s"
  using assms by (auto simp: app_run_def split: option.splits)

lemma run_live: "app_run E saved es = Some s \<Longrightarrow> list_all (\<lambda>e. b \<longrightarrow> no_copy e) es \<Longrightarrow> live E b s"
  by (erule app_runE) (rule live.run [OF _ _ _ live_boot], auto)

section \<open>The draft\<close>

text \<open>
  The draft is on its way to the storage, or there, or it is still the one that was loaded. The storage holds what
  \<open>JSON.stringify\<close> made of the document.
\<close>

definition draft :: "string option \<Rightarrow> app \<Rightarrow> bool" where
  "draft saved s = (let w = work (pg s) in saveDue w \<or> stored w = Some (js_string (opt_text (json_compact (sdoc w)))) \<or>
     (stored w = saved \<and> sdoc w = load_doc saved))"

definition work_of :: "app \<Rightarrow> studio" where
  "work_of s = work (pg s)"

lemma draft_work: "work_of s' = work_of s \<Longrightarrow> draft saved s \<Longrightarrow> draft saved s'"
  by (simp add: draft_def work_of_def)

lemma draft_due: "saveDue (work_of s) \<Longrightarrow> draft saved s"
  by (simp add: draft_def work_of_def Let_def)

lemma work_draws [acts]: "leaves work_of (draw_sidebar E)" "leaves work_of (draw_diagram E)" "leaves work_of (draw_form E p)"
  "leaves work_of (draw_yaml E b)" "leaves work_of (draw_status E)" "leaves work_of (draw_entity E k)"
  by (auto simp: leaves_def work_of_def on_pg_def draw_sidebar_def draw_diagram_def draw_form_def draw_yaml_def draw_status_def renderStatus_def
      draw_entity_def Let_def split: prod.splits option.splits sum.splits if_splits jv.splits list.splits)

lemma work_main [acts]: "leaves work_of (draw_main E)"
proof (rule leavesI)
  fix s s' m assume "draw_main E s = Some (s', m)"
  then show "work_of s' = work_of s"
    using leavesD [OF work_draws(2)] leavesD [OF work_draws(3)] leavesD [OF work_draws(6)]
    by (auto simp: draw_main_def Let_def work_of_def split: option.splits if_splits)
qed

lemma work_quietly: "(\<And>s. work_of (f s) = work_of s) \<Longrightarrow> leaves work_of (quietly f)"
  by (auto simp: leaves_def quietly_def)

lemma work_render [acts]: "leaves work_of (render_app E)" "leaves work_of (softRender E)" "leaves work_of (exitYamlEdit E c)"
proof -
  show "leaves work_of (render_app E)" "leaves work_of (softRender E)"
    unfolding render_app_def softRender_def by (rule leaves_run, simp add: acts)+
  show "leaves work_of (exitYamlEdit E c)"
    unfolding exitYamlEdit_def by (rule leaves_run) (simp add: acts work_quietly work_of_def on_pg_def set_dirty_def)
qed

lemma draft_leaves: "leaves work_of a \<Longrightarrow> keeps n (draft saved) a"
  by (rule leaves_keeps [OF _ draft_work])

lemma draft_on_doc: "(\<And>w w'. f w = Ok w' \<Longrightarrow> w' = w \<or> saveDue w') \<Longrightarrow> keeps n (draft saved) (on_doc E f)"
proof (rule keepsI)
  fix s s' m assume f: "\<And>w w'. f w = Ok w' \<Longrightarrow> w' = w \<or> saveDue w'" and i: "draft saved s" and r: "on_doc E f s = Some (s', m)"
  show "draft saved s'"
  proof (cases "f (work (pg s))")
    case (Ok w)
    have s': "s' = on_pg (\<lambda>p. p\<lparr>work := w\<rparr>) s" using Ok r by (simp add: on_doc_def)
    show ?thesis using f [OF Ok]
    proof
      assume "w = work (pg s)"
      then show ?thesis using i s' by (simp add: on_pg_def)
    next
      assume "saveDue w"
      then show ?thesis using s' by (intro draft_due) (simp add: work_of_def on_pg_def)
    qed
  qed (use r i in \<open>simp_all add: on_doc_def\<close>)
qed

lemma writes_due: "p \<noteq> [] \<Longrightarrow> setPath p v w = Ok w' \<Longrightarrow> saveDue w'" "p \<noteq> [] \<Longrightarrow> delPath p w = Ok w' \<Longrightarrow> w' = w \<or> saveDue w'"
  "moveItem p i d w = Ok w' \<Longrightarrow> w' = w \<or> saveDue w'"
proof -
  show "p \<noteq> [] \<Longrightarrow> setPath p v w = Ok w' \<Longrightarrow> saveDue w'"
    by (cases "set_at p v (sdoc w)") (auto simp: setPath_def persist_def)
  show "p \<noteq> [] \<Longrightarrow> delPath p w = Ok w' \<Longrightarrow> w' = w \<or> saveDue w'"
    by (cases "del_at p (sdoc w)") (auto simp: delPath_def persist_def split: option.splits)
  show "w' = w \<or> saveDue w'" if m: "moveItem p i d w = Ok w'"
  proof (cases "getPath p (sdoc w)")
    case (JArr vs)
    show ?thesis using m JArr
      by (cases "set_at p (JArr (vs[i := vs ! nat (int i + d), nat (int i + d) := vs ! i])) (sdoc w)")
         (auto simp: moveItem_def persist_def Let_def split: if_splits)
  qed (use m in \<open>auto simp: moveItem_def split: if_splits\<close>)
qed

lemma draft_edits:
  "p \<noteq> [] \<Longrightarrow> keeps n (draft saved) (put_w E p v)" "p \<noteq> [] \<Longrightarrow> keeps n (draft saved) (del_w E p)" "keeps n (draft saved) (move_w E p i d)"
proof -
  have *: "keeps n (draft saved) (run_acts (on_doc E f # xs))"
    if "\<And>w w'. f w = Ok w' \<Longrightarrow> w' = w \<or> saveDue w'" "list_all (keeps n (draft saved)) xs" for f xs
    by (rule keeps_run) (simp add: draft_on_doc that)
  show "p \<noteq> [] \<Longrightarrow> keeps n (draft saved) (put_w E p v)" "p \<noteq> [] \<Longrightarrow> keeps n (draft saved) (del_w E p)"
    unfolding put_w_def del_w_def by (rule *, blast dest: writes_due, simp add: draft_leaves acts)+
  have m: "keeps n (draft saved) (run_acts (on_doc E (moveItem p i d) # (if c then [render_app E] else [])))" for c
    by (rule *, blast dest: writes_due, simp add: draft_leaves acts)
  show "keeps n (draft saved) (move_w E p i d)"
  proof (rule keepsI)
    fix s s' k assume "draft saved s" "move_w E p i d s = Some (s', k)" "n \<Longrightarrow> k = None"
    then show "draft saved s'" unfolding move_w_def by (rule keepsD [OF m])
  qed
qed

lemma draft_replace: "draft saved (replace_doc d s)"
  by (rule draft_due) (simp add: work_of_def replace_doc_def on_pg_def persist_def)

lemma draft_quietly: "(\<And>s. work_of (f s) = work_of s) \<Longrightarrow> keeps n (draft saved) (quietly f)"
  by (rule draft_leaves [OF work_quietly])

lemma draft_replaced: "keeps n (draft saved) (pick_template E d)" "keeps n (draft saved) (clear_draft E)" "keeps n (draft saved) (apply_doc E d)"
  unfolding pick_template_def clear_draft_def apply_doc_def
  by (rule keeps_run; simp add: draft_leaves acts keeps_quietly draft_replace draft_quietly work_of_def select_start_def select_def
      open_templates_def close_templates_def on_pg_def)+

lemma draft_apply: "keeps n (draft saved) (apply_yaml E)"
proof (rule keepsI)
  fix s s' m assume i: "draft saved s" and r: "apply_yaml E s = Some (s', m)"
  have "draft saved (on_pg (alert t) u) = draft saved u" for t u by (simp add: draft_def on_pg_def alert_def)
  then show "draft saved s'" using r i keepsD [OF draft_replaced(3) [of False] i]
    by (auto simp: apply_yaml_def Let_def split: sum.splits if_splits option.splits prod.splits)
qed

lemma draft_other:
  assumes "e \<noteq> SaveTimer False" and "plain_event e"
  shows "keeps n (draft saved) (app_handler E e)"
proof (rule keepsI)
  fix s s' m assume i: "draft saved s" and h: "app_handler E e s = Some (s', m)"
  have same: "work_of s' = work_of s \<Longrightarrow> draft saved s'" by (rule draft_work [OF _ i])
  show "draft saved s'"
  proof (cases e)
    case DoneYaml
    then have "exitYamlEdit E False (set_dirty True s) = Some (s', m)"
      using h by (simp add: offered_def quiet_first run_one del: run_acts.simps(2) split: if_splits)
    then show ?thesis using leavesD [OF work_render(3)] by (intro same) (force simp: work_of_def set_dirty_def on_pg_def)
  next
    case RefreshYaml
    then have "draw_yaml E True (set_dirty False s) = Some (s', m)" using h by (simp add: quiet_first run_one del: run_acts.simps(2))
    then show ?thesis using leavesD [OF work_draws(4)] by (intro same) (force simp: work_of_def set_dirty_def on_pg_def)
  next
    case (SaveTimer ok)
    then show ?thesis using h assms by (auto simp: offered_def quietly_def draft_def save_timer_def save_now_def on_pg_def split: if_splits)
  qed (use h assms in \<open>auto intro!: same simp: work_of_def offered_def quietly_def toggleIssues_def enterYamlEdit_def on_pg_def set_dirty_def
      open_templates_def close_templates_def download_yaml_def copy_yaml_def copy_answer_def copy_other_def
      fallbackCopy_def flashStatus_def flash_end_def alert_def split: if_splits option.splits list.splits\<close>)
qed

lemmas draft_draws = work_draws(1) [THEN draft_leaves] work_draws(4) [THEN draft_leaves] work_draws(5) [THEN draft_leaves] work_main [THEN draft_leaves]

interpretation kept: page_invariant E n "draft saved" "\<lambda>e. e \<noteq> SaveTimer False" for E n saved
proof unfold_locales
  fix s k j assume l: "draft saved s"
  show "draft saved (select k j s)" by (rule draft_work [OF _ l]) (simp add: work_of_def select_def on_pg_def)
  show "draft saved (s\<lparr>diagramKey := k\<rparr>)" "draft saved (s\<lparr>issuesOpen := False\<rparr>)" by (rule draft_work [OF _ l], simp add: work_of_def)+
qed (rule draft_edits draft_draws draft_replaced draft_apply draft_other; assumption)+

lemma work_first: "leaves work_of (first_templates E)"
  by (auto simp: leaves_def work_of_def first_templates_def open_templates_def split: option.splits)

lemma draft_boot: "boot_app E saved = Some s \<Longrightarrow> draft saved s"
proof (erule boot_appE)
  fix m assume "run_acts [render_app E, first_templates E] (blank_app saved) = Some (s, m)"
  moreover have "keeps False (draft saved) (run_acts [render_app E, first_templates E])"
    by (intro keeps_run) (simp add: draft_leaves acts work_first)
  moreover have "draft saved (blank_app saved)" by (simp add: draft_def blank_app_def boot_studio_def)
  ultimately show ?thesis by (blast dest: keepsD)
qed

section \<open>The YAML pane\<close>

text \<open>
  Unless text was typed that is not applied, the pane, its text area and the line below show the document; this is
  about pages that have not shown a message, because \<open>applyYaml\<close> turns what a drawing throws into one.
\<close>

definition pane :: "app \<Rightarrow> bool" where
  "pane s = (alerts (pg s) = [] \<longrightarrow> \<not> yamlDirty (pg s) \<longrightarrow> docToYaml (app_doc s) = Some (shownYaml s) \<and>
     editYaml s = shownYaml s \<and> footText s = foot_text (app_doc s) (shownYaml s))"

definition pane_view :: "app \<Rightarrow> jv \<times> string list \<times> bool \<times> string \<times> string \<times> string" where
  "pane_view s = (app_doc s, alerts (pg s), yamlDirty (pg s), shownYaml s, editYaml s, footText s)"

lemma pane_same: "pane_view s' = pane_view s \<Longrightarrow> pane s \<Longrightarrow> pane s'"
  by (simp add: pane_def pane_view_def)

lemma view_draws [acts]: "leaves pane_view (draw_sidebar E)" "leaves pane_view (draw_diagram E)" "leaves pane_view (draw_form E p)"
  "leaves pane_view (draw_status E)" "leaves pane_view (draw_entity E k)"
  by (auto simp: leaves_def pane_view_def on_pg_def draw_sidebar_def draw_diagram_def draw_form_def draw_status_def renderStatus_def
      draw_entity_def Let_def split: prod.splits option.splits sum.splits if_splits jv.splits list.splits)

lemma view_main [acts]: "leaves pane_view (draw_main E)"
proof (rule leavesI)
  fix s s' m assume "draw_main E s = Some (s', m)"
  then show "pane_view s' = pane_view s"
    using leavesD [OF view_draws(2)] leavesD [OF view_draws(3)] leavesD [OF view_draws(5)]
    by (auto simp: draw_main_def Let_def pane_view_def split: option.splits if_splits)
qed

lemma pane_quietly: "(\<And>s. pane_view (f s) = pane_view s) \<Longrightarrow> keeps n pane (quietly f)"
  by (rule keeps_quietly) (rule pane_same)

lemma yaml_gains: "gains True pane (draw_yaml E b)"
  by (auto simp: gains_def pane_def draw_yaml_def on_pg_def split: if_splits option.splits)

lemma pane_gains: "gains True pane (softRender E)" "gains True pane (render_app E)" "gains True pane (exitYamlEdit E c)"
  unfolding softRender_def render_app_def exitYamlEdit_def by (intro gains_later gains_only yaml_gains; simp)+

lemma pane_edits: "keeps True pane (put_w E p v)" "keeps True pane (del_w E p)" "keeps True pane (move_w E p i d)"
  unfolding put_w_def del_w_def by (rule doc_then_gains gains_only pane_gains moved_gains)+

lemma pane_replaced: "keeps True pane (pick_template E d)" "keeps True pane (clear_draft E)"
proof -
  have "gains True pane (run_acts [quietly f, quietly g, render_app E, quietly h])" if "\<And>s. pane_view (h s) = pane_view s" for f g h
    by (intro quiet_then_gains gains_run [OF pane_gains(2)]) (simp add: pane_quietly that)
  note * = gains_keeps [OF this]
  show "keeps True pane (pick_template E d)" "keeps True pane (clear_draft E)"
    unfolding pick_template_def clear_draft_def by (rule *, simp add: pane_view_def close_templates_def open_templates_def)+
qed

lemma pane_alerted: "pane (on_pg (alert t) s)"
  by (simp add: pane_def on_pg_def alert_def)

lemma pane_apply: "keeps True pane (apply_yaml E)"
proof (rule keepsI)
  fix s s' m assume r: "apply_yaml E s = Some (s', m)"
  have *: "gains True pane (apply_doc E d)" for d
    unfolding apply_doc_def by (intro gains_later gains_only pane_gains; simp)
  show "pane s'" using r gainsD [OF *] pane_alerted
    by (auto simp: apply_yaml_def Let_def split: sum.splits if_splits option.splits prod.splits)
qed

lemma pane_other:
  assumes "plain_event e"
  shows "keeps True pane (app_handler E e)"
proof (rule keepsI)
  fix s s' m assume i: "pane s" and h: "app_handler E e s = Some (s', m)" and n: "True \<Longrightarrow> m = None"
  show "pane s'"
  proof (cases e)
    case DoneYaml
    then have "exitYamlEdit E False (set_dirty True s) = Some (s', m)"
      using h by (simp add: offered_def quiet_first run_one del: run_acts.simps(2) split: if_splits)
    then show ?thesis by (rule gainsD [OF pane_gains(3) _ n])
  next
    case RefreshYaml
    then have "draw_yaml E True (set_dirty False s) = Some (s', m)" using h by (simp add: quiet_first run_one del: run_acts.simps(2))
    then show ?thesis by (rule gainsD [OF yaml_gains _ n])
  next
    case (TypeYaml t)
    then show ?thesis using h by (auto simp: offered_def quietly_def pane_def set_dirty_def on_pg_def split: if_splits)
  qed (use h assms i in \<open>auto simp: offered_def quietly_def toggleIssues_def enterYamlEdit_def on_pg_def
      set_dirty_def open_templates_def close_templates_def download_yaml_def copy_yaml_def copy_answer_def copy_other_def save_timer_def save_now_def
      fallbackCopy_def flashStatus_def flash_end_def alert_def pane_def split: if_splits option.splits list.splits\<close>)
qed

lemmas pane_draws = view_draws(1) [THEN leaves_keeps [OF _ pane_same]] view_draws(4) [THEN leaves_keeps [OF _ pane_same]]
  view_main [THEN leaves_keeps [OF _ pane_same]] gains_keeps [OF yaml_gains]

interpretation panes: page_invariant E True pane "\<lambda>e. True" for E
proof unfold_locales
  fix s k j assume l: "pane s"
  show "pane (select k j s)" by (rule pane_same [OF _ l]) (simp add: pane_view_def select_def on_pg_def)
  show "pane (s\<lparr>diagramKey := k\<rparr>)" "pane (s\<lparr>issuesOpen := False\<rparr>)" by (rule pane_same [OF _ l], simp add: pane_view_def)+
qed (rule pane_edits pane_draws pane_replaced pane_apply pane_other; assumption)+

text \<open>A first drawing that does not throw.\<close>

definition calm_boot :: "app_env \<Rightarrow> string option \<Rightarrow> app option" where
  "calm_boot E saved = (case run_acts [render_app E, first_templates E] (blank_app saved) of Some (s, None) \<Rightarrow> Some s | _ \<Rightarrow> None)"

lemma pane_boot: "calm_boot E saved = Some s \<Longrightarrow> pane s"
proof -
  assume "calm_boot E saved = Some s"
  then have "run_acts [render_app E, first_templates E] (blank_app saved) = Some (s, None)"
    by (auto simp: calm_boot_def split: option.splits prod.splits simp del: run_acts.simps)
  moreover have "leaves pane_view (first_templates E)"
    by (auto simp: leaves_def pane_view_def first_templates_def open_templates_def split: option.splits)
  then have "gains True pane (run_acts [render_app E, first_templates E])"
    by (intro gains_run [OF pane_gains(2)]) (simp add: leaves_keeps [OF _ pane_same])
  ultimately show ?thesis by (blast dest: gainsD)
qed

end
