(* ===== verification/Studio_Help.thy ===== *)
theory Studio_Help
  imports Studio_Session
begin

text \<open>
  What config studio's help page says, as properties of all sessions: the status bar is always live, the YAML pane is always in
  sync, drafts are saved, a click on an issue jumps to the field; and where this is not so. The properties rest on the
  invariants of \<open>Studio_Session\<close>.
\<close>

section \<open>Example\<close>

text \<open>A page whose YAML library reads as \<open>read_yaml\<close> and whose forms can be drawn.\<close>

definition yaml_lib :: "string \<Rightarrow> string + jv" where
  "yaml_lib t = (case read_yaml t of None \<Rightarrow> Inl ''bad indentation'' | Some v \<Rightarrow> Inr v)"

definition app_demo :: app_env where
  "app_demo = \<lparr>senv = studio_demo, forms = (\<lambda>s. None), load_yaml = yaml_lib, type_err = ''not a function'', has_mermaid = True, has_clipboard = True\<rparr>"

lemma app_demo_ok: "env_ok (senv app_demo)"
  by (simp add: app_demo_def studio_demo_ok)

text \<open>A new route, and a service for it that is not there.\<close>

definition demo_put :: app_event where
  "demo_put = Form (Leaf [Put [KName ''routes'', KIdx 0, KName ''service''] (JStr ''w'')])"

definition demo_session :: "app_event list" where
  "demo_session = [AddEntity ''routes'', demo_put]"

definition demo_ok :: "app \<Rightarrow> bool" where
  "demo_ok s = (renderStatus studio_demo (pg s) \<noteq> None \<and> statusText s = ''1 error(s), 1 warning(s) - click for details'' \<and>
     shownYaml s = ''routes:'' @ nl @ ''  - service: w'' @ nl \<and> formRoot s = Some [KName ''routes'', KIdx 0] \<and>
     json_ok (app_doc s) \<and> saveDue (work (pg s)) \<and> alerts (pg s) = [] \<and> flashes s = [] \<and> \<not> yamlDirty (pg s))"

lemma demo_session_runs: "case app_run app_demo None demo_session of None \<Rightarrow> False | Some s \<Rightarrow> demo_ok s"
  by code_simp

lemma demo_session_calm: "case calm_boot app_demo None of None \<Rightarrow> False | Some s0 \<Rightarrow>
    (case run_events (calm_step app_demo) demo_session s0 of None \<Rightarrow> False | Some s \<Rightarrow> demo_ok s)"
  by code_simp

lemma demo_state: "\<exists>s. app_run app_demo None demo_session = Some s \<and> demo_ok s \<and> lists_ok (app_doc s)"
proof -
  obtain s where s: "app_run app_demo None demo_session = Some s" "demo_ok s" using demo_session_runs by (auto split: option.splits)
  then have "lists_ok (app_doc s)" using drawn_iff [OF studio_demo_ok, of "pg s"] by (auto simp: demo_ok_def)
  with s show ?thesis by blast
qed

section \<open>Status bar\<close>

text \<open>
  C22. In every session the list of issues and the colour of the bar are those of the current document, and, as long as nothing is
  copied, so is the text of the bar. The documents excepted are those on which the check itself throws.
\<close>

theorem status_bar_live:
  assumes "env_ok (senv E)" and "app_run E saved es = Some s" and "lists_ok (app_doc s)"
  shows "\<exists>xs. validate (senv E) (app_doc s) = Some (Some xs) \<and> lastIssues (pg s) = xs \<and> barClass s = bar_class xs \<and>
    (list_all no_copy es \<longrightarrow> statusText s = status_text xs)"
  using run_live [OF assms(2), of False] run_live [OF assms(2), of True] assms(1,3) by (auto simp: live_def list.pred_True)

theorem status_bar_live_witness:
  "\<exists>s xs. app_run app_demo None demo_session = Some s \<and> validate studio_demo (app_doc s) = Some (Some xs) \<and>
    status_text xs = ''1 error(s), 1 warning(s) - click for details''"
proof -
  obtain s where s: "app_run app_demo None demo_session = Some s" "demo_ok s" "lists_ok (app_doc s)" using demo_state by blast
  have "list_all no_copy demo_session" by (simp add: demo_session_def demo_put_def no_copy_def)
  then show ?thesis using status_bar_live [OF app_demo_ok s(1,3)] s(1,2) by (auto simp: demo_ok_def app_demo_def)
qed

text \<open>What a flashing text does to the list of texts to put back.\<close>

definition flash_view :: "app \<Rightarrow> string list" where
  "flash_view s = flashes s"

lemma flash_draws [acts]: "leaves flash_view (draw_sidebar E)" "leaves flash_view (draw_diagram E)" "leaves flash_view (draw_form E p)"
  "leaves flash_view (draw_yaml E b)" "leaves flash_view (draw_status E)" "leaves flash_view (draw_entity E k)"
  by (auto simp: leaves_def flash_view_def on_pg_def draw_sidebar_def draw_diagram_def draw_form_def draw_yaml_def draw_status_def
      draw_entity_def Let_def split: prod.splits option.splits sum.splits if_splits jv.splits list.splits)

lemma flash_main [acts]: "leaves flash_view (draw_main E)"
proof (rule leavesI)
  fix s s' m assume "draw_main E s = Some (s', m)"
  then show "flash_view s' = flash_view s"
    using leavesD [OF flash_draws(2)] leavesD [OF flash_draws(3)] leavesD [OF flash_draws(6)]
    by (auto simp: draw_main_def Let_def flash_view_def split: option.splits if_splits)
qed

lemma flash_quietly [acts]: "(\<And>s. flash_view (f s) = flash_view s) \<Longrightarrow> leaves flash_view (quietly f)"
  by (auto simp: leaves_def quietly_def)

lemma flash_on_pg [simp]: "flash_view (on_pg f s) = flash_view s"
  by (simp add: flash_view_def on_pg_def)

lemma flash_on_doc [acts]: "leaves flash_view (on_doc E f)"
  by (auto simp: leaves_def on_doc_def split: res.splits)

lemma flash_render [acts]: "leaves flash_view (render_app E)" "leaves flash_view (softRender E)" "leaves flash_view (exitYamlEdit E c)"
  unfolding render_app_def softRender_def exitYamlEdit_def by (rule leaves_run, simp add: acts set_dirty_def)+

lemma flash_same [simp]: "flash_view (select k i s) = flash_view s" "flash_view (select_start s) = flash_view s"
  "flash_view (replace_doc d s) = flash_view s" "flash_view (open_templates s) = flash_view s" "flash_view (close_templates s) = flash_view s"
  by (simp_all add: flash_view_def select_def select_start_def replace_doc_def open_templates_def close_templates_def on_pg_def)

lemma flash_acts [acts]: "leaves flash_view (put_w E p v)" "leaves flash_view (del_w E p)" "leaves flash_view (pick_template E d)"
  "leaves flash_view (clear_draft E)" "leaves flash_view (apply_doc E d)"
  unfolding put_w_def del_w_def pick_template_def clear_draft_def apply_doc_def
  by (rule leaves_run, simp add: acts)+

definition pending :: "string list \<Rightarrow> app \<Rightarrow> bool" where
  "pending fl s = (flash_view s = fl)"

lemma pending_leaves: "leaves flash_view a \<Longrightarrow> keeps n (pending fl) a"
  by (erule leaves_keeps) (simp only: pending_def)

lemma flash_move: "leaves flash_view (move_w E p i d)"
proof (rule leavesI)
  fix s s' m assume r: "move_w E p i d s = Some (s', m)"
  have *: "leaves flash_view (run_acts (on_doc E (moveItem p i d) # (if c then [render_app E] else [])))" for c
    by (rule leaves_run) (simp add: acts)
  show "flash_view s' = flash_view s" by (rule leavesD [OF * r [unfolded move_w_def]])
qed

lemma flash_apply: "leaves flash_view (apply_yaml E)"
proof (rule leavesI)
  fix s s' m assume r: "apply_yaml E s = Some (s', m)"
  show "flash_view s' = flash_view s" using r leavesD [OF flash_acts(5)]
    by (auto simp: apply_yaml_def Let_def split: sum.splits if_splits option.splits prod.splits)
qed

lemma flash_other:
  assumes "no_copy e" and "plain_event e"
  shows "leaves flash_view (app_handler E e)"
proof (rule leavesI)
  fix s s' m assume h: "app_handler E e s = Some (s', m)"
  show "flash_view s' = flash_view s"
  proof (cases e)
    case DoneYaml
    then have "exitYamlEdit E False (set_dirty True s) = Some (s', m)"
      using h by (simp add: offered_def quiet_first run_one del: run_acts.simps(2) split: if_splits)
    then show ?thesis using leavesD [OF flash_render(3)] by (force simp: set_dirty_def)
  next
    case RefreshYaml
    then have "draw_yaml E True (set_dirty False s) = Some (s', m)" using h by (simp add: quiet_first run_one del: run_acts.simps(2))
    then show ?thesis using leavesD [OF flash_draws(4)] by (force simp: set_dirty_def)
  qed (use h assms in \<open>auto simp: flash_view_def offered_def quietly_def no_copy_def toggleIssues_def enterYamlEdit_def on_pg_def set_dirty_def
      open_templates_def close_templates_def download_yaml_def save_timer_def split: if_splits option.splits list.splits\<close>)
qed

lemmas pending_acts = flash_acts [THEN pending_leaves] flash_draws [THEN pending_leaves] flash_main [THEN pending_leaves]
  flash_move [THEN pending_leaves] flash_apply [THEN pending_leaves]

interpretation flashing: page_invariant E n "pending fl" no_copy for E n fl
  by unfold_locales (rule pending_acts pending_leaves [OF flash_other]; assumption | simp add: pending_def flash_view_def select_def on_pg_def)+

text \<open>
  C29. The end of a flashing text puts back what the bar showed before it, whatever was edited in between: the text can contradict
  the issues and the colour of the bar. Two copies in a row leave the first note in the bar, and so does a single copy
  where the browser has no clipboard interface.
\<close>

theorem flash_brings_back_old_text:
  assumes "flashes s = []"
  shows "(has_clipboard E \<and> list_all no_copy es \<and> run_events (app_step E) (CopyOther m t # es @ [FlashEnd]) s = Some s' \<longrightarrow> statusText s' = statusText s) \<and>
    (has_clipboard E \<and> run_events (app_step E) [CopyOther m t, CopyOther m' t', FlashEnd, FlashEnd] s = Some s' \<longrightarrow> statusText s' = m \<and> flashes s' = []) \<and>
    (\<not> has_clipboard E \<and> run_events (app_step E) [CopyOther m False, FlashEnd, FlashEnd] s = Some s' \<longrightarrow> statusText s' = copied_note \<and> flashes s' = [])"
proof (intro conjI impI; elim conjE)
  assume c: "has_clipboard E" and q: "list_all no_copy es" and r: "run_events (app_step E) (CopyOther m t # es @ [FlashEnd]) s = Some s'"
  obtain s1 where s1: "app_step E (CopyOther m t) s = Some s1" "run_events (app_step E) (es @ [FlashEnd]) s1 = Some s'"
    using r by (rule run_events_ConsE)
  have p1: "pending [statusText s] s1"
    using s1(1) c assms by (auto simp: app_step_def offered_def quietly_def copy_other_def flashStatus_def pending_def flash_view_def split: if_splits)
  obtain s2 where s2: "run_events (app_step E) es s1 = Some s2" "app_step E FlashEnd s2 = Some s'"
    using s1(2) by (auto simp: run_events_append split: option.splits)
  have "pending [statusText s] s2" by (rule flashing.run [where n = False, OF _ s2(1) q p1]) simp
  then show "statusText s' = statusText s" using s2(2) by (auto simp: app_step_def flash_end_def pending_def flash_view_def)
qed (use assms in \<open>auto simp: app_step_def offered_def quietly_def copy_other_def fallbackCopy_def flashStatus_def flash_end_def split: if_splits\<close>)

text \<open>A note is copied, a route is added, the note goes: the bar calls a configuration valid that has a warning.\<close>

definition flash_session :: "app_event list" where
  "flash_session = [CopyOther ''copied: dwara validate dwara.yaml'' False, AddEntity ''routes'', FlashEnd]"

lemma flash_session_runs: "case boot_app app_demo None of None \<Rightarrow> False | Some s \<Rightarrow> flashes s = [] \<and> statusText s = ''valid config'' \<and>
    (case run_events (app_step app_demo) flash_session s of None \<Rightarrow> False | Some s' \<Rightarrow> barClass s' = ''warn'')"
  by code_simp

theorem flash_brings_back_old_text_witness:
  "\<exists>s s'. boot_app app_demo None = Some s \<and> run_events (app_step app_demo) flash_session s = Some s' \<and>
    statusText s' = ''valid config'' \<and> barClass s' = ''warn''"
proof -
  obtain s s' where s: "boot_app app_demo None = Some s" "flashes s = []" "statusText s = ''valid config''"
    "run_events (app_step app_demo) flash_session s = Some s'" "barClass s' = ''warn''"
    using flash_session_runs by (auto split: option.splits)
  have "run_events (app_step app_demo) (CopyOther ''copied: dwara validate dwara.yaml'' False # [AddEntity ''routes''] @ [FlashEnd]) s = Some s'"
    using s(4) by (simp add: flash_session_def)
  moreover have "has_clipboard app_demo" "list_all no_copy [AddEntity ''routes'']" by (simp_all add: app_demo_def no_copy_def)
  ultimately have "statusText s' = statusText s" using flash_brings_back_old_text [OF s(2)] by blast
  with s show ?thesis by auto
qed

section \<open>YAML pane and draft\<close>

text \<open>
  C24. In every session without an exception or a message, the pane shows the text of the document, and the text area holds it, unless
  text was typed that is not applied.
\<close>

theorem yaml_pane_in_sync:
  assumes "calm_boot E saved = Some s0" and "run_events (calm_step E) es s0 = Some s" and "alerts (pg s) = []"
  shows "yamlDirty (pg s) \<or> docToYaml (app_doc s) = Some (shownYaml s) \<and> editYaml s = shownYaml s \<and> footText s = foot_text (app_doc s) (shownYaml s)"
  using panes.calm_run [OF assms(2) _ pane_boot [OF assms(1)]] assms(3) by (auto simp: pane_def list.pred_True)

theorem yaml_pane_in_sync_witness:
  "\<exists>s0 s. calm_boot app_demo None = Some s0 \<and> run_events (calm_step app_demo) demo_session s0 = Some s \<and>
    docToYaml (app_doc s) = Some (''routes:'' @ nl @ ''  - service: w'' @ nl)"
proof -
  obtain s0 s where s: "calm_boot app_demo None = Some s0" "run_events (calm_step app_demo) demo_session s0 = Some s" "demo_ok s"
    using demo_session_calm by (auto split: option.splits)
  then show ?thesis using yaml_pane_in_sync [OF s(1,2)] by (auto simp: demo_ok_def)
qed



section \<open>Typed text\<close>

text \<open>Text in the text area that is not applied, with what the pane shows beside it.\<close>

definition typed :: "string \<Rightarrow> string \<Rightarrow> app \<Rightarrow> bool" where
  "typed t y s = (yamlDirty (pg s) \<and> editYaml s = t \<and> shownYaml s = y)"

lemma typed_soft: "keeps n (typed t y) (softRender E)"
proof -
  have "keeps n (typed t y) (draw_status E)" "keeps n (typed t y) (draw_sidebar E)" "keeps n (typed t y) (draw_yaml E False)"
    by (auto simp: keeps_def typed_def draw_status_def renderStatus_def draw_sidebar_def draw_yaml_def split: option.splits prod.splits)
  then show ?thesis unfolding softRender_def by (intro keeps_run) simp
qed

lemma typed_edit: "keeps n (typed t y) (edit_w E e)"
proof -
  have "keeps n (typed t y) (on_doc E f)" for f by (auto simp: keeps_def typed_def on_doc_def on_pg_def split: res.splits)
  then show ?thesis by (cases e) (auto simp: put_w_def del_w_def intro!: keeps_run typed_soft)
qed

text \<open>The events that end in \<open>render\<close>.\<close>

fun redraws :: "app_event \<Rightarrow> bool" where
  "redraws e = (case e of Form (Block _) \<Rightarrow> True | Form (RemoveItem _ _) \<Rightarrow> True | Form (RemoveKey _ _) \<Rightarrow> True | AddEntity _ \<Rightarrow> True
     | RemoveEntity yes \<Rightarrow> yes | ClickIssue _ \<Rightarrow> True | ApplyYaml \<Rightarrow> False | PickTemplate _ \<Rightarrow> True | Clear yes \<Rightarrow> yes | _ \<Rightarrow> False)"

definition untyped :: "app \<Rightarrow> bool" where
  "untyped s = (\<not> yamlDirty (pg s) \<and> docToYaml (app_doc s) = Some (editYaml s) \<and> shownYaml s = editYaml s)"

lemma untyped_render: "gains True untyped (render_app E)"
proof -
  have "gains True untyped (draw_yaml E True)"
    by (auto simp: gains_def untyped_def draw_yaml_def on_pg_def split: option.splits)
  then show ?thesis unfolding render_app_def by (intro gains_later gains_only) simp_all
qed

lemma untyped_last: "gains True untyped (run_acts [a, render_app E])" "gains True untyped (run_acts [a, b, render_app E])"
  by (intro gains_later gains_only untyped_render; simp)+

lemma untyped_panel: "gains True untyped (run_acts [a, b, render_app E, quietly open_templates])"
  "gains True untyped (run_acts [a, b, render_app E, quietly close_templates])"
  by (intro gains_later gains_run [OF untyped_render] list.pred_inject(1); simp add: keeps_def quietly_def untyped_def open_templates_def close_templates_def)+

lemma untyped_navigate: "gains True untyped (navigateTo E p)"
  unfolding navigateTo_def go_to_def using untyped_last(1) by (auto simp: gains_def [of _ _ "\<lambda>s. None"] split: list.splits key.splits)

lemma untyped_event:
  assumes "redraws e" and "app_handler E e s = Some (s', None)"
  shows "untyped s'"
proof -
  note g = gainsD [of True untyped, OF _ _ refl]
  show ?thesis
  proof (cases e)
    case (Form a)
    then show ?thesis using assms by (cases a) (auto simp: offered_def simp del: run_acts.simps split: if_splits intro: g [OF untyped_last(1)])
  next
    case (ClickIssue n)
    then show ?thesis using assms by (auto simp: offered_def quiet_first run_one simp del: run_acts.simps split: if_splits intro: g [OF untyped_navigate])
  qed (use assms in \<open>auto simp: offered_def add_entity_def remove_entity_def pick_template_def clear_draft_def simp del: run_acts.simps
      split: if_splits option.splits res.splits intro: g [OF untyped_last(2)] g [OF untyped_panel(1)] g [OF untyped_panel(2)]\<close>)
qed


text \<open>A comment is typed, a field of the form changes, a second route is added: the comment is gone.\<close>

definition typing_session :: "app_event list" where
  "typing_session = [AddEntity ''routes'', EditYaml, TypeYaml ''# note'']"

lemma typing_session_runs: "case app_run app_demo None typing_session of None \<Rightarrow> False | Some s \<Rightarrow> yamlDirty (pg s) \<and> editYaml s = ''# note'' \<and>
    (case app_step app_demo demo_put s of None \<Rightarrow> False | Some s1 \<Rightarrow> (case app_handler app_demo (AddEntity ''routes'') s1 of Some (s2, None) \<Rightarrow> True | _ \<Rightarrow> False))"
  by code_simp


section \<open>Navigation\<close>

text \<open>The sidebar can be drawn whenever the status line can.\<close>

lemma side_run_ok: "list_all snd xs \<Longrightarrow> snd (side_run xs)"
  by (induction xs rule: side_run.induct) (auto split: prod.splits)

lemma side_section_ok: "\<not> nullish doc \<Longrightarrow> (sent x \<Longrightarrow> listy (sub doc (skey x))) \<Longrightarrow> snd (side_section doc xs c i x)"
  using list_or_total [of "sub doc (skey x)"] by (auto simp: side_section_def Let_def split: option.splits)

lemma sidebar_drawn: "lists_ok doc \<Longrightarrow> snd (side_items doc xs c i)"
proof -
  assume l: "lists_ok doc"
  then have "\<forall>g \<in> set GROUPS. \<forall>x \<in> set (snd g). sent x \<longrightarrow> listy (sub doc (skey x))"
    by (simp add: GROUPS_def ent_of_def sect_of_def lists_ok_def)
  moreover have "\<not> nullish doc" using l by (simp add: lists_ok_def)
  ultimately have "\<forall>g \<in> set GROUPS. \<forall>x \<in> set (snd g). snd (side_section doc xs c i x)" using side_section_ok by blast
  then show ?thesis unfolding side_items_def by (intro side_run_ok) (simp add: list_all_iff split_beta)
qed

definition place :: "app \<Rightarrow> string \<times> key list option" where
  "place s = (secKey s, formRoot s)"

lemma keys_of: "\<not> nullish v \<Longrightarrow> object_keys v \<noteq> None"
  by (cases v) (auto simp: nullish_def)

lemma render_main:
  assumes "env_ok (senv E)" and "lists_ok (app_doc u)" and "render_app E u = Some (s', m)"
  obtains v w k where "draw_main E v = Some (w, k)" "app_doc v = app_doc u" "secKey v = secKey u" "selIdx (pg v) = selIdx (pg u)" "place s' = place w" "k = None \<Longrightarrow> m = None"
proof -
  obtain p where p: "renderStatus (senv E) (pg u) = Some p" using drawn_iff [OF assms(1), of "pg u"] assms(2) by blast
  then have pw: "work p = work (pg u)" "selIdx p = selIdx (pg u)" by (auto simp: renderStatus_def split: option.splits)
  define u1 where "u1 = u\<lparr>pg := p, statusText := status_text (lastIssues p), barClass := bar_class (lastIssues p)\<rparr>"
  define v where "v = u1\<lparr>shownSidebar := fst (side_items (app_doc u1) (lastIssues (pg u1)) (secKey u1) (selIdx (pg u1)))\<rparr>"
  have "draw_status E u = Some (u1, None)" using p by (simp add: draw_status_def u1_def)
  moreover have "draw_sidebar E u1 = Some (v, None)"
    using sidebar_drawn [of "app_doc u1" "lastIssues (pg u1)" "secKey u1" "selIdx (pg u1)"] assms(2) pw
    by (auto simp: draw_sidebar_def v_def u1_def split: prod.splits)
  ultimately have r: "run_acts [draw_main E, draw_yaml E True] v = Some (s', m)"
    using assms(3) by (simp add: render_app_def)
  have y: "place s2 = place s1" if "draw_yaml E True s1 = Some (s2, j)" for s1 s2 j
    using that by (auto simp: draw_yaml_def place_def on_pg_def split: if_splits option.splits)
  have v: "app_doc v = app_doc u" "secKey v = secKey u" "selIdx (pg v) = selIdx (pg u)" using pw by (simp_all add: v_def u1_def)
  show thesis
  proof (rule run_actsE [OF r])
    fix w assume w: "draw_main E v = Some (w, None)" "run_acts [draw_yaml E True] w = Some (s', m)"
    have "app_doc w = app_doc u" using leavesD [OF view_main w(1)] v(1) by (simp add: pane_view_def)
    then have "object_keys (app_doc w) \<noteq> None" using keys_of [of "app_doc w"] assms(2) by (simp add: lists_ok_def)
    then have "m = None" using w(2) by (auto simp: run_one draw_yaml_def docToYaml_def simp del: run_acts.simps)
    then show thesis using that [OF w(1) v] y w(2) unfolding run_one by blast
  qed (use that [OF _ v] in blast)
qed

lemma form_drawn: "forms E u = None \<Longrightarrow> draw_form E p u = Some (u\<lparr>formRoot := Some p\<rparr>, None)"
  by (simp add: draw_form_def)

lemma overview_drawn: "draw_main E v = Some (w, k) \<Longrightarrow> secKey v = ''overview'' \<Longrightarrow> place w = (''overview'', None)"
  by (auto simp: draw_main_def Let_def place_def)

lemma entity_drawn:
  assumes "draw_main E v = Some (w, k)" and "\<And>u. forms E u = None" and "SECTION_BY_KEY (secKey v) = Some x" "sent x" and "prop_of E (secKey v) \<noteq> None"
    and "i < list_len (sub (app_doc v) (secKey v))" and "selIdx (pg v) = int i"
  shows "place w = (secKey v, Some [KName (secKey v), KIdx i])"
proof -
  obtain vs where vs: "sub (app_doc v) (secKey v) = JArr vs" "i < length vs"
    using assms(6) by (auto simp: list_len_def split: jv.splits)
  then obtain y ys where ys: "vs = y # ys" by (cases vs) auto
  have nn: "\<not> nullish (app_doc v)" using vs(1) by (cases "app_doc v") (auto simp: sub_def nullish_def)
  have "SECTION_BY_KEY ''overview'' = Some (sect_of ''overview'' ''Overview'')" "SECTION_BY_KEY ''diagrams'' = Some (sect_of ''diagrams'' ''Diagrams'')"
    by code_simp+
  then have ne: "secKey v \<noteq> ''overview''" "secKey v \<noteq> ''diagrams''" using assms(3,4) by (auto simp: sect_of_def)
  have i: "shown_idx (y # ys) (int i) = int i" using vs ys by (simp add: shown_idx_def)
  show ?thesis
    using assms(1) ne assms(3-5,7) nn vs(1) ys i
    by (auto simp: draw_main_def Let_def draw_entity_def form_drawn [OF assms(2)] place_def on_pg_def)
qed

lemma section_drawn:
  assumes "draw_main E v = Some (w, k)" and "\<And>u. forms E u = None" and "SECTION_BY_KEY (secKey v) = Some x" "\<not> sent x" and "prop_of E (secKey v) \<noteq> None"
    and "secKey v \<noteq> ''overview''" "secKey v \<noteq> ''diagrams''"
  shows "place w = (secKey v, Some [KName (secKey v)])"
  using assms(1,3-7) by (auto simp: draw_main_def Let_def form_drawn [OF assms(2)] place_def)

lemma main_section: "draw_main E v = Some (w, k) \<Longrightarrow> secKey w = secKey v"
  by (auto simp: draw_main_def Let_def draw_diagram_def draw_entity_def draw_form_def on_pg_def
      split: if_splits option.splits sum.splits jv.splits list.splits)

text \<open>
  C26. Where a click on an issue leads, on a page whose check and forms can be drawn: to the form of the entry that the issue is
  about, or of its section; an issue about a key that has no section leads to the overview, where there is no form.
\<close>

theorem issue_click_opens_form:
  assumes "env_ok (senv E)" and "\<And>u. forms E u = None" and "lists_ok (app_doc s)" and "n < length (listed s)"
    and "ipath (listed s ! n) = KName k # r" and "app_handler E (ClickIssue n) s = Some (s', m)"
  shows "(case SECTION_BY_KEY k of None \<Rightarrow> secKey s' = ''overview'' \<and> formRoot s' = None
    | Some x \<Rightarrow> secKey s' = k \<and> (k \<notin> {''overview'', ''diagrams''} \<and> prop_of E k \<noteq> None \<longrightarrow>
        (if sent x then (\<forall>i r'. r = KIdx i # r' \<and> i < list_len (sub (app_doc s) k) \<longrightarrow> formRoot s' = Some [KName k, KIdx i])
         else formRoot s' = Some [KName k])))"
proof -
  let ?s = "s\<lparr>issuesOpen := False\<rparr>"
  have nav: "navigateTo E (KName k # r) ?s = Some (s', m)"
    using assms(5,6) by (auto simp: offered_def quiet_first run_one simp del: run_acts.simps split: if_splits)
  then have op: "k \<notin> set object_proto" by (auto simp: navigateTo_def)
  have go: "render_app E (select j i ?s) = Some (s', m)" if "navigateTo E (KName k # r) = go_to E j i" for j i
    using nav unfolding that go_to_def quiet_first run_one .
  have sel: "app_doc (select j i ?s) = app_doc s" "secKey (select j i ?s) = j" "selIdx (pg (select j i ?s)) = i" for j i
    by (simp_all add: select_def on_pg_def)
  show ?thesis
  proof (cases "SECTION_BY_KEY k")
    case None
    then have "navigateTo E (KName k # r) = go_to E ''overview'' (- 1)" using op by (simp add: navigateTo_def)
    then obtain v w j where "draw_main E v = Some (w, j)" "secKey v = ''overview''" "place s' = place w"
      using render_main [OF assms(1) _ go] assms(3) sel by metis
    then show ?thesis using overview_drawn None by (simp add: place_def)
  next
    case (Some x)
    define i where "i = (case r of KIdx i # _ \<Rightarrow> int i | _ \<Rightarrow> - 1)"
    have "navigateTo E (KName k # r) = go_to E k i" using op Some by (simp add: navigateTo_def i_def)
    then obtain v w j where v: "draw_main E v = Some (w, j)" "app_doc v = app_doc s" "secKey v = k" "selIdx (pg v) = i" "place s' = place w"
      using render_main [OF assms(1) _ go] assms(3) sel by metis
    have "secKey s' = k" using main_section [OF v(1)] v(3,5) by (simp add: place_def)
    moreover have "formRoot s' = Some [KName k]" if "\<not> sent x" "k \<notin> {''overview'', ''diagrams''}" "prop_of E k \<noteq> None"
      using section_drawn [OF v(1) assms(2), of x] Some that v(3,5) by (simp add: place_def)
    moreover have "formRoot s' = Some [KName k, KIdx i']" if "sent x" "prop_of E k \<noteq> None" "r = KIdx i' # r'" "i' < list_len (sub (app_doc s) k)" for i' r'
      using entity_drawn [OF v(1) assms(2), of x i'] Some that v(2-5) by (simp add: place_def i_def)
    ultimately show ?thesis using Some by simp
  qed
qed

text \<open>From another section back to the route.\<close>

definition issue_session :: "app_event list" where
  "issue_session = demo_session @ [ClickSection ''services'', ToggleIssues]"

lemma issue_session_runs: "case app_run app_demo None issue_session of None \<Rightarrow> False | Some s \<Rightarrow> renderStatus studio_demo (pg s) \<noteq> None \<and>
    listed s \<noteq> [] \<and> ipath (listed s ! 0) = [KName ''routes'', KIdx 0, KName ''service''] \<and> formRoot s = None \<and>
    list_len (sub (app_doc s) ''routes'') = 1 \<and> app_handler app_demo (ClickIssue 0) s \<noteq> None"
  by code_simp

lemma routes_section: "SECTION_BY_KEY ''routes'' = Some (ent_of ''routes'' ''Routes'')" "prop_of app_demo ''routes'' \<noteq> None"
  by code_simp+

theorem issue_click_opens_form_witness:
  "\<exists>s s' m. app_run app_demo None issue_session = Some s \<and> formRoot s = None \<and> app_handler app_demo (ClickIssue 0) s = Some (s', m) \<and>
    formRoot s' = Some [KName ''routes'', KIdx 0]"
proof -
  obtain s where s: "app_run app_demo None issue_session = Some s" "renderStatus studio_demo (pg s) \<noteq> None" "0 < length (listed s)"
    "ipath (listed s ! 0) = KName ''routes'' # [KIdx 0, KName ''service'']" "formRoot s = None" "list_len (sub (app_doc s) ''routes'') = 1"
    "app_handler app_demo (ClickIssue 0) s \<noteq> None"
    using issue_session_runs by (auto split: option.splits)
  obtain s' m where h: "app_handler app_demo (ClickIssue 0) s = Some (s', m)" using s(7) by auto
  have l: "lists_ok (app_doc s)" using drawn_iff [OF studio_demo_ok, of "pg s"] s(2) by auto
  have "forms app_demo u = None" for u by (simp add: app_demo_def)
  from issue_click_opens_form [OF app_demo_ok this l s(3,4) h] have "formRoot s' = Some [KName ''routes'', KIdx 0]"
    using routes_section s(6) by (simp add: ent_of_def)
  then show ?thesis using s(1,5) h by blast
qed

text \<open>Keys of the gateway's schema that no section stands for: an issue about them cannot be reached by its click.\<close>

lemma keys_without_section:
  "list_all (\<lambda>k. SECTION_BY_KEY k = None) [''version'', ''default_security_headers'', ''waf'', ''redis_cache'', ''plugin_registry'', ''filter_chain'']"
  by code_simp

text \<open>In the panel, a part of a path that equals its first part goes without the dot.\<close>

lemma panel_path_joined:
  "path_text [KName ''ai'', KName ''models'', KName ''ai'', KName ''provider''] = ''ai.modelsai.provider''"
  by code_simp

text \<open>The line below the pane counts the empty line after the last line break.\<close>

lemma foot_counts_one_more: "foot_text (JObj [(''allow_empty_routes'', JBool True)]) (''allow_empty_routes: true'' @ nl) = ''1 top-level block(s) - 2 lines''"
  by code_simp

section \<open>Templates\<close>

lemma templates_clean: "list_all (\<lambda>t. cross_checks (snd t) \<noteq> None \<and> clean (the (cross_checks (snd t))) \<and> json_ok (snd t)) TEMPLATES"
  by code_simp

lemma template_listed: "t \<in> set TEMPLATES \<Longrightarrow> lists_ok (snd t) \<and> json_ok (snd t) \<and> (\<exists>ys. cross_checks (snd t) = Some ys \<and> clean ys)"
  using templates_clean cross_checks_total [of "snd t"] by (auto simp: list_all_iff)

lemma count_as_error: "count Error (map as_error xs @ ys) = length xs + count Error ys"
  by (simp add: count_def as_error_def mk_report_def)

lemma overview_render:
  assumes "env_ok (senv E)" and "\<And>u. forms E u = None" and "lists_ok (app_doc u)" and "secKey u = ''overview''" and "render_app E u = Some (s', m)"
  shows "place s' = (''overview'', None) \<and> m = None"
proof (rule render_main [OF assms(1,3,5)])
  fix v w k assume v: "draw_main E v = Some (w, k)" "secKey v = secKey u" "place s' = place w" "k = None \<Longrightarrow> m = None"
  have k: "k = None" using v(1,2) assms(2,4) by (simp add: draw_main_def Let_def)
  show ?thesis using overview_drawn [OF v(1)] v(2,3) v(4) [OF k] assms(4) by simp
qed

text \<open>
  C28. A template takes the place of the document, is saved and shown as overview, and the picker closes. Its references all lead
  somewhere and no route matches everything, so that the bar reports no error exactly when the template conforms to the
  schema of the page.
\<close>

theorem template_loaded:
  assumes "env_ok (senv E)" and "\<And>u. forms E u = None" and "n < length TEMPLATES" and "app_step E (PickTemplate n) s = Some s'"
  shows "app_doc s' = snd (TEMPLATES ! n) \<and> saveDue (work (pg s')) \<and> secKey s' = ''overview'' \<and> formRoot s' = None \<and> \<not> tplOpen s' \<and>
    (count Error (lastIssues (pg s')) = 0 \<longleftrightarrow> conforms (rx (senv E)) (sdefs (senv E)) (schema_root (senv E)) (snd (TEMPLATES ! n)))"
proof -
  let ?d = "snd (TEMPLATES ! n)"
  obtain ys where t: "lists_ok ?d" "cross_checks ?d = Some ys" "clean ys"
    using template_listed [of "TEMPLATES ! n"] assms(3) by auto
  define u where "u = select_start (replace_doc ?d s)"
  have u: "app_doc u = ?d" "secKey u = ''overview''" "saveDue (work_of u)"
    by (simp_all add: u_def select_start_def select_def replace_doc_def on_pg_def persist_def work_of_def)
  obtain m where h: "run_acts [render_app E, quietly close_templates] u = Some (s', m)"
    using assms(4) by (auto simp: app_step_def offered_def pick_template_def quiet_first u_def simp del: run_acts.simps split: if_splits)
  obtain s1 m1 where r: "render_app E u = Some (s1, m1)" using h by (auto split: option.splits prod.splits)
  have o: "place s1 = (''overview'', None)" "m1 = None" using overview_render [OF assms(1,2) _ u(2) r] t(1) u(1) by auto
  have s': "s' = close_templates s1" using h r o(2) by (simp add: quietly_def)
  have w: "work_of s1 = work_of u" by (rule leavesD [OF work_render(1) r])
  have "live E False s1" by (rule gainsD [OF live_render r]) (simp add: o(2))
  moreover have "app_doc s1 = ?d" using w u(1) by (simp add: work_of_def)
  ultimately have v: "validate (senv E) ?d = Some (Some (lastIssues (pg s1)))" using assms(1) t(1) by (simp add: live_def)
  obtain xs where xs: "validate (senv E) ?d = Some (map_option (append (map as_error xs)) (cross_checks ?d))"
    "(xs = []) = conforms (rx (senv E)) (sdefs (senv E)) (schema_root (senv E)) ?d" using validate_answers [OF assms(1)] by blast
  have "count Error ys = 0" using t(3) by (auto simp: count_def clean_def filter_empty_conv)
  moreover have "lastIssues (pg s1) = map as_error xs @ ys" using v xs(1) t(2) by simp
  ultimately have "count Error (lastIssues (pg s1)) = 0 \<longleftrightarrow> xs = []" by (simp add: count_as_error)
  then show ?thesis using s' w u o(1) xs(2) by (simp add: close_templates_def place_def work_of_def)
qed

lemma template_session_runs: "case boot_app app_demo None of None \<Rightarrow> False | Some s \<Rightarrow> app_step app_demo (PickTemplate 0) s \<noteq> None"
  by code_simp

theorem template_loaded_witness:
  "\<exists>s s'. boot_app app_demo None = Some s \<and> app_step app_demo (PickTemplate 0) s = Some s' \<and> \<not> tplOpen s' \<and> app_doc s' = JObj []"
proof -
  obtain s s' where s: "boot_app app_demo None = Some s" "app_step app_demo (PickTemplate 0) s = Some s'"
    using template_session_runs by (auto split: option.splits)
  have f: "forms app_demo u = None" for u by (simp add: app_demo_def)
  have "0 < length TEMPLATES" "snd (TEMPLATES ! 0) = JObj []" by (simp_all add: TEMPLATES_def)
  then show ?thesis using template_loaded [OF app_demo_ok f _ s(2)] s by auto
qed

section \<open>Applied text\<close>

text \<open>
  The handler of the apply button takes the same document as \<open>applyYaml\<close> of \<open>Studio_Issues\<close>, which leaves the drawing to its
  parameter \<open>rest\<close>, with the same effect on the stored draft.
\<close>

lemma apply_yaml_work:
  assumes "apply_yaml E s = Some (s', m)"
  shows "work (pg s') = work (applyYaml (senv E) (load_yaml E) rest te (editYaml s) (pg s))"
proof (cases "load_yaml E (editYaml s)")
  case (Inl e)
  then show ?thesis using assms by (auto simp: apply_yaml_def applyYaml_def on_pg_def alert_def)
next
  case (Inr v)
  let ?d = "if nullish v then JObj [] else v"
  show ?thesis
  proof (cases "js_typeof ?d \<noteq> ''object'' \<or> is_array ?d")
    case True
    then show ?thesis using assms Inr unfolding apply_yaml_def applyYaml_def sum.case Inr Let_def by (auto simp: on_pg_def alert_def)
  next
    case False
    have "leaves work_of (run_acts [quietly (on_pg (\<lambda>p. p\<lparr>selIdx := - 1, yamlDirty := False\<rparr>)), render_app E, exitYamlEdit E True])"
      by (rule leaves_run) (simp add: acts work_quietly work_of_def on_pg_def)
    then have w: "work_of s2 = work_of (replace_doc ?d s)" if "apply_doc E ?d s = Some (s2, j)" for s2 j
      using that unfolding apply_doc_def quiet_first by (blast dest: leavesD)
    have "work_of s' = work_of (replace_doc ?d s)"
      using assms Inr False w unfolding apply_yaml_def sum.case Inr Let_def
      by (auto simp: work_of_def on_pg_def alert_def split: option.splits prod.splits)
    moreover have "work (applyYaml (senv E) (load_yaml E) rest te (editYaml s) (pg s)) = persist ((work (pg s))\<lparr>sdoc := ?d\<rparr>)"
      using False unfolding applyYaml_def sum.case Inr Let_def
      by (auto simp: render_studio_def renderStatus_def alert_def split: option.splits prod.splits)
    ultimately show ?thesis by (simp add: work_of_def replace_doc_def on_pg_def)
  qed
qed

end
