(* ===== verification/Docs_Svg.thy ===== *)
theory Docs_Svg
  imports Js_Numbers "HOL-Library.AList"
begin

text \<open>
  The repairs of rendered diagrams in the documentation theme (\<open>docs-site/.vitepress/theme/Mermaid.vue\<close>):
  \<open>fixSvgClipping\<close> on the text of the SVG and \<open>fixNodeClipping\<close> on its rendered nodes.

  The XML parser and serializer of the browser are arguments. The rendered document is the list of its elements in
  document order, each with the position of its parent, its attributes and the sizes the browser measures; the sizes of
  labels do not depend on the height attributes that are written here.
\<close>

section \<open>The style attribute\<close>

text \<open>
  One match of \<open>/max-width\\s*:\\s*[^;]+;?/i\<close> at the start of a text: the text behind it. The blanks after the colon
  are also matched by \<open>[^;]+\<close>, so the match reaches to the next semicolon.
\<close>

definition match_max_width :: "string \<Rightarrow> string option" where
  "match_max_width s =
     (if to_lower (take 9 s) = ''max-width'' then
        (let r = dropWhile is_space (drop 9 s) in
         if is_prefix '':'' r \<and> tl r \<noteq> [] \<and> hd (tl r) \<noteq> CHR '';''
         then Some (tl (dropWhile (\<lambda>c. c \<noteq> CHR '';'') (tl r))) else None)
      else None)"

lemma match_max_width_shorter: "match_max_width s = Some r \<Longrightarrow> length r < length s"
proof -
  assume m: "match_max_width s = Some r"
  let ?q = "dropWhile is_space (drop 9 s)"
  have r: "r = tl (dropWhile (\<lambda>c. c \<noteq> CHR '';'') (tl ?q))" and s: "to_lower (take 9 s) = ''max-width''"
    using m by (auto simp: match_max_width_def Let_def split: if_splits)
  have "length (to_lower (take 9 s)) = 9" using s by simp
  then have "9 \<le> length s" by (simp add: to_lower_def)
  moreover have "length r \<le> length ?q"
    using length_dropWhile_le [of "\<lambda>c. c \<noteq> CHR '';''" "tl ?q"] unfolding r length_tl by linarith
  moreover have "length ?q \<le> length s - 9" using length_dropWhile_le [of is_space "drop 9 s"] by simp
  ultimately show ?thesis by linarith
qed

text \<open>\<open>style.replace(/max-width.../gi, "")\<close>.\<close>

function drop_max_width :: "string \<Rightarrow> string" where
  "drop_max_width s = (if s = [] then [] else case match_max_width s of
     Some r \<Rightarrow> drop_max_width r | None \<Rightarrow> hd s # drop_max_width (tl s))"
  by pat_completeness auto
termination
  by (relation "measure length") (auto dest: match_max_width_shorter)

declare drop_max_width.simps [simp del]

text \<open>\<open>.replace(/\\s{2,}/g, " ")\<close>.\<close>

function squeeze :: "string \<Rightarrow> string" where
  "squeeze [] = []"
| "squeeze (c # cs) = (if is_space c \<and> cs \<noteq> [] \<and> is_space (hd cs)
     then CHR '' '' # squeeze (dropWhile is_space cs) else c # squeeze cs)"
  by pat_completeness auto
termination
  by (relation "measure length") (auto simp: less_Suc_eq_le length_dropWhile_le)

definition clean_style :: "string \<Rightarrow> string" where
  "clean_style style = js_trim (squeeze (drop_max_width style))"

section \<open>The root element\<close>

datatype xml = XElem (xtag: string) (xattrs: "(string \<times> string) list") (xkids: "xml list") | XText string

definition get_attr :: "string \<Rightarrow> (string \<times> string) list \<Rightarrow> string" where
  "get_attr k as = (case map_of as k of None \<Rightarrow> [] | Some v \<Rightarrow> v)"

definition fix_style :: "(string \<times> string) list \<Rightarrow> (string \<times> string) list" where
  "fix_style as = (let style = get_attr ''style'' as in
     if style = [] then as
     else let cleaned = clean_style style in
       if cleaned \<noteq> [] then AList.update ''style'' cleaned as else AList.delete ''style'' as)"

text \<open>\<open>split(/[\\s,]+/)\<close> of a non-empty text.\<close>

definition is_sep :: "char \<Rightarrow> bool" where
  "is_sep c = (is_space c \<or> c = CHR '','')"

function split_seps :: "string \<Rightarrow> string list" where
  "split_seps s = (let r = dropWhile (\<lambda>c. \<not> is_sep c) s in
     if r = [] then [s] else takeWhile (\<lambda>c. \<not> is_sep c) s # split_seps (dropWhile is_sep r))"
  by pat_completeness auto
termination
proof (relation "measure length")
  fix s :: string and r
  assume r: "r = dropWhile (\<lambda>c. \<not> is_sep c) s" and ne: "r \<noteq> []"
  then have "is_sep (hd r)" using hd_dropWhile by blast
  with ne have "length (dropWhile is_sep r) < length r" by (cases r) (auto simp: less_Suc_eq_le length_dropWhile_le)
  also have "\<dots> \<le> length s" unfolding r by (rule length_dropWhile_le)
  finally show "(dropWhile is_sep r, s) \<in> measure length" by simp
qed simp

declare split_seps.simps [simp del]

definition PAD :: rat where
  "PAD = 24"

text \<open>The new viewBox: the four numbers with the padding added to the last; zeros when there are not four parts.\<close>

definition padded_viewBox :: "string \<Rightarrow> string" where
  "padded_viewBox vb = (let parts = map str_to_num (split_seps vb);
       (x, y, w, h) = (if length parts = 4 then (parts ! 0, parts ! 1, parts ! 2, parts ! 3) else (Fin 0, Fin 0, Fin 0, Fin 0))
     in num_str x @ '' '' @ num_str y @ '' '' @ num_str w @ '' '' @ num_str (num_add h (Fin PAD)))"

definition fix_viewBox :: "(string \<times> string) list \<Rightarrow> (string \<times> string) list" where
  "fix_viewBox as = (let vb = get_attr ''viewBox'' as in
     if vb = [] then as else AList.update ''viewBox'' (padded_viewBox vb) as)"

definition fix_height :: "string \<Rightarrow> (string \<times> string) list \<Rightarrow> (string \<times> string) list" where
  "fix_height heightAttr as = (if heightAttr = [] then as
     else let h = parseFloat heightAttr in
       if h = NaN then as else AList.update ''height'' (num_str (num_add h (Fin PAD))) as)"

definition fix_root_attrs :: "(string \<times> string) list \<Rightarrow> (string \<times> string) list" where
  "fix_root_attrs as = (let as1 = AList.update ''overflow'' ''visible'' (fix_style as)
     in fix_height (get_attr ''height'' as1) (fix_viewBox as1))"

text \<open>
  \<open>fixSvgClipping(svgCode)\<close>. \<open>parse\<close> yields the document element, \<open>None\<close> when there is none or the parser throws;
  \<open>serialize\<close> yields \<open>None\<close> when it throws. A syntax error yields a document with another root.
\<close>

definition fixSvgClipping :: "(string \<Rightarrow> xml option) \<Rightarrow> (xml \<Rightarrow> string option) \<Rightarrow> string \<Rightarrow> string" where
  "fixSvgClipping parse serialize svgCode = (case parse svgCode of
     Some (XElem tag as kids) \<Rightarrow>
       if to_lower tag \<noteq> ''svg'' then svgCode
       else (case serialize (XElem tag (fix_root_attrs as) kids) of None \<Rightarrow> svgCode | Some t \<Rightarrow> t)
   | _ \<Rightarrow> svgCode)"
section \<open>Rendered nodes\<close>

text \<open>
  \<open>offsetHeight\<close> is undefined for SVG elements; \<open>bbox\<close> holds \<open>y\<close> and \<open>height\<close> of \<open>getBBox()\<close>, \<open>None\<close> when it throws.
\<close>

record gnode =
  gtag :: string
  gparent :: "nat option"
  gattrs :: "(string \<times> string) list"
  scrollHeight :: int
  offsetHeight :: "int option"
  bbox :: "(rat \<times> rat) option"

text \<open>Element \<open>i\<close> is a descendant of element \<open>a\<close>; a parent comes before its children.\<close>

fun under :: "gnode list \<Rightarrow> nat \<Rightarrow> nat \<Rightarrow> bool" where
  "under ns a i = (case gparent (ns ! i) of None \<Rightarrow> False | Some p \<Rightarrow> p = a \<or> (if p < i then under ns a p else False))"

declare under.simps [simp del]

text \<open>\<open>querySelectorAll\<close> and \<open>querySelector\<close> with a list of tags, on element \<open>a\<close>; \<open>firstElementChild\<close>.\<close>

definition query_all :: "gnode list \<Rightarrow> nat \<Rightarrow> string list \<Rightarrow> nat list" where
  "query_all ns a tags = filter (\<lambda>i. gtag (ns ! i) \<in> set tags \<and> under ns a i) [0 ..< length ns]"

definition query_first :: "gnode list \<Rightarrow> nat \<Rightarrow> string list \<Rightarrow> nat option" where
  "query_first ns a tags = (case query_all ns a tags of [] \<Rightarrow> None | i # _ \<Rightarrow> Some i)"

definition first_child :: "gnode list \<Rightarrow> nat \<Rightarrow> nat option" where
  "first_child ns a = find (\<lambda>i. gparent (ns ! i) = Some a) [0 ..< length ns]"

text \<open>\<open>parseFloat(n.getAttribute(k) || "0")\<close>.\<close>

definition num_attr :: "string \<Rightarrow> gnode \<Rightarrow> jnum" where
  "num_attr k n = (let v = get_attr k (gattrs n) in parseFloat (if v = [] then ''0'' else v))"

definition set_height :: "nat \<Rightarrow> jnum \<Rightarrow> gnode list \<Rightarrow> gnode list" where
  "set_height i h ns = ns[i := (ns ! i)\<lparr>gattrs := AList.update ''height'' (num_str h) (gattrs (ns ! i))\<rparr>]"

text \<open>\<open>inner.scrollHeight || inner.offsetHeight || 0\<close>.\<close>

definition content_height :: "gnode \<Rightarrow> int" where
  "content_height n = (if scrollHeight n \<noteq> 0 then scrollHeight n
     else case offsetHeight n of None \<Rightarrow> 0 | Some h \<Rightarrow> h)"

section \<open>Node repair\<close>

text \<open>One HTML label: the container grows to its content, the first shape beside it by the same amount.\<close>

definition fix_foreignObject :: "nat \<Rightarrow> gnode list \<Rightarrow> gnode list" where
  "fix_foreignObject i ns = (case first_child ns i of None \<Rightarrow> ns
     | Some inner \<Rightarrow>
       let contentH = content_height (ns ! inner); foH = num_attr ''height'' (ns ! i) in
       if num_less foH (Fin (of_int contentH)) then
         let newH = of_int contentH + 2; dy = num_sub_from newH foH; ns1 = set_height i (Fin newH) ns in
         (case gparent (ns ! i) of None \<Rightarrow> ns1
          | Some p \<Rightarrow> (case query_first ns1 p [''rect'', ''polygon'', ''circle'', ''path''] of None \<Rightarrow> ns1
            | Some q \<Rightarrow> let sh = num_attr ''height'' (ns1 ! q) in
                if num_less (Fin 0) sh then set_height q (num_add sh dy) ns1 else ns1))
       else ns)"

text \<open>One SVG label: the shape grows when the text ends below it.\<close>

definition fix_text :: "nat \<Rightarrow> gnode list \<Rightarrow> gnode list" where
  "fix_text i ns = (case bbox (ns ! i) of None \<Rightarrow> ns
     | Some (by, bh) \<Rightarrow> (case gparent (ns ! i) of None \<Rightarrow> ns
       | Some p \<Rightarrow> (case query_first ns p [''rect'', ''polygon'', ''circle''] of None \<Rightarrow> ns
         | Some q \<Rightarrow>
           let sh = num_attr ''height'' (ns ! q); sy = num_attr ''y'' (ns ! q) in
           if sh = Fin 0 \<or> num_less sh (Fin 0) then ns
           else let textBottom = by + bh; shapeBottom = num_add sy sh in
             if num_less shapeBottom (Fin textBottom)
             then set_height q (num_add sh (num_add (num_sub_from textBottom shapeBottom) (Fin 2))) ns
             else ns)))"

text \<open>\<open>fixNodeClipping(root)\<close> on the elements of a viewport, the viewport itself first.\<close>

definition fixNodeClipping :: "gnode list \<Rightarrow> gnode list" where
  "fixNodeClipping ns = (if ns = [] then ns else case query_first ns 0 [''svg''] of None \<Rightarrow> ns
     | Some svgEl \<Rightarrow>
       let ns1 = fold fix_foreignObject (query_all ns svgEl [''foreignObject'']) ns
       in fold fix_text (query_all ns1 svgEl [''text'']) ns1)"

section \<open>Growth\<close>

text \<open>
  \<open>n'\<close> is \<open>n\<close>, or \<open>n\<close> with a larger height. A height that was not positive is only replaced in a label container.
\<close>

definition grown :: "gnode \<Rightarrow> gnode \<Rightarrow> bool" where
  "grown n n' = (n' = n \<or> (\<exists>h h'. num_attr ''height'' n = Fin h \<and> decimal h' \<and> h \<le> h' \<and> (0 < h \<or> gtag n = ''foreignObject'')
     \<and> n' = n\<lparr>gattrs := gattrs n'\<rparr> \<and> num_attr ''height'' n' = Fin h' \<and> (\<forall>k. k \<noteq> ''height'' \<longrightarrow> map_of (gattrs n') k = map_of (gattrs n) k)))"

definition dec_or_nan :: "jnum \<Rightarrow> bool" where
  "dec_or_nan x = (case x of Fin r \<Rightarrow> decimal r | NaN \<Rightarrow> True | _ \<Rightarrow> False)"

definition measurable :: "gnode \<Rightarrow> bool" where
  "measurable n = (dec_or_nan (num_attr ''y'' n) \<and> dec_or_nan (num_attr ''height'' n)
     \<and> (case bbox n of None \<Rightarrow> True | Some (y, h) \<Rightarrow> decimal y \<and> decimal h))"

lemma grown_same: "grown n n' \<Longrightarrow> gtag n' = gtag n \<and> gparent n' = gparent n \<and> content_height n' = content_height n \<and> bbox n' = bbox n
    \<and> num_attr ''y'' n' = num_attr ''y'' n"
  unfolding grown_def num_attr_def get_attr_def content_height_def by (elim disjE exE conjE; cases n; cases n') auto

lemma grown_height: "grown n n' \<Longrightarrow> num_attr ''height'' n = Fin h \<Longrightarrow> \<exists>h'. num_attr ''height'' n' = Fin h' \<and> h \<le> h'"
  unfolding grown_def by auto
lemma grown_NaN: "grown n n' \<Longrightarrow> num_attr ''height'' n = NaN \<Longrightarrow> n' = n"
  unfolding grown_def by auto

lemma grown_refl [simp]: "grown n n"
  by (simp add: grown_def)

lemma grown_trans: "grown n n' \<Longrightarrow> grown n' n'' \<Longrightarrow> grown n n''"
proof (cases "n' = n \<or> n'' = n'")
  case False
  assume g: "grown n n'" "grown n' n''"
  obtain h h' where 1: "num_attr ''height'' n = Fin h" "h \<le> h'" "0 < h \<or> gtag n = ''foreignObject''"
    "n' = n\<lparr>gattrs := gattrs n'\<rparr>" "num_attr ''height'' n' = Fin h'" "\<forall>k. k \<noteq> ''height'' \<longrightarrow> map_of (gattrs n') k = map_of (gattrs n) k"
    using g(1) False unfolding grown_def by blast
  obtain h'' where 2: "decimal h''" "h' \<le> h''" "n'' = n'\<lparr>gattrs := gattrs n''\<rparr>" "num_attr ''height'' n'' = Fin h''"
    "\<forall>k. k \<noteq> ''height'' \<longrightarrow> map_of (gattrs n'') k = map_of (gattrs n') k"
    using g(2) False 1(5) unfolding grown_def by auto
  have "n'' = n\<lparr>gattrs := gattrs n''\<rparr>" using 1(4) 2(3) by (cases n; cases n'; cases n'') simp
  then show ?thesis unfolding grown_def using 1 2
    by (intro disjI2 exI [of _ h] exI [of _ h'']) auto
qed auto

lemma grown_measurable: "grown n n' \<Longrightarrow> measurable n \<Longrightarrow> measurable n'"
proof (cases "n' = n")
  case False
  assume g: "grown n n'" and m: "measurable n"
  obtain h' where "num_attr ''height'' n' = Fin h'" "decimal h'" using g False unfolding grown_def by blast
  with m grown_same [OF g] show ?thesis by (simp add: measurable_def dec_or_nan_def)
qed simp

abbreviation grows :: "gnode list \<Rightarrow> gnode list \<Rightarrow> bool" where
  "grows \<equiv> list_all2 grown"

lemma grows_refl: "grows ns ns"
  by (simp add: list.rel_refl)

lemma grows_trans: "grows a b \<Longrightarrow> grows b c \<Longrightarrow> grows a c"
  by (rule list_all2_trans [OF grown_trans])

lemma grows_nth: "grows ns ns' \<Longrightarrow> i < length ns \<Longrightarrow> grown (ns ! i) (ns' ! i)"
  by (rule list_all2_nthD)

lemma num_str_nonempty: "decimal r \<Longrightarrow> num_str (Fin r) \<noteq> []"
  by (erule num_str_text) (use dec_text_hd in auto)

lemma set_height_nth:
  "i < length ns \<Longrightarrow> decimal h \<Longrightarrow> num_attr ''height'' (set_height i (Fin h) ns ! i) = Fin h"
  using num_str_nonempty [of h] by (simp add: set_height_def num_attr_def get_attr_def update_conv Let_def)

lemma set_height_grows:
  assumes "i < length ns" "num_attr ''height'' (ns ! i) = Fin h" "h \<le> h'" "decimal h'" "0 < h \<or> gtag (ns ! i) = ''foreignObject''"
  shows "grows ns (set_height i (Fin h') ns)"
proof (rule list_all2_all_nthI)
  fix j assume j: "j < length ns"
  show "grown (ns ! j) (set_height i (Fin h') ns ! j)"
  proof (cases "j = i")
    case True
    have "(set_height i (Fin h') ns ! i) = (ns ! i)\<lparr>gattrs := gattrs (set_height i (Fin h') ns ! i)\<rparr>"
      using assms(1) by (simp add: set_height_def)
    moreover have "\<forall>k. k \<noteq> ''height'' \<longrightarrow> map_of (gattrs (set_height i (Fin h') ns ! i)) k = map_of (gattrs (ns ! i)) k"
      using assms(1) by (simp add: set_height_def update_conv)
    ultimately show ?thesis unfolding grown_def True using assms set_height_nth [OF assms(1,4)] by blast
  qed (simp add: set_height_def j)
qed (simp add: set_height_def)

text \<open>Queries see tags and parents only.\<close>

lemma under_grows: "grows ns ns' \<Longrightarrow> i < length ns \<Longrightarrow> under ns' a i = under ns a i"
proof (induction ns a i rule: under.induct)
  case (1 ns a i)
  have "gparent (ns' ! i) = gparent (ns ! i)" using grown_same [OF grows_nth [OF "1.prems"]] by simp
  then show ?case using "1.IH" "1.prems"
    by (subst (1 2) under.simps) (auto split: option.splits)
qed

lemma query_all_grows: "grows ns ns' \<Longrightarrow> query_all ns' a tags = query_all ns a tags"
  unfolding query_all_def using list_all2_lengthD [of grown ns ns']
  by (auto intro!: filter_cong simp: under_grows grown_same [OF grows_nth])

lemma query_first_grows: "grows ns ns' \<Longrightarrow> query_first ns' a tags = query_first ns a tags"
  by (simp add: query_first_def query_all_grows)

lemma first_child_grows: "grows ns ns' \<Longrightarrow> first_child ns' a = first_child ns a"
  unfolding first_child_def using list_all2_lengthD [of grown ns ns']
  by (auto intro!: find_cong simp: grown_same [OF grows_nth])

lemma query_first_in: "query_first ns a tags = Some i \<Longrightarrow> i < length ns \<and> gtag (ns ! i) \<in> set tags"
proof -
  assume "query_first ns a tags = Some i"
  then have "i \<in> set (query_all ns a tags)" by (auto simp: query_first_def split: list.splits)
  then show ?thesis by (simp add: query_all_def)
qed

lemma first_child_in: "first_child ns a = Some i \<Longrightarrow> i < length ns"
  by (auto simp: first_child_def find_Some_iff)
section \<open>Repairs settle\<close>

text \<open>
  A list of repairs, each of which moves the state upwards and is idle once its own condition is met: the
  pass over the list meets every condition, and a second pass changes nothing.
\<close>

locale repairs =
  fixes step :: "'i \<Rightarrow> 's \<Rightarrow> 's" and settled :: "'i \<Rightarrow> 's \<Rightarrow> bool" and le :: "'s \<Rightarrow> 's \<Rightarrow> bool" and good :: "'i \<Rightarrow> 's \<Rightarrow> bool"
  assumes le_refl: "le s s"
    and le_trans: "le s t \<Longrightarrow> le t u \<Longrightarrow> le s u"
    and step_le: "good i s \<Longrightarrow> le s (step i s)"
    and good_le: "good i s \<Longrightarrow> le s t \<Longrightarrow> good i t"
    and step_settles: "good i s \<Longrightarrow> settled i (step i s)"
    and settled_le: "good i s \<Longrightarrow> settled i s \<Longrightarrow> le s t \<Longrightarrow> settled i t"
    and settled_step: "settled i s \<Longrightarrow> step i s = s"
begin

lemma pass_le: "\<forall>i \<in> set ks. good i s \<Longrightarrow> le s (fold step ks s)"
proof (induction ks arbitrary: s)
  case (Cons k ks)
  then have "\<forall>i \<in> set ks. good i (step k s)" using good_le step_le by auto
  then show ?case using Cons.IH [of "step k s"] step_le [of k s] le_trans Cons.prems by auto
qed (simp add: le_refl)

lemma pass_settles: "\<forall>i \<in> set ks. good i s \<Longrightarrow> \<forall>i \<in> set ks. settled i (fold step ks s)"
proof (induction ks arbitrary: s)
  case (Cons k ks)
  then have g: "good k s" "\<forall>i \<in> set ks. good i (step k s)" using good_le step_le by auto
  then have "settled k (fold step ks (step k s))"
    using settled_le [of k "step k s"] pass_le [of ks "step k s"] step_settles [of k s] good_le [of k s] step_le [of k s] by blast
  then show ?case using Cons.IH [OF g(2)] by simp
qed simp

lemma settled_pass: "\<forall>i \<in> set ks. settled i s \<Longrightarrow> fold step ks s = s"
  by (induction ks) (auto simp: settled_step)

lemma pass_idem: "\<forall>i \<in> set ks. good i s \<Longrightarrow> fold step ks (fold step ks s) = fold step ks s"
  using settled_pass [OF pass_settles] .

end

datatype repair = Html nat | Label nat

fun do_repair :: "repair \<Rightarrow> gnode list \<Rightarrow> gnode list" where
  "do_repair (Html i) ns = fix_foreignObject i ns"
| "do_repair (Label i) ns = fix_text i ns"

text \<open>The container holds its content; the shape reaches below the text (or has no height to change).\<close>

definition text_fits :: "gnode \<Rightarrow> rat \<Rightarrow> bool" where
  "text_fits n b = (\<not> num_less (Fin 0) (num_attr ''height'' n) \<or> \<not> num_less (num_add (num_attr ''y'' n) (num_attr ''height'' n)) (Fin b))"

fun repaired :: "repair \<Rightarrow> gnode list \<Rightarrow> bool" where
  "repaired (Html i) ns = (case first_child ns i of None \<Rightarrow> True
     | Some c \<Rightarrow> \<not> num_less (num_attr ''height'' (ns ! i)) (Fin (of_int (content_height (ns ! c)))))"
| "repaired (Label i) ns = (case bbox (ns ! i) of None \<Rightarrow> True | Some (y, h) \<Rightarrow> (case gparent (ns ! i) of None \<Rightarrow> True
     | Some p \<Rightarrow> (case query_first ns p [''rect'', ''polygon'', ''circle''] of None \<Rightarrow> True
       | Some q \<Rightarrow> text_fits (ns ! q) (y + h))))"

fun repairable :: "repair \<Rightarrow> gnode list \<Rightarrow> bool" where
  "repairable (Html i) ns = (list_all measurable ns \<and> i < length ns \<and> gtag (ns ! i) = ''foreignObject'')"
| "repairable (Label i) ns = (list_all measurable ns \<and> i < length ns)"

lemma measurable_nth: "list_all measurable ns \<Longrightarrow> i < length ns \<Longrightarrow> measurable (ns ! i)"
  by (simp add: list_all_length)

lemma measurable_height: "measurable n \<Longrightarrow> num_attr ''height'' n = NaN \<or> (\<exists>h. num_attr ''height'' n = Fin h \<and> decimal h)"
  and measurable_y: "measurable n \<Longrightarrow> num_attr ''y'' n = NaN \<or> (\<exists>y. num_attr ''y'' n = Fin y \<and> decimal y)"
  by (auto simp: measurable_def dec_or_nan_def split: jnum.splits)

lemma repairable_grows: "repairable r ns \<Longrightarrow> grows ns ns' \<Longrightarrow> repairable r ns'"
proof -
  assume r: "repairable r ns" and g: "grows ns ns'"
  have "list_all measurable ns" using r by (cases r) auto
  then have "list_all measurable ns'"
    using list_all2_lengthD [OF g] grown_measurable [OF grows_nth [OF g]] by (auto simp: list_all_length)
  then show ?thesis using r list_all2_lengthD [OF g] grown_same [OF grows_nth [OF g]] by (cases r) auto
qed

lemma repaired_idle: "repaired r ns \<Longrightarrow> do_repair r ns = ns"
proof (cases r)
  case (Label i)
  assume "repaired r ns"
  moreover have "\<not> num_less (Fin 0) x \<Longrightarrow> x = Fin 0 \<or> num_less x (Fin 0) \<or> x = NaN" for x by (cases x) auto
  moreover have "\<not> num_less (num_add a NaN) b" for a b by (cases a) auto
  ultimately show ?thesis unfolding Label by (fastforce simp: fix_text_def text_fits_def Let_def split: option.splits)
qed (auto simp: fix_foreignObject_def Let_def split: option.splits)
text \<open>Both repairs only make heights larger.\<close>

lemma fix_foreignObject_cases:
  assumes "repairable (Html i) ns" "\<not> repaired (Html i) ns"
  obtains c n ns1 where "first_child ns i = Some c" "n = of_int (content_height (ns ! c)) + 2"
    "grows ns ns1" "num_attr ''height'' (ns1 ! i) = Fin n" "grows ns1 (fix_foreignObject i ns)"
proof -
  obtain c where c: "first_child ns i = Some c" "num_less (num_attr ''height'' (ns ! i)) (Fin (of_int (content_height (ns ! c))))"
    using assms(2) by (auto split: option.splits)
  have m: "list_all measurable ns" and i: "i < length ns" using assms(1) by auto
  then obtain h where h: "num_attr ''height'' (ns ! i) = Fin h" "decimal h"
    using measurable_height [OF measurable_nth [OF m i]] c(2) by auto
  let ?n = "of_int (content_height (ns ! c)) + 2" let ?ns = "set_height i (Fin ?n) ns"
  have g: "grows ns ?ns" using assms(1) h c(2) by (intro set_height_grows) auto
  have m1: "list_all measurable ?ns" using repairable_grows [OF assms(1) g] by simp
  have q: "grows ?ns (set_height q (num_add x (Fin (?n - h))) ?ns)"
    if f: "query_first ?ns p tags = Some q" "num_attr ''height'' (?ns ! q) = x" "num_less (Fin 0) x" for p q tags x
  proof -
    have ql: "q < length ?ns" using query_first_in [OF f(1)] by simp
    then obtain sh where "x = Fin sh" "decimal sh" "0 < sh" using measurable_height [OF measurable_nth [OF m1 ql]] f(2,3) by auto
    then show ?thesis using f(2) c(2) h ql by (auto intro!: set_height_grows)
  qed
  have "grows ?ns (fix_foreignObject i ns)"
    using c h q by (auto simp: fix_foreignObject_def Let_def grows_refl split: option.splits)
  with g c(1) show ?thesis using set_height_nth [OF i, of ?n] that by simp
qed

lemma fix_text_cases:
  assumes "repairable (Label i) ns" "\<not> repaired (Label i) ns"
  obtains y h p q sy sh where "bbox (ns ! i) = Some (y, h)" "gparent (ns ! i) = Some p"
    "query_first ns p [''rect'', ''polygon'', ''circle''] = Some q" "q < length ns"
    "num_attr ''height'' (ns ! q) = Fin sh" "num_attr ''y'' (ns ! q) = Fin sy" "0 < sh" "sy + sh < y + h" "decimal (y + h - sy + 2)"
    "fix_text i ns = set_height q (Fin (y + h - sy + 2)) ns"
proof -
  obtain y h p q where o: "bbox (ns ! i) = Some (y, h)" "gparent (ns ! i) = Some p"
    "query_first ns p [''rect'', ''polygon'', ''circle''] = Some q" "num_less (Fin 0) (num_attr ''height'' (ns ! q))"
    "num_less (num_add (num_attr ''y'' (ns ! q)) (num_attr ''height'' (ns ! q))) (Fin (y + h))"
    using assms(2) by (auto simp: text_fits_def split: option.splits)
  have m: "list_all measurable ns" "i < length ns" and ql: "q < length ns" using assms(1) query_first_in [OF o(3)] by auto
  obtain sh where sh: "num_attr ''height'' (ns ! q) = Fin sh" "decimal sh" "0 < sh"
    using measurable_height [OF measurable_nth [OF m(1) ql]] o(4) by auto
  obtain sy where sy: "num_attr ''y'' (ns ! q) = Fin sy" "decimal sy"
    using measurable_y [OF measurable_nth [OF m(1) ql]] o(5) sh(1) by auto
  have "decimal (y + h)" using measurable_nth [OF m] o(1) by (simp add: measurable_def)
  then have d: "decimal (y + h - sy + 2)" using sy(2) by simp
  have "fix_text i ns = set_height q (Fin (y + h - sy + 2)) ns"
    using o sh sy by (simp add: fix_text_def algebra_simps)
  with o ql sh sy d show ?thesis by (intro that) auto
qed

lemma repair_grows: "repairable r ns \<Longrightarrow> grows ns (do_repair r ns)"
proof (cases "repaired r ns")
  case False
  assume r: "repairable r ns"
  show ?thesis
  proof (cases r)
    case (Html i)
    obtain ns1 where "grows ns ns1" "grows ns1 (fix_foreignObject i ns)"
      using r False unfolding Html by (elim fix_foreignObject_cases)
    then show ?thesis unfolding Html do_repair.simps by (rule grows_trans)
  next
    case (Label i)
    from r False show ?thesis unfolding Label
      by (elim fix_text_cases) (auto intro: set_height_grows)
  qed
qed (simp add: repaired_idle grows_refl)
lemma repaired_grows: "repairable r ns \<Longrightarrow> repaired r ns \<Longrightarrow> grows ns ns' \<Longrightarrow> repaired r ns'"
proof (cases r)
  case (Html i)
  assume a: "repairable r ns" "repaired r ns" "grows ns ns'"
  have i: "i < length ns" and m: "measurable (ns ! i)" using a(1) Html by (auto simp: list_all_length)
  show ?thesis
  proof (cases "first_child ns i")
    case (Some c)
    have "content_height (ns' ! c) = content_height (ns ! c)"
      using grown_same [OF grows_nth [OF a(3) first_child_in [OF Some]]] by simp
    then show ?thesis using a(2) grown_height [OF grows_nth [OF a(3) i]] grown_NaN [OF grows_nth [OF a(3) i]]
        measurable_height [OF m] by (auto simp: Html Some first_child_grows [OF a(3)])
  qed (simp add: Html first_child_grows [OF a(3)])
next
  case (Label i)
  assume a: "repairable r ns" "repaired r ns" "grows ns ns'"
  have i: "i < length ns" and m: "list_all measurable ns" using a(1) Label by auto
  have same: "bbox (ns' ! i) = bbox (ns ! i)" "gparent (ns' ! i) = gparent (ns ! i)"
    using grown_same [OF grows_nth [OF a(3) i]] by auto
  have step: "text_fits (ns' ! q) b"
    if q: "query_first ns p [''rect'', ''polygon'', ''circle''] = Some q" and o: "text_fits (ns ! q) b" for p q b
  proof -
    have ql: "q < length ns" and t: "gtag (ns ! q) \<noteq> ''foreignObject''" using query_first_in [OF q] by auto
    note g = grows_nth [OF a(3) ql]
    show ?thesis
    proof (cases "ns' ! q = ns ! q")
      case False
      then obtain h h' where h: "num_attr ''height'' (ns ! q) = Fin h" "0 < h" "num_attr ''height'' (ns' ! q) = Fin h'" "h \<le> h'"
        using g t unfolding grown_def by blast
      then show ?thesis using o grown_same [OF g] measurable_y [OF measurable_nth [OF m ql]] by (auto simp: text_fits_def)
    qed (use o in simp)
  qed
  show ?thesis using a(2) unfolding Label repaired.simps same query_first_grows [OF a(3)]
    by (auto split: option.splits intro: step)
qed

lemma repair_repairs: "repairable r ns \<Longrightarrow> repaired r (do_repair r ns)"
proof (cases "repaired r ns")
  case False
  assume r: "repairable r ns"
  note g = repair_grows [OF r]
  show ?thesis
  proof (cases r)
    case (Html i)
    have i: "i < length ns" using r Html by simp
    obtain c n ns1 where o: "first_child ns i = Some c" "n = of_int (content_height (ns ! c)) + 2"
      "grows ns ns1" "num_attr ''height'' (ns1 ! i) = Fin n" "grows ns1 (fix_foreignObject i ns)"
      using r False unfolding Html by (elim fix_foreignObject_cases)
    have "content_height (do_repair r ns ! c) = content_height (ns ! c)"
      using grown_same [OF grows_nth [OF g first_child_in [OF o(1)]]] by simp
    moreover have "\<exists>h. num_attr ''height'' (do_repair r ns ! i) = Fin h \<and> n \<le> h"
      using grown_height [OF grows_nth [OF o(5)] o(4)] i list_all2_lengthD [OF o(3)] by (simp add: Html)
    ultimately show ?thesis using first_child_grows [OF g, of i] o(1,2) unfolding Html by auto
  next
    case (Label i)
    have i: "i < length ns" using r Label by simp
    obtain y h p q sy sh where o: "bbox (ns ! i) = Some (y, h)" "gparent (ns ! i) = Some p"
      "query_first ns p [''rect'', ''polygon'', ''circle''] = Some q" "q < length ns"
      "num_attr ''y'' (ns ! q) = Fin sy" "decimal (y + h - sy + 2)" "fix_text i ns = set_height q (Fin (y + h - sy + 2)) ns"
      using r False unfolding Label by (elim fix_text_cases)
    have "num_attr ''height'' (do_repair r ns ! q) = Fin (y + h - sy + 2)"
      using set_height_nth [OF o(4,6)] by (simp add: Label o(7))
    then show ?thesis using grown_same [OF grows_nth [OF g i]] grown_same [OF grows_nth [OF g o(4)]]
        query_first_grows [OF g] o(1,2,3,5) unfolding Label by (simp add: text_fits_def)
  qed
qed (simp add: repaired_idle)

interpretation nodes: repairs do_repair repaired grows repairable
  by unfold_locales
     (fact grows_refl grows_trans repair_grows repairable_grows repair_repairs repaired_grows repaired_idle)+
text \<open>The whole pass, as one list of repairs.\<close>

definition repair_list :: "nat \<Rightarrow> gnode list \<Rightarrow> repair list" where
  "repair_list v ns = map Html (query_all ns v [''foreignObject'']) @ map Label (query_all ns v [''text''])"

lemma repairs_good: "list_all measurable ns \<Longrightarrow> \<forall>r \<in> set (repair_list v ns). repairable r ns"
  by (auto simp: repair_list_def query_all_def)

lemma repair_list_grows: "grows ns ns' \<Longrightarrow> repair_list v ns' = repair_list v ns"
  by (simp add: repair_list_def query_all_grows)

lemma fold_repairs:
  "fold do_repair (map Html is) ns = fold fix_foreignObject is ns" "fold do_repair (map Label is) ns = fold fix_text is ns"
  by (induction "is" arbitrary: ns) auto

lemma fixNodeClipping_fold:
  assumes "list_all measurable ns"
  shows "fixNodeClipping ns = (case query_first ns 0 [''svg''] of None \<Rightarrow> ns | Some v \<Rightarrow> fold do_repair (repair_list v ns) ns)"
proof -
  have "query_all (fold fix_foreignObject (query_all ns v [''foreignObject'']) ns) v tags = query_all ns v tags" for v tags
    using query_all_grows [OF nodes.pass_le, of "map Html (query_all ns v [''foreignObject''])" ns] repairs_good [OF assms, of v]
    by (simp add: fold_repairs repair_list_def)
  moreover have "query_first [] 0 [''svg''] = None" by (simp add: query_first_def query_all_def)
  ultimately show ?thesis
    by (auto simp: fixNodeClipping_def repair_list_def fold_repairs Let_def split: option.splits)
qed

section \<open>Properties of the repairs\<close>

text \<open>
  C10. Node repair does its work once: when the sizes can be measured, every HTML label container of the
  diagram is at least as high as its content afterwards, no height shrinks and nothing but heights changes, and a second
  repair of the same nodes (as after opening the overlay or another render) changes nothing, so heights do not creep.
\<close>

theorem node_repair_settles:
  assumes "list_all measurable ns"
  shows "fixNodeClipping (fixNodeClipping ns) = fixNodeClipping ns \<and> list_all2 grown ns (fixNodeClipping ns) \<and>
    (\<forall>v i c. query_first ns 0 [''svg''] = Some v \<longrightarrow> i \<in> set (query_all ns v [''foreignObject'']) \<longrightarrow> first_child ns i = Some c \<longrightarrow>
       num_attr ''height'' (ns ! i) \<noteq> NaN \<longrightarrow>
       (\<exists>h. num_attr ''height'' (fixNodeClipping ns ! i) = Fin h \<and> of_int (content_height (ns ! c)) \<le> h))"
proof (cases "query_first ns 0 [''svg'']")
  case None
  then show ?thesis by (simp add: fixNodeClipping_fold [OF assms] grows_refl)
next
  case (Some v)
  let ?rs = "repair_list v ns" let ?ns = "fold do_repair ?rs ns"
  note good = repairs_good [OF assms, of v]
  have g: "grows ns ?ns" by (rule nodes.pass_le [OF good])
  have m: "list_all measurable ?ns" using assms list_all2_lengthD [OF g] grown_measurable [OF grows_nth [OF g]] by (auto simp: list_all_length)
  have fx: "fixNodeClipping ns = ?ns" by (simp add: fixNodeClipping_fold [OF assms] Some)
  have "fixNodeClipping ?ns = ?ns"
    using nodes.pass_idem [OF good] by (simp add: fixNodeClipping_fold [OF m] query_first_grows [OF g] repair_list_grows [OF g] Some)
  moreover have "\<exists>h. num_attr ''height'' (?ns ! i) = Fin h \<and> of_int (content_height (ns ! c)) \<le> h"
    if i: "i \<in> set (query_all ns v [''foreignObject''])" and c: "first_child ns i = Some c" and n: "num_attr ''height'' (ns ! i) \<noteq> NaN" for i c
  proof -
    have il: "i < length ns" using i by (simp add: query_all_def)
    obtain h0 where "num_attr ''height'' (ns ! i) = Fin h0" using measurable_height [OF measurable_nth [OF assms il]] n by auto
    then obtain h where "num_attr ''height'' (?ns ! i) = Fin h" using grown_height [OF grows_nth [OF g il]] by blast
    moreover have "Html i \<in> set ?rs" using i by (simp add: repair_list_def)
    then have "repaired (Html i) ?ns" using nodes.pass_settles [OF good] by blast
    moreover have "content_height (?ns ! c) = content_height (ns ! c)"
      using grown_same [OF grows_nth [OF g first_child_in [OF c]]] by simp
    ultimately show ?thesis using first_child_grows [OF g, of i] c by auto
  qed
  ultimately show ?thesis using g Some unfolding fx by simp
qed

definition demo_nodes :: "gnode list" where
  "demo_nodes = [
     \<lparr>gtag = ''div'', gparent = None, gattrs = [], scrollHeight = 0, offsetHeight = Some 0, bbox = None\<rparr>,
     \<lparr>gtag = ''svg'', gparent = Some 0, gattrs = [(''height'', ''120'')], scrollHeight = 0, offsetHeight = None, bbox = None\<rparr>,
     \<lparr>gtag = ''g'', gparent = Some 1, gattrs = [], scrollHeight = 0, offsetHeight = None, bbox = None\<rparr>,
     \<lparr>gtag = ''rect'', gparent = Some 2, gattrs = [(''y'', ''-10''), (''height'', ''30'')], scrollHeight = 0, offsetHeight = None, bbox = None\<rparr>,
     \<lparr>gtag = ''foreignObject'', gparent = Some 2, gattrs = [(''height'', ''24'')], scrollHeight = 0, offsetHeight = None, bbox = None\<rparr>,
     \<lparr>gtag = ''div'', gparent = Some 4, gattrs = [], scrollHeight = 48, offsetHeight = Some 24, bbox = None\<rparr>,
     \<lparr>gtag = ''text'', gparent = Some 2, gattrs = [], scrollHeight = 0, offsetHeight = None, bbox = Some (30, 20)\<rparr>]"

theorem node_repair_settles_witness:
  "fixNodeClipping (fixNodeClipping demo_nodes) = fixNodeClipping demo_nodes \<and>
   map (num_attr ''height'') (fixNodeClipping demo_nodes) = map Fin [0, 120, 0, 62, 50, 0, 0]"
proof -
  have "list_all measurable demo_nodes" by code_simp
  then have "fixNodeClipping (fixNodeClipping demo_nodes) = fixNodeClipping demo_nodes" using node_repair_settles by blast
  moreover have "map (num_attr ''height'') (fixNodeClipping demo_nodes) = map Fin [0, 120, 0, 62, 50, 0, 0]" by code_simp
  ultimately show ?thesis by (rule conjI)
qed
text \<open>The parts of a text of numbers with one blank between them.\<close>

lemma split_seps_last: "list_all (\<lambda>c. \<not> is_sep c) a \<Longrightarrow> split_seps a = [a]"
  by (subst split_seps.simps) (simp add: list_all_iff Let_def dropWhile_eq_Nil_conv)

lemma split_seps_step:
  assumes "list_all (\<lambda>c. \<not> is_sep c) a" "r \<noteq> []" "\<not> is_sep (hd r)"
  shows "split_seps (a @ '' '' @ r) = a # split_seps r"
proof -
  have b: "is_sep (CHR '' '')" by code_simp
  have "dropWhile (\<lambda>c. \<not> is_sep c) (a @ '' '' @ r) = '' '' @ r" "takeWhile (\<lambda>c. \<not> is_sep c) (a @ '' '' @ r) = a"
    using assms(1) b by (auto simp: list_all_iff dropWhile_append takeWhile_append dropWhile_eq_Nil_conv)
  moreover have "dropWhile is_sep ('' '' @ r) = r" using assms(2,3) b by (cases r) auto
  ultimately show ?thesis by (subst split_seps.simps) (simp add: Let_def)
qed

lemma num_str_no_sep: "decimal r \<Longrightarrow> list_all (\<lambda>c. \<not> is_sep c) (num_str (Fin r)) \<and> num_str (Fin r) \<noteq> [] \<and> \<not> is_sep (hd (num_str (Fin r)))"
proof -
  assume d: "decimal r"
  have "num_char c \<Longrightarrow> \<not> is_sep c" for c
    using num_char_not_blank [of c] by (auto simp: is_sep_def num_char_def is_digit_def)
  moreover have "list_all num_char (num_str (Fin r))"
    using d by (elim num_str_text) (auto dest: dec_text_chars simp: num_char_def)
  ultimately show ?thesis using num_str_nonempty [OF d] by (auto simp: list_all_iff)
qed

lemma padded_viewBox_reads:
  assumes "map str_to_num (split_seps vb) = [Fin x, Fin y, Fin w, Fin h]" "decimal x" "decimal y" "decimal w" "decimal h"
  shows "map str_to_num (split_seps (padded_viewBox vb)) = [Fin x, Fin y, Fin w, Fin (h + PAD)]"
proof -
  have d: "decimal (h + PAD)" using assms(5) by (simp add: PAD_def)
  have "padded_viewBox vb = num_str (Fin x) @ '' '' @ num_str (Fin y) @ '' '' @ num_str (Fin w) @ '' '' @ num_str (Fin (h + PAD))"
    unfolding padded_viewBox_def assms(1) by simp
  moreover have "split_seps \<dots> = [num_str (Fin x), num_str (Fin y), num_str (Fin w), num_str (Fin (h + PAD))]"
    using num_str_no_sep [OF assms(2)] num_str_no_sep [OF assms(3)] num_str_no_sep [OF assms(4)] num_str_no_sep [OF d]
    by (simp only: split_seps_step split_seps_last hd_append append_is_Nil_conv if_False simp_thms)
  ultimately show ?thesis using assms(2-4) d by simp
qed

text \<open>A viewBox that does not split into four parts (as with a leading blank) is replaced by one without width.\<close>

lemma viewBox_lost: "length (split_seps vb) \<noteq> 4 \<Longrightarrow> padded_viewBox vb = ''0 0 0 24''"
  unfolding padded_viewBox_def by (simp add: PAD_def) code_simp

lemma viewBox_lost_leading_blank: "padded_viewBox '' 0 0 100 50'' = ''0 0 0 24''"
  by (rule viewBox_lost) code_simp

text \<open>A height with a unit loses it.\<close>

lemma height_unit_lost: "get_attr ''height'' (fix_height ''100%'' [(''height'', ''100%'')]) = ''124''"
  by code_simp

text \<open>What the root repair does to each attribute.\<close>

lemma get_attr_update [simp]: "get_attr k (AList.update k' v as) = (if k = k' then v else get_attr k as)"
  by (simp add: get_attr_def update_conv)

lemma get_attr_delete [simp]: "get_attr k (AList.delete k' as) = (if k = k' then [] else get_attr k as)"
  by (simp add: get_attr_def delete_conv)

lemma fix_style_other: "k \<noteq> ''style'' \<Longrightarrow> get_attr k (fix_style as) = get_attr k as"
  by (simp add: fix_style_def Let_def)

lemma fix_root_attr:
  "get_attr k (fix_root_attrs as) =
    (if k = ''overflow'' then ''visible''
     else if k = ''style'' then (if get_attr k as = [] then [] else clean_style (get_attr k as))
     else if k = ''viewBox'' then (if get_attr k as = [] then [] else padded_viewBox (get_attr k as))
     else if k = ''height'' then (if get_attr k as = [] \<or> parseFloat (get_attr k as) = NaN then get_attr k as
       else num_str (num_add (parseFloat (get_attr k as)) (Fin PAD)))
     else get_attr k as)"
proof -
  have "get_attr ''style'' (fix_style as) = (if get_attr ''style'' as = [] then [] else clean_style (get_attr ''style'' as))"
    by (simp add: fix_style_def Let_def)
  then show ?thesis unfolding fix_root_attrs_def fix_height_def fix_viewBox_def Let_def
    using fix_style_other [of "''viewBox''"] fix_style_other [of "''height''"] fix_style_other [of k] by auto
qed
text \<open>The declaration that Mermaid writes goes, what follows it stays.\<close>

lemma match_max_width_decl:
  assumes "list_all is_space b" "v \<noteq> []" "list_all (\<lambda>c. c \<noteq> CHR '';'') v"
  shows "match_max_width (''max-width'' @ b @ '':'' @ v @ '';'' @ rest) = Some rest"
    "match_max_width (''max-width'' @ b @ '':'' @ v) = Some []"
proof -
  have c: "\<not> is_space (CHR '':'')" by code_simp
  have b: "dropWhile is_space (b @ '':'' @ r) = '':'' @ r" for r
    using assms(1) c by (auto simp: list_all_iff dropWhile_append dropWhile_eq_Nil_conv)
  have l: "to_lower (take 9 (''max-width'' @ r)) = ''max-width''" "drop 9 (''max-width'' @ r) = r" for r
    by (simp_all add: to_lower_def Let_def)
  have v: "dropWhile (\<lambda>c. c \<noteq> CHR '';'') (v @ r) = (if r = [] then [] else dropWhile (\<lambda>c. c \<noteq> CHR '';'') r)" for r
    using assms(3) by (auto simp: list_all_iff dropWhile_append dropWhile_eq_Nil_conv)
  have h: "hd v \<noteq> CHR '';''" using assms(2,3) by (cases v) auto
  show "match_max_width (''max-width'' @ b @ '':'' @ v @ '';'' @ rest) = Some rest"
    unfolding match_max_width_def l b Let_def using assms(2) h v [of "CHR '';'' # rest"] by simp
  have q: "dropWhile (\<lambda>c. c \<noteq> CHR '';'') v = []" using assms(3) by (simp add: list_all_iff dropWhile_eq_Nil_conv)
  show "match_max_width (''max-width'' @ b @ '':'' @ v) = Some []"
    unfolding match_max_width_def l b Let_def by (simp add: q h assms(2))
qed

lemma max_width_removed:
  assumes "list_all is_space b" "v \<noteq> []" "list_all (\<lambda>c. c \<noteq> CHR '';'') v"
  shows "drop_max_width (''max-width'' @ b @ '':'' @ v @ '';'' @ rest) = drop_max_width rest"
  using match_max_width_decl(1) [OF assms, of rest] by (subst drop_max_width.simps) simp


definition demo_root :: "(string \<times> string) list" where
  "demo_root = [(''id'', ''m1''), (''viewBox'', ''-8 -8 23.5 12''), (''style'', ''max-width: 23px;''), (''height'', ''12'')]"

definition demo_parse :: "string \<Rightarrow> xml option" where
  "demo_parse c = Some (XElem ''svg'' (if c = ''in'' then demo_root else fix_root_attrs demo_root) [])"


end
