(* ===== verification/Docs_Mermaid.thy ===== *)
theory Docs_Mermaid
  imports Docs_Svg Dom Event_Systems
begin

text \<open>
  The diagram component of the documentation theme (\<open>docs-site/.vitepress/theme/Mermaid.vue\<close>): its template, its state
  and its event handlers. The Mermaid library, the browser's layout, XML parser and serializer are fields of the
  environment; a call of the library that is awaited is in flight until an event answers it, in any order.

  A continuation after \<open>nextTick\<close> runs before the next user event and belongs to the step that awaits it. Where the keyboard
  focus is, is not modelled: the Esc key can be pressed whenever the overlay is there.
\<close>

section \<open>Decoding the source of the diagram\<close>

text \<open>The byte of \<open>%XX\<close> at the start of a text, and the rest.\<close>

fun pct_byte :: "string \<Rightarrow> (nat \<times> string) option" where
  "pct_byte (p # a # b # r) = (if p = CHR ''%'' then (case (hex_val a, hex_val b) of
     (Some x, Some y) \<Rightarrow> Some (16 * x + y, r) | _ \<Rightarrow> None) else None)"
| "pct_byte _ = None"

text \<open>\<open>n\<close> escaped continuation bytes: the code point so far, the bytes and the rest.\<close>

fun pct_conts :: "nat \<Rightarrow> nat \<Rightarrow> string \<Rightarrow> (nat \<times> string \<times> string) option" where
  "pct_conts 0 cp s = Some (cp, [], s)"
| "pct_conts (Suc n) cp s = (case pct_byte s of None \<Rightarrow> None
     | Some (b, r) \<Rightarrow> if b div 64 \<noteq> 2 then None
        else (case pct_conts n (64 * cp + b mod 64) r of None \<Rightarrow> None
          | Some (cp', bs, r') \<Rightarrow> Some (cp', char_of b # bs, r')))"

lemma pct_byte_shorter: "pct_byte s = Some (b, r) \<Longrightarrow> length r < length s"
  by (induction s rule: pct_byte.induct) (auto split: if_splits option.splits)

lemma pct_conts_shorter: "pct_conts n cp s = Some (cp', bs, r) \<Longrightarrow> length r \<le> length s"
proof (induction n arbitrary: cp s cp' bs)
  case (Suc n)
  obtain b r1 where b: "pct_byte s = Some (b, r1)" using Suc.prems by (auto split: option.splits)
  then obtain bs1 where "pct_conts n (64 * cp + b mod 64) r1 = Some (cp', bs1, r)"
    using Suc.prems by (auto split: option.splits if_splits)
  then show ?case using Suc.IH pct_byte_shorter [OF b] by fastforce
qed simp

text \<open>One escaped character in UTF-8, refused when it is not well formed.\<close>

definition pct_multi :: "nat \<Rightarrow> string \<Rightarrow> nat \<Rightarrow> nat \<Rightarrow> int \<Rightarrow> int \<Rightarrow> (string \<times> string) option" where
  "pct_multi b r n cp lo hi = (case pct_conts n cp r of None \<Rightarrow> None
     | Some (cp', bs, r') \<Rightarrow> if lo \<le> int cp' \<and> int cp' \<le> hi \<and> \<not> (55296 \<le> int cp' \<and> int cp' \<le> 57343)
        then Some (char_of b # bs, r') else None)"

definition pct_char :: "string \<Rightarrow> (string \<times> string) option" where
  "pct_char s = (case pct_byte s of None \<Rightarrow> None
     | Some (b, r) \<Rightarrow>
       if b < 128 then Some ([char_of b], r)
       else if b div 32 = 6 then pct_multi b r 1 (b mod 32) 128 2047
       else if b div 16 = 14 then pct_multi b r 2 (b mod 16) 2048 65535
       else if b div 8 = 30 then pct_multi b r 3 (b mod 8) 65536 1114111
       else None)"

lemma pct_multi_shorter: "pct_multi b r n cp lo hi = Some (bs, r') \<Longrightarrow> length r' \<le> length r"
  using pct_conts_shorter [of n cp r] by (auto simp: pct_multi_def split: option.splits if_splits)

lemma pct_char_shorter: "pct_char s = Some (bs, r) \<Longrightarrow> length r < length s"
proof (cases "pct_byte s")
  case (Some br)
  obtain b r1 where br: "br = (b, r1)" by fastforce
  assume "pct_char s = Some (bs, r)"
  then have "length r \<le> length r1" unfolding pct_char_def Some br option.case prod.case
    by (auto split: if_splits dest: pct_multi_shorter)
  then show ?thesis using pct_byte_shorter [of s b r1] Some br by simp
qed (simp add: pct_char_def)

text \<open>\<open>decodeURIComponent(s)\<close>; \<open>None\<close> is its URIError.\<close>

function decodeURIComponent :: "string \<Rightarrow> string option" where
  "decodeURIComponent s = (if s = [] then Some []
     else if hd s = CHR ''%'' then
       (case pct_char s of None \<Rightarrow> None | Some (bs, r) \<Rightarrow> map_option ((@) bs) (decodeURIComponent r))
     else map_option ((#) (hd s)) (decodeURIComponent (tl s)))"
  by pat_completeness auto
termination
  by (relation "measure length") (auto dest: pct_char_shorter)

declare decodeURIComponent.simps [simp del]

lemma decode_plain: "list_all (\<lambda>c. c \<noteq> CHR ''%'') s \<Longrightarrow> decodeURIComponent s = Some s"
  by (induction s) (subst decodeURIComponent.simps; simp)+

text \<open>\<open>/<img([\\w\\W]+?)>/\<close> matches: a tag opening with at least one character before some \<open>>\<close>.\<close>

fun has_img :: "string \<Rightarrow> bool" where
  "has_img [] = False"
| "has_img (c # cs) = (is_prefix ''<img'' (c # cs) \<and> CHR ''>'' \<in> set (drop 4 cs) \<or> has_img cs)"

section \<open>State\<close>

text \<open>The properties of the component and what it relies on: library, page and browser.\<close>

record mm_env =
  graph :: string
  mclass :: string
  mermaidPageTheme :: string
  parseXml :: "string \<Rightarrow> xml option"
  serializeXml :: "xml \<Rightarrow> string option"
  layout :: "string \<Rightarrow> gnode list"
  uriError :: string

text \<open>
  \<open>importing\<close>: the optional configuration is being loaded. \<open>renders\<close>: the calls of \<open>mermaid.render\<close> in flight; the flag marks the
  one that \<open>onMounted\<close> awaits. \<open>initialized\<close>: the configurations passed to \<open>mermaid.initialize\<close>. \<open>imgWait\<close>: the images whose
  loading is awaited. \<open>vpNodes\<close> and \<open>ovNodes\<close>: the elements of the inline viewport and of the overlay's.
\<close>

record mermaid =
  svg :: "string option"
  scale :: jnum
  fullscreen :: bool
  savedScale :: jnum
  pluginSettings :: "(string \<times> jv) list"
  mounted :: bool
  importing :: bool
  observing :: bool
  renders :: "bool list"
  initialized :: "(string \<times> jv) list list"
  imgTimer :: bool
  imgWait :: "nat option"
  bodyOverflow :: string
  vpNodes :: "gnode list"
  ovNodes :: "gnode list"
  vpScroll :: "int \<times> int"
  ovScroll :: "int \<times> int"

definition default_settings :: "(string \<times> jv) list" where
  "default_settings = [(''securityLevel'', JStr ''loose''), (''startOnLoad'', JBool False), (''externalDiagrams'', JArr [])]"

definition mm_init :: mermaid where
  "mm_init = \<lparr>svg = None, scale = Fin 1, fullscreen = False, savedScale = Fin 1, pluginSettings = default_settings,
     mounted = True, importing = True, observing = False, renders = [], initialized = [], imgTimer = False, imgWait = None,
     bodyOverflow = [], vpNodes = [], ovNodes = [], vpScroll = (0, 0), ovScroll = (0, 0)\<rparr>"

section \<open>Rendering\<close>

definition chart_config :: "string \<Rightarrow> bool \<Rightarrow> (string \<times> jv) list \<Rightarrow> (string \<times> jv) list" where
  "chart_config pageTheme hasDarkClass settings =
     (let c = (if pageTheme \<noteq> [] then obj_set ''theme'' (JStr pageTheme) settings else settings)
      in if hasDarkClass then obj_set ''theme'' (JStr ''dark'') c else c)"

definition quoted :: "string \<Rightarrow> string" where
  "quoted s = [CHR 0x22] @ s @ [CHR 0x22]"

definition error_html :: "string \<Rightarrow> string" where
  "error_html e = ''<pre style='' @ quoted ''color:var(--vp-c-danger-1)'' @ ''>'' @ e @ ''</pre>''"

definition salted :: "string \<Rightarrow> string \<Rightarrow> string" where
  "salted fixed salt = fixed @ '' <span style='' @ quoted ''display: none'' @ ''>'' @ salt @ ''</span>''"

text \<open>\<open>svg.value = html\<close>; the elements shown afterwards, repaired by \<open>f\<close>.\<close>

definition show_html :: "mm_env \<Rightarrow> (gnode list \<Rightarrow> gnode list) \<Rightarrow> string \<Rightarrow> mermaid \<Rightarrow> mermaid" where
  "show_html env f html s = s\<lparr>svg := Some html,
     vpNodes := (if mounted s then f (layout env html) else vpNodes s),
     ovNodes := (if mounted s \<and> fullscreen s then f (layout env html) else ovNodes s)\<rparr>"

text \<open>What \<open>onMounted\<close> does once its own render is over: an undecodable source throws here.\<close>

definition after_first :: "mm_env \<Rightarrow> bool \<Rightarrow> mermaid \<Rightarrow> mermaid" where
  "after_first env first s = (case decodeURIComponent (graph env) of
     Some g \<Rightarrow> if first \<and> has_img g then s\<lparr>imgTimer := True\<rparr> else s | None \<Rightarrow> s)"

text \<open>\<open>renderChart\<close> up to the call of \<open>mermaid.render\<close>; \<open>ierr\<close> is the error of \<open>mermaid.initialize\<close>, if it throws.\<close>

definition start_render :: "mm_env \<Rightarrow> bool \<Rightarrow> bool \<Rightarrow> string option \<Rightarrow> mermaid \<Rightarrow> mermaid" where
  "start_render env first hasDarkClass ierr s =
     (let s1 = s\<lparr>initialized := initialized s @ [chart_config (mermaidPageTheme env) hasDarkClass (pluginSettings s)]\<rparr> in
      case ierr of Some e \<Rightarrow> after_first env first (show_html env id (error_html e) s1)
      | None \<Rightarrow> (case decodeURIComponent (graph env) of
          None \<Rightarrow> show_html env id (error_html (uriError env)) s1
        | Some g \<Rightarrow> s1\<lparr>renders := renders s1 @ [first]\<rparr>))"

text \<open>The rest of \<open>renderChart\<close>, with the error or the code that the library answers.\<close>

definition end_render :: "mm_env \<Rightarrow> bool \<Rightarrow> string + string \<Rightarrow> string \<Rightarrow> mermaid \<Rightarrow> mermaid" where
  "end_render env first answer salt s = after_first env first (case answer of
     Inl e \<Rightarrow> show_html env id (error_html e) s
   | Inr svgCode \<Rightarrow> show_html env fixNodeClipping (salted (fixSvgClipping (parseXml env) (serializeXml env) svgCode) salt) s)"

section \<open>Zoom and overlay\<close>

definition MIN_SCALE :: jnum where
  "MIN_SCALE = Fin (3 / 10)"

definition MAX_SCALE :: jnum where
  "MAX_SCALE = Fin 5"

text \<open>\<open>Math.min(a, b)\<close>.\<close>

fun num_min :: "jnum \<Rightarrow> jnum \<Rightarrow> jnum" where
  "num_min NaN b = NaN"
| "num_min a NaN = NaN"
| "num_min NInf b = NInf"
| "num_min a NInf = NInf"
| "num_min PInf b = b"
| "num_min a PInf = a"
| "num_min (Fin a) (Fin b) = Fin (min a b)"

definition clamp :: "jnum \<Rightarrow> jnum" where
  "clamp v = num_min MAX_SCALE (num_max MIN_SCALE v)"

text \<open>\<open>+(x).toFixed(2)\<close>.\<close>

definition round2 :: "jnum \<Rightarrow> jnum" where
  "round2 x = (case js_toFixed2 (JNum x) of Some t \<Rightarrow> str_to_num t | None \<Rightarrow> NaN)"

definition zoomIn :: "mermaid \<Rightarrow> mermaid" where
  "zoomIn s = s\<lparr>scale := clamp (round2 (num_add (scale s) (Fin (1 / 5))))\<rparr>"

definition zoomOut :: "mermaid \<Rightarrow> mermaid" where
  "zoomOut s = s\<lparr>scale := clamp (round2 (num_add (scale s) (Fin (- 1 / 5))))\<rparr>"

definition zoomReset :: "mermaid \<Rightarrow> mermaid" where
  "zoomReset s = (let s1 = s\<lparr>scale := Fin 1\<rparr> in
     if fullscreen s then s1\<lparr>ovScroll := (0, 0)\<rparr> else s1\<lparr>vpScroll := (0, 0)\<rparr>)"

definition onWheel :: "bool \<Rightarrow> bool \<Rightarrow> rat \<Rightarrow> mermaid \<Rightarrow> mermaid" where
  "onWheel ctrlKey metaKey deltaY s = (if \<not> ctrlKey \<and> \<not> metaKey then s
     else s\<lparr>scale := clamp (round2 (num_add (scale s) (Fin (if deltaY > 0 then - 1 / 10 else 1 / 10))))\<rparr>)"

definition openFullscreen :: "mm_env \<Rightarrow> mermaid \<Rightarrow> mermaid" where
  "openFullscreen env s = s\<lparr>savedScale := scale s, fullscreen := True, bodyOverflow := ''hidden'',
     ovNodes := fixNodeClipping (if fullscreen s then ovNodes s else layout env (case svg s of None \<Rightarrow> [] | Some h \<Rightarrow> h)),
     ovScroll := (if fullscreen s then ovScroll s else (0, 0))\<rparr>"

definition closeFullscreen :: "mermaid \<Rightarrow> mermaid" where
  "closeFullscreen s = s\<lparr>fullscreen := False, scale := savedScale s, bodyOverflow := [], ovNodes := []\<rparr>"
section \<open>Template\<close>

datatype handler = HZoomIn | HZoomOut | HZoomReset | HOpen | HClose | HWheel | HEsc

type_synonym mdom = "handler dom"

definition icon :: "(string \<times> string) list \<Rightarrow> mdom list \<Rightarrow> mdom" where
  "icon extra kids = Elem ''svg'' ([(''width'', ''16''), (''height'', ''16''), (''viewBox'', ''0 0 24 24''), (''fill'', ''none''),
     (''stroke'', ''currentColor''), (''stroke-width'', ''2''), (''stroke-linecap'', ''round'')] @ extra) kids []"

definition line_el :: "string \<Rightarrow> string \<Rightarrow> string \<Rightarrow> string \<Rightarrow> mdom" where
  "line_el x1 y1 x2 y2 = Elem ''line'' [(''x1'', x1), (''y1'', y1), (''x2'', x2), (''y2'', y2)] [] []"

definition path_icon :: "string list \<Rightarrow> mdom" where
  "path_icon ds = icon [(''stroke-linejoin'', ''round'')] (map (\<lambda>d. Elem ''path'' [(''d'', d)] [] []) ds)"

definition tool_btn :: "string \<Rightarrow> handler \<Rightarrow> mdom \<Rightarrow> mdom" where
  "tool_btn title h i = Elem ''button'' [(''class'', ''mermaid-btn''), (''title'', title), (''aria-label'', title)] [i] [h]"

text \<open>\<open>Math.round(scale * 100)\<close> with a percent sign, and the style of the diagram.\<close>

definition zoom_label :: "jnum \<Rightarrow> string" where
  "zoom_label n = (case n of Fin r \<Rightarrow> num_str (Fin (of_int \<lfloor>r * 100 + 1 / 2\<rfloor>)) | _ \<Rightarrow> num_str n) @ ''%''"

definition innerStyle :: "jnum \<Rightarrow> (string \<times> string) list" where
  "innerStyle n = [(''transform'', ''scale('' @ num_str n @ '')''), (''transformOrigin'', ''top left'')]"

definition zoom_tools :: "mermaid \<Rightarrow> mdom list" where
  "zoom_tools s =
     [tool_btn ''Zoom in'' HZoomIn (icon [] [line_el ''12'' ''5'' ''12'' ''19'', line_el ''5'' ''12'' ''19'' ''12'']),
      tool_btn ''Zoom out'' HZoomOut (icon [] [line_el ''5'' ''12'' ''19'' ''12'']),
      tool_btn ''Reset zoom'' HZoomReset (path_icon [''M3 12a9 9 0 1 0 9-9'', ''M3 4v5h5'']),
      Elem ''span'' [(''class'', ''mermaid-zoom-label'')] [Text (zoom_label (scale s))] [],
      Elem ''span'' [(''class'', ''mermaid-tools-sep'')] [] []]"

text \<open>The diagram inside a viewport; \<open>v-html\<close> is shown as an attribute.\<close>

definition viewport_el :: "mm_env \<Rightarrow> string \<Rightarrow> mermaid \<Rightarrow> mdom" where
  "viewport_el env cls s = Elem ''div'' [(''class'', cls)]
     [Elem ''div'' ([(''class'', ''mermaid-inner '' @ mclass env)] @ innerStyle (scale s) @
        [(''innerHTML'', case svg s of None \<Rightarrow> [] | Some h \<Rightarrow> h)]) [] []] [HWheel]"

definition toolbar_el :: "mermaid \<Rightarrow> mdom list" where
  "toolbar_el s = (if svg s = None \<or> svg s = Some [] then []
     else [Elem ''div'' [(''class'', ''mermaid-tools'')] (zoom_tools s @
       [tool_btn ''Open in full screen'' HOpen (path_icon [''M8 3H5a2 2 0 0 0-2 2v3'', ''M21 8V5a2 2 0 0 0-2-2h-3'',
          ''M3 16v3a2 2 0 0 0 2 2h3'', ''M16 21h3a2 2 0 0 0 2-2v-3''])]) []])"

definition overlay_el :: "mm_env \<Rightarrow> mermaid \<Rightarrow> mdom list" where
  "overlay_el env s = (if \<not> fullscreen s then []
     else [Elem ''div'' [(''class'', ''mermaid-overlay''), (''tabindex'', ''-1'')]
       [Elem ''div'' [(''class'', ''mermaid-overlay-toolbar'')] (zoom_tools s @
          [tool_btn ''Close full screen'' HClose (path_icon [''M8 3v3a2 2 0 0 1-2 2H3'', ''M21 8h-3a2 2 0 0 1-2-2V3'',
             ''M3 16h3a2 2 0 0 1 2 2v3'', ''M16 21v-3a2 2 0 0 1 2-2h3''])]) [],
        viewport_el env ''mermaid-overlay-viewport'' s] [HEsc]])"

definition mermaid_view :: "mm_env \<Rightarrow> mermaid \<Rightarrow> mdom list" where
  "mermaid_view env s = (if \<not> mounted s then []
     else Elem ''div'' [(''class'', ''mermaid-wrap'')] (toolbar_el s @ [viewport_el env ''mermaid-viewport'' s]) [] # overlay_el env s)"

section \<open>Events\<close>

text \<open>
  A click, a wheel turn or the Esc key on a listener of the page; the answers to the import and to a render; a change of an
  attribute of the document element (with the dark class or without) seen by the observer; the timer of the image
  refresh, with the flag \<open>complete\<close> of each image, and the end of loading of one of them; scrolling; leaving the page.
\<close>

datatype mm_event =
    Press handler
  | Wheel bool bool rat
  | Imported "(string \<times> jv) list option" bool "string option"
  | Mutation bool "string option"
  | Rendered nat "string + string" string
  | ImgTimer "bool list" bool "string option"
  | ImgLoaded bool "string option"
  | Scroll bool "int \<times> int"
  | Unmount

text \<open>\<open>Promise.all\<close> over the images not complete yet; with none the chart is rendered at once.\<close>

definition img_wait :: "mm_env \<Rightarrow> nat \<Rightarrow> bool \<Rightarrow> string option \<Rightarrow> mermaid \<Rightarrow> mermaid" where
  "img_wait env n dark ierr s = (if n = 0 then start_render env False dark ierr (s\<lparr>imgWait := None\<rparr>)
     else s\<lparr>imgWait := Some n\<rparr>)"

fun press :: "mm_env \<Rightarrow> handler \<Rightarrow> mermaid \<Rightarrow> mermaid" where
  "press env HZoomIn s = zoomIn s"
| "press env HZoomOut s = zoomOut s"
| "press env HZoomReset s = zoomReset s"
| "press env HOpen s = openFullscreen env s"
| "press env HClose s = closeFullscreen s"
| "press env HEsc s = closeFullscreen s"
| "press env HWheel s = s"

definition on_page :: "mm_env \<Rightarrow> mermaid \<Rightarrow> handler list" where
  "on_page env s = concat (map listeners (mermaid_view env s))"

fun mm_step :: "mm_env \<Rightarrow> mm_event \<Rightarrow> mermaid \<Rightarrow> mermaid option" where
  "mm_step env (Press h) s = (if h \<in> set (on_page env s) then Some (press env h s) else None)"
| "mm_step env (Wheel ctrl meta dy) s = (if mounted s then Some (onWheel ctrl meta dy s) else None)"
| "mm_step env (Imported settings dark ierr) s = (if importing s
     then Some (start_render env True dark ierr (s\<lparr>importing := False,
       pluginSettings := (case settings of None \<Rightarrow> pluginSettings s | Some c \<Rightarrow> c), observing := True\<rparr>)) else None)"
| "mm_step env (Mutation dark ierr) s = (if observing s then Some (start_render env False dark ierr s) else None)"
| "mm_step env (Rendered i answer salt) s = (if i < length (renders s)
     then Some (end_render env (renders s ! i) answer salt (s\<lparr>renders := take i (renders s) @ drop (Suc i) (renders s)\<rparr>)) else None)"
| "mm_step env (ImgTimer flags dark ierr) s = (if imgTimer s
     then Some (if flags = [] then s\<lparr>imgTimer := False\<rparr>
       else img_wait env (length (filter Not flags)) dark ierr (s\<lparr>imgTimer := False\<rparr>)) else None)"
| "mm_step env (ImgLoaded dark ierr) s = (case imgWait s of None \<Rightarrow> None
     | Some n \<Rightarrow> Some (img_wait env (n - 1) dark ierr s))"
| "mm_step env (Scroll overlay pos) s = (if \<not> mounted s \<or> overlay \<and> \<not> fullscreen s then None
     else Some (if overlay then s\<lparr>ovScroll := pos\<rparr> else s\<lparr>vpScroll := pos\<rparr>))"
| "mm_step env Unmount s = (if mounted s then Some (s\<lparr>mounted := False, observing := False, vpNodes := [], ovNodes := []\<rparr>) else None)"

abbreviation mm_run :: "mm_env \<Rightarrow> mm_event list \<Rightarrow> mermaid \<Rightarrow> mermaid option" where
  "mm_run env \<equiv> run_events (mm_step env)"

end
