(* ===== verification/Docs_Zoom.thy ===== *)
theory Docs_Zoom
  imports Docs_Mermaid
begin

text \<open>
  What the diagram component guarantees: the range of the zoom, the overlay as a refinement of a small specification, the
  page's scroll lock, and the paths on which the component leaves something behind.
\<close>

declare num_str.simps(4) [simp del]

section \<open>Zoom arithmetic\<close>

definition zoom_ok :: "jnum \<Rightarrow> bool" where
  "zoom_ok n = (\<exists>k :: int. 30 \<le> k \<and> k \<le> 500 \<and> n = Fin (of_int k / 100))"

definition bounded :: "int \<Rightarrow> int" where
  "bounded k = max 30 (min 500 k)"

lemma bounded_range [simp]: "30 \<le> bounded k" "bounded k \<le> 500"
  by (simp_all add: bounded_def)

lemma zoom_okI [simp]: "30 \<le> k \<Longrightarrow> k \<le> 500 \<Longrightarrow> zoom_ok (Fin (of_int k / 100))"
  by (auto simp: zoom_ok_def)

lemma zoom_ok_1 [simp]: "zoom_ok (Fin 1)"
  using zoom_okI [of 100] by simp

lemma clamp_hundredths: "clamp (Fin (of_int k / 100)) = Fin (of_int (bounded k) / 100)"
proof -
  have "clamp (Fin (of_int k / 100)) = Fin (min (of_int 500 / 100) (max (of_int 30 / 100) (of_int k / 100)))"
    by (simp add: clamp_def MAX_SCALE_def MIN_SCALE_def)
  also have "\<dots> = Fin (of_int (min 500 (max 30 k)) / 100)" by (simp add: min_def max_def divide_le_cancel)
  also have "min 500 (max 30 k) = bounded k" by (simp add: bounded_def min_def max_def)
  finally show ?thesis .
qed

lemma round2_absorbs:
  assumes "\<bar>x - of_int k / 100\<bar> < 1 / 200" "0 < k" "k \<le> 1000"
  shows "round2 (Fin x) = Fin (of_int k / 100)"
proof -
  have k: "(of_int k :: rat) \<le> 1000" "(0 :: rat) < of_int k" using assms(2,3) by simp_all
  have "\<bar>x\<bar> < 10 ^ 21" using assms(1) k unfolding abs_less_iff by simp
  then show ?thesis using to_fixed2_absorbs [OF assms(1,2)] by (simp add: round2_def)
qed

text \<open>One zoom step by whole hundredths, with any small error in the sum.\<close>

lemma zoom_by:
  assumes "30 \<le> k" "k \<le> 500" "\<bar>d\<bar> \<le> 20" "\<bar>x - (of_int k / 100 + of_int d / 100)\<bar> < 1 / 200"
  shows "clamp (round2 (Fin x)) = Fin (of_int (bounded (k + d)) / 100)"
proof -
  have "round2 (Fin x) = Fin (of_int (k + d) / 100)"
    by (rule round2_absorbs) (use assms in \<open>auto simp: add_divide_distrib\<close>)
  then show ?thesis by (simp only: clamp_hundredths)
qed

lemma zoom_by_exact:
  assumes "30 \<le> k" "k \<le> 500" "\<bar>d\<bar> \<le> 20"
  shows "clamp (round2 (num_add (Fin (of_int k / 100)) (Fin (of_int d / 100)))) = Fin (of_int (bounded (k + d)) / 100)"
  using zoom_by [OF assms, of "of_int k / 100 + of_int d / 100"] by simp

section \<open>Frames\<close>

text \<open>Rendering leaves zoom, overlay and scroll lock alone.\<close>

definition view_part :: "mermaid \<Rightarrow> jnum \<times> bool \<times> jnum \<times> bool \<times> string" where
  "view_part s = (scale s, fullscreen s, savedScale s, mounted s, bodyOverflow s)"

lemma view_part_render [simp]:
  "view_part (show_html env f html s) = view_part s"
  "view_part (after_first env first s) = view_part s"
  "view_part (start_render env first dark ierr s) = view_part s"
  "view_part (end_render env first answer salt s) = view_part s"
  "view_part (img_wait env n dark ierr s) = view_part s"
proof -
  show h: "view_part (show_html env f html s) = view_part s" for f html s by (simp add: view_part_def show_html_def)
  show a: "view_part (after_first env first s) = view_part s" for first s
    by (simp add: view_part_def after_first_def split: option.split)
  show r: "view_part (start_render env first dark ierr s) = view_part s" for first s
    by (simp add: start_render_def a h Let_def split: option.split) (simp add: view_part_def)
  show "view_part (end_render env first answer salt s) = view_part s" by (simp add: end_render_def a h split: sum.split)
  show "view_part (img_wait env n dark ierr s) = view_part s" by (simp add: img_wait_def r) (simp add: view_part_def)
qed

lemma set_view_listeners:
  "set (on_page env s) =
     (if \<not> mounted s then {} else {HWheel} \<union> (if svg s = None \<or> svg s = Some [] then {} else {HZoomIn, HZoomOut, HZoomReset, HOpen})
       \<union> (if fullscreen s then {HZoomIn, HZoomOut, HZoomReset, HClose, HEsc} else {}))"
  by (auto simp: on_page_def mermaid_view_def toolbar_el_def overlay_el_def viewport_el_def zoom_tools_def tool_btn_def icon_def path_icon_def line_el_def)
section \<open>Specification of the viewer\<close>

text \<open>The zoom in per cent, and the zoom to return to while the overlay is open.\<close>

record zoom_view =
  percent :: int
  overlay :: "int option"

datatype zoom_event = ZBy int | ZReset | ZOpen | ZClose | ZNone

fun zoom_step :: "zoom_event \<Rightarrow> zoom_view \<Rightarrow> zoom_view option" where
  "zoom_step (ZBy d) z = Some (z\<lparr>percent := bounded (percent z + d)\<rparr>)"
| "zoom_step ZReset z = Some (z\<lparr>percent := 100\<rparr>)"
| "zoom_step ZOpen z = Some (z\<lparr>overlay := Some (percent z)\<rparr>)"
| "zoom_step ZClose z = (case overlay z of None \<Rightarrow> None | Some k \<Rightarrow> Some \<lparr>percent = k, overlay = None\<rparr>)"
| "zoom_step ZNone z = Some z"

fun abs_press :: "handler \<Rightarrow> zoom_event" where
  "abs_press HZoomIn = ZBy 20"
| "abs_press HZoomOut = ZBy (- 20)"
| "abs_press HZoomReset = ZReset"
| "abs_press HOpen = ZOpen"
| "abs_press HClose = ZClose"
| "abs_press HEsc = ZClose"
| "abs_press HWheel = ZNone"

fun abs_event :: "mm_event \<Rightarrow> zoom_event" where
  "abs_event (Press h) = abs_press h"
| "abs_event (Wheel ctrl meta dy) = (if ctrl \<or> meta then ZBy (if dy > 0 then - 10 else 10) else ZNone)"
| "abs_event _ = ZNone"

definition hundredths :: "jnum \<Rightarrow> int" where
  "hundredths n = (case n of Fin r \<Rightarrow> \<lfloor>r * 100\<rfloor> | _ \<Rightarrow> 0)"

definition abs_view :: "mermaid \<Rightarrow> zoom_view" where
  "abs_view s = \<lparr>percent = hundredths (scale s), overlay = (if fullscreen s then Some (hundredths (savedScale s)) else None)\<rparr>"

definition viewer_ok :: "mermaid \<Rightarrow> bool" where
  "viewer_ok s = (zoom_ok (scale s) \<and> zoom_ok (savedScale s) \<and>
     (mounted s \<longrightarrow> bodyOverflow s = (if fullscreen s then ''hidden'' else [])))"

lemma hundredths_zoom [simp]: "hundredths (Fin (of_int k / 100)) = k"
  by (simp add: hundredths_def)

lemma zoom_ok_hundredths: "zoom_ok n \<Longrightarrow> n = Fin (of_int (hundredths n) / 100) \<and> 30 \<le> hundredths n \<and> hundredths n \<le> 500"
  by (auto simp: zoom_ok_def)

text \<open>A zoom by a handler, on the code's numbers.\<close>

lemma zoom_by_ok:
  assumes "zoom_ok n" "\<bar>d\<bar> \<le> 20"
  shows "clamp (round2 (num_add n (Fin (of_int d / 100)))) = Fin (of_int (bounded (hundredths n + d)) / 100)"
  using zoom_by_exact [of "hundredths n" d] zoom_ok_hundredths [OF assms(1)] assms(2) by simp

lemmas zoom_by_handlers = zoom_by_ok [of _ 20, simplified] zoom_by_ok [of _ "- 20", simplified]
  zoom_by_ok [of _ 10, simplified] zoom_by_ok [of _ "- 10", simplified]

lemma view_part_ok: "view_part s' = view_part s \<Longrightarrow> viewer_ok s' = viewer_ok s \<and> abs_view s' = abs_view s"
  by (simp add: view_part_def viewer_ok_def abs_view_def)

text \<open>Events that are no handlers of the viewer change none of its parts; leaving the page only unmounts it.\<close>

lemma other_event_view_part:
  assumes "mm_step env e s = Some s'" "\<forall>h. e \<noteq> Press h" "\<forall>c m d. e \<noteq> Wheel c m d" "e \<noteq> Unmount"
  shows "view_part s' = view_part s"
  using assms by (cases e) (auto split: if_splits option.splits, auto simp: view_part_def)

lemma press_refines:
  assumes "viewer_ok s" "h \<in> set (on_page env s)"
  shows "viewer_ok (press env h s) \<and> zoom_step (abs_press h) (abs_view s) = Some (abs_view (press env h s))"
proof -
  have z: "zoom_ok (scale s)" "zoom_ok (savedScale s)" "bodyOverflow s = (if fullscreen s then ''hidden'' else [])" "mounted s"
    using assms by (auto simp: viewer_ok_def set_view_listeners split: if_splits)
  have "hundredths (Fin 1) = 100" by (simp add: hundredths_def)
  then show ?thesis using z assms(2) unfolding set_view_listeners
    by (cases h) (auto simp: viewer_ok_def abs_view_def zoomIn_def zoomOut_def zoomReset_def openFullscreen_def closeFullscreen_def
        Let_def zoom_by_handlers split: if_splits)
qed

lemma wheel_refines:
  assumes "viewer_ok s"
  shows "viewer_ok (onWheel c m d s) \<and> zoom_step (abs_event (Wheel c m d)) (abs_view s) = Some (abs_view (onWheel c m d s))"
  using assms by (auto simp: viewer_ok_def abs_view_def onWheel_def zoom_by_handlers)

lemma mm_step_refines:
  assumes "viewer_ok s" "mm_step env e s = Some s'"
  shows "viewer_ok s' \<and> zoom_step (abs_event e) (abs_view s) = Some (abs_view s')"
proof -
  consider (press) h where "e = Press h" | (wheel) c m d where "e = Wheel c m d" | (leave) "e = Unmount"
    | (other) "\<forall>h. e \<noteq> Press h" "\<forall>c m d. e \<noteq> Wheel c m d" "e \<noteq> Unmount" by (cases e) auto
  then show ?thesis
  proof cases
    case press
    then show ?thesis using assms press_refines [of s h env] by (auto split: if_splits)
  next
    case wheel
    then show ?thesis using assms wheel_refines [of s c m d] by (auto split: if_splits)
  next
    case leave
    then show ?thesis using assms by (auto simp: viewer_ok_def abs_view_def split: if_splits)
  next
    case other
    moreover from this have "abs_event e = ZNone" by (cases e) auto
    ultimately show ?thesis using view_part_ok [OF other_event_view_part [OF assms(2)]] assms(1) by simp
  qed
qed

interpretation viewer: event_refinement "mm_step env" viewer_ok zoom_step abs_event abs_view for env
  by unfold_locales (use mm_step_refines in blast)+

lemma viewer_ok_init: "viewer_ok mm_init"
  by (simp add: viewer_ok_def mm_init_def)

lemma abs_view_init: "abs_view mm_init = \<lparr>percent = 100, overlay = None\<rparr>"
  by (simp add: abs_view_def mm_init_def hundredths_def)
section \<open>Properties\<close>

definition demo_env :: mm_env where
  "demo_env = \<lparr>graph = ''A%20B'', mclass = ''mermaid'', mermaidPageTheme = [], parseXml = (\<lambda>c. None), serializeXml = (\<lambda>x. None),
     layout = (\<lambda>h. []), uriError = ''URIError''\<rparr>"

definition demo_events :: "mm_event list" where
  "demo_events = [Imported None False None, Rendered 0 (Inr ''<svg/>'') ''s'', Press HZoomIn, Wheel True False 1, Press HOpen, Press HZoomOut]"

text \<open>
  C9. The viewer refines its specification: for every run of the component, the zoom steps of the specification
  (a per cent number kept between 30 and 500, and the zoom to return to while the overlay is open) can be taken for the
  same events and end in the abstraction of the component's state; the stored scale is exactly that per cent number divided by 100.
\<close>

theorem viewer_refines_spec:
  assumes "mm_run env es mm_init = Some s"
  shows "run_events zoom_step (map abs_event es) \<lparr>percent = 100, overlay = None\<rparr> = Some (abs_view s) \<and>
    scale s = Fin (of_int (percent (abs_view s)) / 100)"
proof -
  have "viewer_ok s" using viewer.run_inv [OF viewer_ok_init assms] .
  then have "scale s = Fin (of_int (hundredths (scale s)) / 100)" using zoom_ok_hundredths by (simp add: viewer_ok_def)
  then have "scale s = Fin (of_int (percent (abs_view s)) / 100)" by (simp add: abs_view_def)
  then show ?thesis using viewer.run_refines [OF viewer_ok_init assms] by (simp only: abs_view_init simp_thms)
qed

lemma demo_run: "\<exists>s. mm_run demo_env demo_events mm_init = Some s \<and> scale s = Fin (9 / 10) \<and> savedScale s = Fin (11 / 10) \<and> fullscreen s \<and> mounted s"
proof -
  have "case mm_run demo_env demo_events mm_init of None \<Rightarrow> False
    | Some s \<Rightarrow> scale s = Fin (9 / 10) \<and> savedScale s = Fin (11 / 10) \<and> fullscreen s \<and> mounted s" by code_simp
  then show ?thesis by (auto split: option.splits)
qed

theorem viewer_refines_spec_witness:
  "run_events zoom_step (map abs_event demo_events) \<lparr>percent = 100, overlay = None\<rparr> = Some \<lparr>percent = 90, overlay = Some 110\<rparr>"
proof -
  obtain s where s: "mm_run demo_env demo_events mm_init = Some s" "scale s = Fin (9 / 10)" "savedScale s = Fin (11 / 10)" "fullscreen s"
    using demo_run by blast
  have "abs_view s = \<lparr>percent = 90, overlay = Some 110\<rparr>" using s(2-4) by (simp add: abs_view_def hundredths_def)
  then show ?thesis using viewer_refines_spec [OF s(1)] by simp
qed

lemma zoom_label_percent: "\<bar>k\<bar> < 10 ^ 21 \<Longrightarrow> zoom_label (Fin (of_int k / 100)) = int_str k @ ''%''"
proof -
  assume k: "\<bar>k\<bar> < 10 ^ 21"
  have "\<lfloor>(of_int k / 100 :: rat) * 100 + 1 / 2\<rfloor> = k" by (simp add: floor_eq_iff)
  then show ?thesis using num_str_int [OF k] by (simp add: zoom_label_def)
qed

text \<open>
  C12. The scale is always a number the viewer can show: in every reachable state it is a whole number of hundredths
  between 0.3 and 5, the label is that number of per cent, and a zoom step yields the same scale whatever rounding
  error below half a hundredth the floating-point sum carries.
\<close>

theorem scale_whole_percent:
  assumes "mm_run env es mm_init = Some s"
  shows "\<exists>k. 30 \<le> k \<and> k \<le> 500 \<and> scale s = Fin (of_int k / 100) \<and> zoom_label (scale s) = int_str k @ ''%'' \<and>
    (\<forall>d x. \<bar>d\<bar> \<le> 20 \<longrightarrow> \<bar>x - (of_int k / 100 + of_int d / 100)\<bar> < 1 / 200 \<longrightarrow>
       clamp (round2 (Fin x)) = clamp (round2 (num_add (scale s) (Fin (of_int d / 100)))))"
proof -
  have "zoom_ok (scale s)" using viewer.run_inv [OF viewer_ok_init assms] by (simp add: viewer_ok_def)
  then obtain k where k: "30 \<le> k" "k \<le> 500" "scale s = Fin (of_int k / 100)" by (auto simp: zoom_ok_def)
  have "\<bar>k\<bar> < 10 ^ 21" using k(1,2) by simp
  then have "zoom_label (scale s) = int_str k @ ''%''" using zoom_label_percent k(3) by simp
  then show ?thesis using k zoom_by [OF k(1,2)] zoom_by_exact [OF k(1,2)] by (intro exI [of _ k]) auto
qed

theorem scale_whole_percent_witness:
  "\<exists>s. mm_run demo_env demo_events mm_init = Some s \<and> zoom_label (scale s) = int_str 90 @ ''%'' \<and>
     clamp (round2 (Fin (110000001 / 100000000))) = clamp (round2 (num_add (scale s) (Fin (of_int 20 / 100))))"
proof -
  obtain s where s: "mm_run demo_env demo_events mm_init = Some s" "scale s = Fin (9 / 10)" using demo_run by blast
  obtain k where k: "scale s = Fin (of_int k / 100)" "zoom_label (scale s) = int_str k @ ''%''"
    "\<forall>d x. \<bar>d\<bar> \<le> 20 \<longrightarrow> \<bar>x - (of_int k / 100 + of_int d / 100)\<bar> < 1 / 200 \<longrightarrow>
       clamp (round2 (Fin x)) = clamp (round2 (num_add (scale s) (Fin (of_int d / 100))))"
    using scale_whole_percent [OF s(1)] by blast
  have "(of_int k :: rat) = of_int 90" using k(1) s(2) by simp
  then have k90: "k = 90" by (simp only: of_int_eq_iff)
  have "\<bar>20 :: int\<bar> \<le> 20" "\<bar>(110000001 / 100000000 :: rat) - (of_int k / 100 + of_int 20 / 100)\<bar> < 1 / 200" by (simp_all add: k90)
  then have "clamp (round2 (Fin (110000001 / 100000000))) = clamp (round2 (num_add (scale s) (Fin (of_int 20 / 100))))"
    using k(3) by blast
  then show ?thesis using s(1) k(2) unfolding k90 by blast
qed
subsection \<open>The overlay\<close>

definition quiet :: "mm_event \<Rightarrow> bool" where
  "quiet e = (e \<notin> {Press HOpen, Press HClose, Press HEsc})"

lemma quiet_keeps_saved: "quiet e \<Longrightarrow> savedScale t = n \<Longrightarrow> mm_step env e t = Some t' \<Longrightarrow> savedScale t' = n"
proof -
  assume e: "quiet e" and n: "savedScale t = n" and st: "mm_step env e t = Some t'"
  consider (press) h where "e = Press h" | (wheel) c m d where "e = Wheel c m d" | (leave) "e = Unmount"
    | (other) "\<forall>h. e \<noteq> Press h" "\<forall>c m d. e \<noteq> Wheel c m d" "e \<noteq> Unmount" by (cases e) auto
  then show "savedScale t' = n"
  proof cases
    case press
    have "press env h t = t' \<Longrightarrow> savedScale t' = n"
      using e n press by (cases h) (auto simp: quiet_def zoomIn_def zoomOut_def zoomReset_def Let_def)
    then show ?thesis using st press by (auto split: if_splits)
  next
    case other
    then show ?thesis using other_event_view_part [OF st] n by (simp add: view_part_def)
  qed (use st n in \<open>auto simp: onWheel_def split: if_splits\<close>)
qed

lemma quiet_run: "mm_run env es t = Some t' \<Longrightarrow> list_all quiet es \<Longrightarrow> savedScale t = n \<Longrightarrow> savedScale t' = n"
  by (rule run_events_keeps [of quiet "\<lambda>t. savedScale t = n" "mm_step env"]) (auto intro: quiet_keeps_saved)

text \<open>
  C13. Opening and closing the overlay is a round trip: whatever happens between the click that opens it and the click
  or Esc key that closes it (zooming by buttons and wheel, reset, scrolling, renders in any order), short of another
  opening or closing, the diagram is back at its zoom, the overlay is gone and the page scrolls again.
\<close>

theorem overlay_roundtrip:
  assumes "mm_run env (Press HOpen # es @ [Press h]) s = Some s'" and "list_all quiet es" and "h \<in> {HClose, HEsc}"
  shows "scale s' = scale s \<and> \<not> fullscreen s' \<and> bodyOverflow s' = [] \<and> overlay_el env s' = []"
proof -
  obtain s1 where s1: "mm_step env (Press HOpen) s = Some s1" "mm_run env (es @ [Press h]) s1 = Some s'"
    using assms(1) by (rule run_events_ConsE)
  obtain s2 where s2: "mm_run env es s1 = Some s2" "mm_step env (Press h) s2 = Some s'"
    using s1(2) by (auto simp: run_events_append split: option.splits)
  have "savedScale s1 = scale s" using s1(1) by (auto simp: openFullscreen_def split: if_splits)
  then have "savedScale s2 = scale s" by (rule quiet_run [OF s2(1) assms(2)])
  moreover have "s' = closeFullscreen s2" using s2(2) assms(3) by (auto split: if_splits)
  ultimately show ?thesis by (simp add: closeFullscreen_def overlay_el_def)
qed

definition demo_visit :: "mm_event list" where
  "demo_visit = [Wheel True False (- 1), Press HZoomIn, Press HZoomReset, Mutation True None, Rendered 0 (Inr ''<svg/>'') ''t'']"

definition demo_shown :: mermaid where
  "demo_shown = (case mm_run demo_env [Imported None False None, Rendered 0 (Inr ''<svg/>'') ''s'', Press HZoomIn] mm_init of
     None \<Rightarrow> mm_init | Some s \<Rightarrow> s)"

theorem overlay_roundtrip_witness:
  "\<exists>s'. mm_run demo_env (Press HOpen # demo_visit @ [Press HEsc]) demo_shown = Some s' \<and> scale s' = scale demo_shown \<and> bodyOverflow s' = []"
proof -
  have "case mm_run demo_env (Press HOpen # demo_visit @ [Press HEsc]) demo_shown of None \<Rightarrow> False | Some s' \<Rightarrow> True" by code_simp
  then obtain s' where s': "mm_run demo_env (Press HOpen # demo_visit @ [Press HEsc]) demo_shown = Some s'" by (auto split: option.splits)
  have "list_all quiet demo_visit" by code_simp
  then show ?thesis using overlay_roundtrip [OF s'] s' by blast
qed

lemma unmounted_stays:
  assumes "\<not> mounted s" "mm_step env e s = Some s'"
  shows "\<not> mounted s' \<and> bodyOverflow s' = bodyOverflow s"
proof -
  have "\<forall>h. e \<noteq> Press h" "\<forall>c m d. e \<noteq> Wheel c m d" "e \<noteq> Unmount"
    using assms by (cases e; auto simp: set_view_listeners split: if_splits)+
  then show ?thesis using other_event_view_part [OF assms(2)] assms(1) by (simp add: view_part_def)
qed

interpretation gone: event_invariant "mm_step env" "\<lambda>s. \<not> mounted s \<and> bodyOverflow s = b" for env b
  by unfold_locales (use unmounted_stays in blast)

lemma observing_render [simp]:
  "observing (show_html env f html s) = observing s"
  "observing (after_first env first s) = observing s"
  "observing (start_render env first dark ierr s) = observing s"
  "observing (end_render env first answer salt s) = observing s"
  "observing (img_wait env n dark ierr s) = observing s"
proof -
  show h: "observing (show_html env f html s) = observing s" for f html s by (simp add: show_html_def)
  show a: "observing (after_first env first s) = observing s" for first s by (simp add: after_first_def split: option.split)
  show r: "observing (start_render env first dark ierr s) = observing s" for first s
    by (simp add: start_render_def a h Let_def split: option.split)
  show "observing (end_render env first answer salt s) = observing s" by (simp add: end_render_def a h split: sum.split)
  show "observing (img_wait env n dark ierr s) = observing s" by (simp add: img_wait_def r)
qed

lemma leaked_stays:
  assumes "\<not> mounted s \<and> observing s" "mm_step env e s = Some s'"
  shows "\<not> mounted s' \<and> observing s'"
proof -
  have m: "\<not> mounted s'" using unmounted_stays assms by blast
  have "observing s'"
  proof (cases e)
    case (ImgTimer flags dark ierr)
    then show ?thesis using assms by (cases "flags = []") (auto split: if_splits)
  next
    case (Imported c dark ierr)
    then show ?thesis using assms by (simp split: if_splits) auto
  qed (use assms in \<open>simp_all add: set_view_listeners split: if_splits option.splits\<close>, auto)
  with m show ?thesis ..
qed

interpretation leaked: event_invariant "mm_step env" "\<lambda>s. \<not> mounted s \<and> observing s" for env
  by unfold_locales (use leaked_stays in blast)

text \<open>
  C14. The page's scroll lock and observer follow the component while it is on the page, and what leaving the page
  leaves behind: as long as the component is mounted, the page is locked exactly while the overlay is open; when the
  page is left with the overlay open, the lock is never released by the component; and when it is left while the
  configuration is still loading, the observer that is created afterwards is never disconnected.
\<close>

theorem leaving_the_page:
  assumes "mm_run env es0 mm_init = Some s" and "mounted s"
  shows "(bodyOverflow s = ''hidden'') = fullscreen s \<and>
    (\<forall>es s'. mm_run env (Unmount # es) s = Some s' \<longrightarrow> \<not> mounted s' \<and> (bodyOverflow s' = ''hidden'') = fullscreen s) \<and>
    (\<forall>es c d i fs s'. mm_run env (Unmount # es @ Imported c d i # fs) s = Some s' \<longrightarrow> \<not> mounted s' \<and> observing s')"
proof (intro conjI allI impI)
  show lock: "(bodyOverflow s = ''hidden'') = fullscreen s"
    using viewer.run_inv [OF viewer_ok_init assms(1)] assms(2) by (simp add: viewer_ok_def)
  fix es s' assume "mm_run env (Unmount # es) s = Some s'"
  then obtain s1 where "mm_step env Unmount s = Some s1" "mm_run env es s1 = Some s'" by (rule run_events_ConsE)
  then show "\<not> mounted s'" "(bodyOverflow s' = ''hidden'') = fullscreen s"
    using gone.run_inv [of s1 "bodyOverflow s" env es s'] lock by (auto split: if_splits)
next
  fix es c d i fs s' assume "mm_run env (Unmount # es @ Imported c d i # fs) s = Some s'"
  then obtain s1 where s1: "mm_step env Unmount s = Some s1" "mm_run env (es @ Imported c d i # fs) s1 = Some s'" by (rule run_events_ConsE)
  then obtain s2 where s2: "mm_run env es s1 = Some s2" "mm_run env (Imported c d i # fs) s2 = Some s'"
    by (auto simp: run_events_append split: option.splits)
  obtain s3 where s3: "mm_step env (Imported c d i) s2 = Some s3" "mm_run env fs s3 = Some s'" using s2(2) by (rule run_events_ConsE)
  have "\<not> mounted s2" using gone.run_inv [OF _ s2(1), of "bodyOverflow s1"] s1(1) by (auto split: if_splits)
  then have "\<not> mounted s3" using unmounted_stays [OF _ s3(1)] by blast
  moreover have "observing s3" using s3(1) by (auto split: if_splits)
  ultimately have "\<not> mounted s3 \<and> observing s3" ..
  then show "\<not> mounted s'" "observing s'" using leaked.run_inv [OF _ s3(2)] by auto
qed

theorem leaving_the_page_witness:
  "(\<exists>s'. mm_run demo_env (demo_events @ [Unmount]) mm_init = Some s' \<and> bodyOverflow s' = ''hidden'') \<and>
   (\<exists>s'. mm_run demo_env [Unmount, Imported None False None] mm_init = Some s' \<and> observing s')"
proof -
  obtain s where s: "mm_run demo_env demo_events mm_init = Some s" "fullscreen s" "mounted s" using demo_run by blast
  then obtain s1 where s1: "mm_run demo_env (Unmount # []) s = Some s1" by simp
  then have "bodyOverflow s1 = ''hidden''" using leaving_the_page [OF s(1,3)] s(2) by blast
  moreover have "mm_run demo_env (demo_events @ [Unmount]) mm_init = Some s1" using s(1) s1 by (simp add: run_events_append)
  moreover have r0: "mm_run demo_env [] mm_init = Some mm_init" "mounted mm_init" by (simp_all add: mm_init_def)
  obtain s2 where s2: "mm_run demo_env (Unmount # [] @ Imported None False None # []) mm_init = Some s2"
    by (simp add: mm_init_def)
  then have "observing s2" using leaving_the_page [OF r0] by blast
  ultimately show ?thesis using s2 by auto
qed
subsection \<open>Errors and themes\<close>

definition error_only :: "mermaid \<Rightarrow> bool" where
  "error_only s = (renders s = [] \<and> \<not> imgTimer s \<and> imgWait s = None \<and> (svg s = None \<or> (\<exists>e. svg s = Some (error_html e))))"

lemma start_render_error:
  assumes "decodeURIComponent (graph env) = None" "error_only s"
  shows "error_only (start_render env first dark ierr s)"
  using assms by (auto simp: start_render_def Let_def after_first_def show_html_def error_only_def split: option.split)

lemma press_error_only: "error_only s \<Longrightarrow> error_only (press env h s)"
  by (cases h) (auto simp: error_only_def zoomIn_def zoomOut_def zoomReset_def openFullscreen_def closeFullscreen_def Let_def)

lemma error_only_step:
  assumes "decodeURIComponent (graph env) = None" "error_only s" "mm_step env e s = Some s'"
  shows "error_only s'"
proof (cases e)
  case (Press h)
  then show ?thesis using assms press_error_only by (auto split: if_splits)
next
  case (Imported c d i)
  let ?t = "s\<lparr>importing := False, pluginSettings := (case c of None \<Rightarrow> pluginSettings s | Some c \<Rightarrow> c), observing := True\<rparr>"
  have "s' = start_render env True d i ?t" using Imported assms(3) by (simp split: if_splits)
  moreover have "error_only ?t" using assms(2) by (simp add: error_only_def)
  ultimately show ?thesis using start_render_error [OF assms(1)] by simp
next
  case (Mutation d i)
  then show ?thesis using assms start_render_error by (auto split: if_splits)
next
  case (Wheel c m d)
  then show ?thesis using assms by (auto simp: error_only_def onWheel_def split: if_splits)
next
  case (Scroll ov p)
  then show ?thesis using assms by (cases ov) (auto simp: error_only_def split: if_splits)
qed (use assms in \<open>auto simp: error_only_def split: if_splits option.splits\<close>)

interpretation undecodable: event_invariant "mm_step env" "\<lambda>s. decodeURIComponent (graph env) = None \<longrightarrow> error_only s" for env
  by unfold_locales (use error_only_step in blast)

text \<open>
  A source that is no URI-encoded text never reaches the library: in every reachable state no render is in
  flight, and what is shown is nothing or an error message.
\<close>

theorem undecodable_source_shown_as_error:
  assumes "decodeURIComponent (graph env) = None" and "mm_run env es mm_init = Some s"
  shows "renders s = [] \<and> (svg s = None \<or> (\<exists>e. svg s = Some (error_html e))) \<and> \<not> imgTimer s"
proof -
  have "error_only mm_init" by (simp add: error_only_def mm_init_def)
  then have "error_only s" using undecodable.run_inv [OF _ assms(2)] assms(1) by blast
  then show ?thesis by (simp add: error_only_def)
qed

theorem undecodable_source_shown_as_error_witness:
  "\<exists>s. mm_run (demo_env\<lparr>graph := ''100%''\<rparr>) [Imported None True None] mm_init = Some s \<and> renders s = [] \<and> svg s = Some (error_html ''URIError'')"
proof -
  let ?env = "demo_env\<lparr>graph := ''100%''\<rparr>"
  have d: "decodeURIComponent (graph ?env) = None" by code_simp
  have "case mm_run ?env [Imported None True None] mm_init of None \<Rightarrow> False | Some s \<Rightarrow> svg s = Some (error_html ''URIError'')" by code_simp
  then obtain s where s: "mm_run ?env [Imported None True None] mm_init = Some s" "svg s = Some (error_html ''URIError'')"
    by (auto split: option.splits)
  then show ?thesis using undecodable_source_shown_as_error [OF d s(1)] by blast
qed

text \<open>
  The theme of a render: dark on a dark page, otherwise the page's own theme, otherwise that of the settings. The
  page's theme has no effect on a dark page.
\<close>

lemma chart_theme:
  "map_of (chart_config t dark c) ''theme'' =
     (if dark then Some (JStr ''dark'') else if t \<noteq> [] then Some (JStr t) else map_of c ''theme'')"
  "k \<noteq> ''theme'' \<Longrightarrow> map_of (chart_config t dark c) k = map_of c k"
  by (simp_all add: chart_config_def Let_def map_of_obj_set)

lemma dark_page_ignores_theme: "map_of (chart_config t True c) = map_of (chart_config t' True c)"
  by (rule ext) (simp add: chart_config_def Let_def map_of_obj_set)

end
