(* ===== verification/Docs_Home.thy ===== *)
theory Docs_Home
  imports Dom Event_Systems "HOL-Library.While_Combinator"
begin

text \<open>
  The home page of the documentation theme (\<open>docs-site/.vitepress/theme\<close>): the FAQ accordion (\<open>HomeFAQ.vue\<close>), the scroll
  motion of \<open>HomeLayout.vue\<close>, the section components that show the page's data (\<open>HomeBands.vue\<close>, \<open>HomeBandVisual.vue\<close>,
  \<open>HomeFlags.vue\<close>, \<open>HomePersonas.vue\<close>, \<open>HomeEditions.vue\<close>, \<open>HomeHeroImage.vue\<close>) and the registration of the components
  (\<open>index.els\<close>). The data of the front matter has the declared types; \<open>withBase\<close> of VitePress is an argument.
\<close>

section \<open>The FAQ accordion\<close>

record faq_item =
  faq_q :: string
  faq_a :: string

record faq =
  faqs :: "faq_item list"
  openIndex :: int

definition faq_init :: "faq_item list \<Rightarrow> faq" where
  "faq_init items = \<lparr>faqs = items, openIndex = 0\<rparr>"

definition toggle :: "nat \<Rightarrow> faq \<Rightarrow> faq" where
  "toggle i s = s\<lparr>openIndex := (if openIndex s = int i then - 1 else int i)\<rparr>"

definition bool_str :: "bool \<Rightarrow> string" where
  "bool_str b = (if b then ''true'' else ''false'')"

definition faq_item_el :: "faq \<Rightarrow> nat \<Rightarrow> nat dom" where
  "faq_item_el s i = (let item = faqs s ! i; opened = (openIndex s = int i) in
     Elem ''div'' [(''class'', ''faq-item'' @ (if opened then '' faq-item-open'' else []))]
       [Elem ''button'' [(''type'', ''button''), (''class'', ''faq-q''), (''aria-expanded'', bool_str opened)]
          [Elem ''span'' [(''class'', ''faq-q-text'')] [Text (faq_q item)] [],
           Elem ''span'' [(''class'', ''faq-chevron''), (''aria-hidden'', ''true'')] [] []] [i],
        Elem ''div'' [(''class'', ''faq-a'' @ (if opened then '' faq-a-open'' else []))] [Elem ''p'' [] [Text (faq_a item)] []] []] [])"

definition faq_view :: "faq \<Rightarrow> nat dom" where
  "faq_view s = Elem ''div'' [(''class'', ''home-faq'')] (map (faq_item_el s) [0 ..< length (faqs s)]) []"

text \<open>A click on a question that is shown.\<close>

definition faq_step :: "nat \<Rightarrow> faq \<Rightarrow> faq option" where
  "faq_step i s = (if i \<in> set (listeners (faq_view s)) then Some (toggle i s) else None)"

text \<open>The answers that are shown open.\<close>

definition opened :: "faq \<Rightarrow> nat list" where
  "opened s = filter (\<lambda>i. openIndex s = int i) [0 ..< length (faqs s)]"

section \<open>Scroll motion\<close>

text \<open>The element tree of the page; the classes are kept apart since the code changes them.\<close>

datatype enode = ENode (eid: nat) (ekids: "enode list")

fun nodes :: "enode \<Rightarrow> enode list" where
  "nodes (ENode i ks) = ENode i ks # concat (map nodes ks)"

record home_page =
  pageRoot :: "enode option"
  cls :: "nat \<Rightarrow> string list"
  delays :: "nat \<Rightarrow> string option"
  observed :: "nat list list"

definition add_class :: "string \<Rightarrow> nat \<Rightarrow> home_page \<Rightarrow> home_page" where
  "add_class c i p = (if c \<in> set (cls p i) then p else p\<lparr>cls := (cls p)(i := cls p i @ [c])\<rparr>)"

definition with_class :: "string \<Rightarrow> home_page \<Rightarrow> enode list \<Rightarrow> enode list" where
  "with_class c p ns = filter (\<lambda>n. c \<in> set (cls p (eid n))) ns"

text \<open>The feature cards: a class, and a delay that stops growing after twelve cards.\<close>

definition enter_feature :: "nat \<times> enode \<Rightarrow> home_page \<Rightarrow> home_page" where
  "enter_feature x p = (let q = add_class ''feature-enter'' (eid (snd x)) p
     in q\<lparr>delays := (delays q)(eid (snd x) := Some (nat_str (min (fst x) 11 * 45) @ ''ms''))\<rparr>)"

text \<open>\<open>while (contentRoot \&\& contentRoot.children.length === 1) ...\<close>: \<open>None\<close> if the loop does not end.\<close>

definition content_root :: "enode \<Rightarrow> enode option" where
  "content_root n = while_option (\<lambda>n. length (ekids n) = 1) (\<lambda>n. hd (ekids n)) n"

definition reveal_all :: "enode list \<Rightarrow> home_page \<Rightarrow> home_page" where
  "reveal_all els p = (let q = fold (\<lambda>n. add_class ''reveal'' (eid n)) els p in q\<lparr>observed := observed q @ [map eid els]\<rparr>)"

text \<open>\<open>applyHomeMotion()\<close>; a page without a document (server-side rendering) has no root.\<close>

definition applyHomeMotion :: "bool \<Rightarrow> home_page \<Rightarrow> home_page option" where
  "applyHomeMotion reduced p = (case pageRoot p of None \<Rightarrow> Some p
     | Some r \<Rightarrow> if reduced then Some p
       else (case with_class ''VPHome'' p (nodes r) of [] \<Rightarrow> Some p
         | home # _ \<Rightarrow>
           let below = tl (nodes home);
               p1 = fold enter_feature (zip [0 ..< length (with_class ''VPFeature'' p below)] (with_class ''VPFeature'' p below)) p;
               targets = (case with_class ''vp-doc'' p below of [] \<Rightarrow> Some []
                 | d # _ \<Rightarrow> map_option (\<lambda>c. ekids c @ with_class ''home-band'' p below) (content_root d))
           in (case targets of None \<Rightarrow> None
               | Some els \<Rightarrow> Some (if els = [] then p1 else reveal_all els (add_class ''motion-ready'' (eid home) p1)))))"

text \<open>The callback of observer \<open>k\<close>: entries with their flag \<open>isIntersecting\<close>.\<close>

definition intersect_entry :: "nat \<Rightarrow> nat \<times> bool \<Rightarrow> home_page \<Rightarrow> home_page" where
  "intersect_entry k e p = (if snd e then (add_class ''revealed'' (fst e) p)\<lparr>observed := (observed p)[k := removeAll (fst e) (observed p ! k)]\<rparr>
     else p)"

text \<open>
  Mounting or a change of the route, with the page it leads to (\<open>None\<close> when the elements stay), and the callback of an
  observer. The old elements are gone with the old page; a new page has no element with the class \<open>reveal\<close>.
\<close>

datatype motion_event = Route "(enode \<times> (nat \<Rightarrow> string list)) option" bool | Intersect nat "(nat \<times> bool) list"

fun motion_step :: "motion_event \<Rightarrow> home_page \<Rightarrow> home_page option" where
  "motion_step (Route new reduced) p = (case new of None \<Rightarrow> applyHomeMotion reduced p
     | Some (r, c) \<Rightarrow> if list_ex (\<lambda>n. ''reveal'' \<in> set (c (eid n))) (nodes r) then None
         else applyHomeMotion reduced \<lparr>pageRoot = Some r, cls = c, delays = (\<lambda>i. None), observed = []\<rparr>)"
| "motion_step (Intersect k es) p = (if k < length (observed p) \<and> list_all (\<lambda>e. fst e \<in> set (observed p ! k)) es
     then Some (fold (intersect_entry k) es p) else None)"
section \<open>Laws\<close>

lemma faq_listeners: "set (listeners (faq_view s)) = {..< length (faqs s)}"
  by (auto simp: faq_view_def faq_item_el_def Let_def)

lemma opened_iff: "opened s = (if 0 \<le> openIndex s \<and> openIndex s < int (length (faqs s)) then [nat (openIndex s)] else [])"
proof -
  have "filter (\<lambda>i. k = int i) [0 ..< n] = (if 0 \<le> k \<and> k < int n then [nat k] else [])" for k n
    by (induction n) auto
  then show ?thesis by (simp add: opened_def)
qed

lemma add_class_facts [simp]:
  "d \<in> set (cls (add_class c i p) j) \<longleftrightarrow> d \<in> set (cls p j) \<or> d = c \<and> i = j"
  "observed (add_class c i p) = observed p" "pageRoot (add_class c i p) = pageRoot p"
  by (auto simp: add_class_def)

lemma enter_features_keep:
  "d \<noteq> ''feature-enter'' \<Longrightarrow> d \<in> set (cls (fold enter_feature xs p) j) \<longleftrightarrow> d \<in> set (cls p j)"
  "observed (fold enter_feature xs p) = observed p" "pageRoot (fold enter_feature xs p) = pageRoot p"
proof (induction xs arbitrary: p)
  case (Cons x xs)
  { case 1 then show ?case using Cons.IH(1) by (auto simp: enter_feature_def Let_def) }
  { case 2 then show ?case using Cons.IH(2) by (simp add: enter_feature_def Let_def) }
  { case 3 then show ?case using Cons.IH(3) by (simp add: enter_feature_def Let_def) }
qed simp_all

lemma reveal_fold:
  "d \<in> set (cls (fold (\<lambda>n. add_class c (eid n)) els p) j) \<longleftrightarrow> d \<in> set (cls p j) \<or> d = c \<and> j \<in> eid ` set els"
  "observed (fold (\<lambda>n. add_class c (eid n)) els p) = observed p" "pageRoot (fold (\<lambda>n. add_class c (eid n)) els p) = pageRoot p"
  by (induction els arbitrary: p) auto

lemma nodes_self: "n \<in> set (nodes n)"
  by (cases n) simp

lemma nodes_kids: "k \<in> set (ekids n) \<Longrightarrow> set (nodes k) \<subseteq> set (nodes n)"
  by (cases n) auto

lemma kid_smaller: "length (ekids n) = 1 \<Longrightarrow> size (hd (ekids n)) < size n"
  by (cases n; cases "ekids n") auto

text \<open>The loop over single-child wrappers ends at an element of the content with none or several children.\<close>

lemma content_root_ends:
  "\<exists>m. content_root n = Some m \<and> length (ekids m) \<noteq> 1 \<and> set (nodes m) \<subseteq> set (nodes n)"
proof -
  let ?b = "\<lambda>n. length (ekids n) = 1" and ?c = "\<lambda>n. hd (ekids n)"
  have "\<exists>m. while_option ?b ?c n = Some m"
    by (rule measure_while_option_Some [where P = "\<lambda>n. True" and f = size]) (use kid_smaller in auto)
  then obtain m where m: "while_option ?b ?c n = Some m" by blast
  have "set (nodes m) \<subseteq> set (nodes n)"
  proof (rule while_option_rule [where P = "\<lambda>x. set (nodes x) \<subseteq> set (nodes n)", OF _ m])
    fix x assume x: "set (nodes x) \<subseteq> set (nodes n)" "?b x"
    then have "hd (ekids x) \<in> set (ekids x)" by (cases "ekids x") auto
    then show "set (nodes (hd (ekids x))) \<subseteq> set (nodes n)" using nodes_kids x(1) by blast
  qed simp
  moreover have "length (ekids m) \<noteq> 1" using while_option_stop [OF m] .
  ultimately show ?thesis using m by (auto simp: content_root_def)
qed

text \<open>No section stays hidden: what waits for its reveal is revealed already or watched by an observer.\<close>

definition all_watched :: "home_page \<Rightarrow> bool" where
  "all_watched p = (case pageRoot p of None \<Rightarrow> True
     | Some r \<Rightarrow> \<forall>n \<in> set (nodes r). ''reveal'' \<in> set (cls p (eid n)) \<longrightarrow>
         ''revealed'' \<in> set (cls p (eid n)) \<or> (\<exists>w \<in> set (observed p). eid n \<in> set w))"

lemma applyHomeMotion_total: "\<exists>p'. applyHomeMotion reduced p = Some p'"
proof -
  obtain f where f: "\<And>n. content_root n = Some (f n)" using content_root_ends by metis
  show ?thesis unfolding applyHomeMotion_def Let_def f by (auto split: option.split list.split)
qed

lemma applyHomeMotion_cases:
  assumes "applyHomeMotion reduced p = Some p'"
  obtains "p' = p" | xs where "p' = fold enter_feature xs p"
    | xs els i where "p' = reveal_all els (add_class ''motion-ready'' i (fold enter_feature xs p))"
  using assms unfolding applyHomeMotion_def Let_def by (auto split: option.splits list.splits if_splits)

lemma applyHomeMotion_watched:
  assumes "applyHomeMotion reduced p = Some p'" "all_watched p"
  shows "all_watched p'"
  using assms(1)
proof (cases rule: applyHomeMotion_cases)
  case (2 xs)
  then show ?thesis using assms(2) by (simp add: all_watched_def enter_features_keep split: option.splits)
next
  case (3 xs els i)
  then show ?thesis using assms(2)
    by (auto simp: all_watched_def reveal_all_def Let_def reveal_fold enter_features_keep split: option.splits)
qed (use assms(2) in simp)

lemma unwatch_other: "w \<in> set ws \<Longrightarrow> j \<in> set w \<Longrightarrow> j \<noteq> a \<Longrightarrow> \<exists>w \<in> set (ws[k := removeAll a (ws ! k)]). j \<in> set w"
  by (induction ws arbitrary: k) (auto split: nat.split)

lemma intersect_entry_watched: "all_watched p \<Longrightarrow> all_watched (intersect_entry k e p)"
  using unwatch_other [of _ "observed p" _ "fst e" k]
  by (fastforce simp: all_watched_def intersect_entry_def split: option.splits)

lemma motion_step_watched: "all_watched p \<Longrightarrow> motion_step e p = Some p' \<Longrightarrow> all_watched p'"
proof (cases e)
  case (Route new reduced)
  assume p: "all_watched p" "motion_step e p = Some p'"
  show ?thesis
  proof (cases new)
    case (Some rc)
    obtain r c where rc: "rc = (r, c)" by fastforce
    have "all_watched \<lparr>pageRoot = Some r, cls = c, delays = (\<lambda>i. None), observed = []\<rparr>"
      using p(2) by (auto simp: Route Some rc all_watched_def list_ex_iff split: if_splits)
    then show ?thesis using p(2) applyHomeMotion_watched by (auto simp: Route Some rc split: if_splits)
  qed (use p Route applyHomeMotion_watched in auto)
next
  case (Intersect k es)
  have "all_watched q \<Longrightarrow> all_watched (fold (intersect_entry k) es q)" for q
    by (induction es arbitrary: q) (auto intro: intersect_entry_watched)
  then show "all_watched p \<Longrightarrow> motion_step e p = Some p' \<Longrightarrow> all_watched p'" by (auto simp: Intersect split: if_splits)
qed

interpretation motion: event_invariant motion_step all_watched
  by unfold_locales (rule motion_step_watched)
section \<open>Properties\<close>


text \<open>
  C16. No section of the page stays hidden: after any sequence of route changes and observer callbacks, each element
  that was hidden for its reveal is revealed already or watched by an observer, whose next callback in view reveals it.
\<close>

theorem no_section_stuck:
  assumes "run_events motion_step es \<lparr>pageRoot = None, cls = (\<lambda>i. []), delays = (\<lambda>i. None), observed = []\<rparr> = Some p"
    and "pageRoot p = Some r" and "n \<in> set (nodes r)" and "''reveal'' \<in> set (cls p (eid n))" and "''revealed'' \<notin> set (cls p (eid n))"
  shows "\<exists>k p'. k < length (observed p) \<and> motion_step (Intersect k [(eid n, True)]) p = Some p' \<and> ''revealed'' \<in> set (cls p' (eid n))"
proof -
  have "all_watched \<lparr>pageRoot = None, cls = (\<lambda>i. []), delays = (\<lambda>i. None), observed = []\<rparr>" by (simp add: all_watched_def)
  then have "all_watched p" using motion.run_inv assms(1) by blast
  then obtain w where "w \<in> set (observed p)" "eid n \<in> set w" using assms(2-5) by (auto simp: all_watched_def)
  then obtain k where "k < length (observed p)" "eid n \<in> set (observed p ! k)" by (auto simp: in_set_conv_nth [of w])
  then show ?thesis by (intro exI [of _ k] exI [of _ "intersect_entry k (eid n, True) p"]) (simp add: intersect_entry_def)
qed

definition demo_tree :: enode where
  "demo_tree = ENode 0 [ENode 1 [ENode 2 [], ENode 3 [ENode 4 [ENode 5 [], ENode 6 []]]]]"

definition demo_classes :: "nat \<Rightarrow> string list" where
  "demo_classes i = (if i = 1 then [''VPHome''] else if i = 2 then [''VPFeature''] else if i = 3 then [''vp-doc''] else [])"

theorem no_section_stuck_witness:
  "\<exists>p k p'. run_events motion_step [Route (Some (demo_tree, demo_classes)) False, Intersect 0 [(5, True)]]
       \<lparr>pageRoot = None, cls = (\<lambda>i. []), delays = (\<lambda>i. None), observed = []\<rparr> = Some p \<and>
     motion_step (Intersect k [(6, True)]) p = Some p' \<and> ''revealed'' \<in> set (cls p' 6)"
proof -
  let ?p0 = "\<lparr>pageRoot = None, cls = (\<lambda>i. []), delays = (\<lambda>i. None), observed = []\<rparr> :: home_page"
  let ?es = "[Route (Some (demo_tree, demo_classes)) False, Intersect 0 [(5, True)]]"
  have "case run_events motion_step ?es ?p0 of None \<Rightarrow> False
    | Some p \<Rightarrow> (case pageRoot p of None \<Rightarrow> False | Some r \<Rightarrow> list_ex (\<lambda>n. eid n = 6) (nodes r) \<and> ''reveal'' \<in> set (cls p 6) \<and> ''revealed'' \<notin> set (cls p 6))"
    by code_simp
  then obtain p r n where p: "run_events motion_step ?es ?p0 = Some p" "pageRoot p = Some r" "n \<in> set (nodes r)" and
    n: "eid n = 6" "''reveal'' \<in> set (cls p (eid n))" "''revealed'' \<notin> set (cls p (eid n))"
    by (auto simp: list_ex_iff split: option.splits)
  from no_section_stuck [OF p n(2,3)] p(1) show ?thesis unfolding n(1) by blast
qed

text \<open>
  The accordion shows at most one answer: with questions on the page the first one is open at the start; whatever is clicked, at
  most one answer is open; and a click on a question opens its answer exactly if it was closed and closes all others.
\<close>

theorem faq_accordion:
  assumes "run_events faq_step is (faq_init items) = Some s"
  shows "length (opened s) \<le> 1 \<and> (items \<noteq> [] \<longrightarrow> opened (faq_init items) = [0]) \<and>
    (\<forall>i s'. faq_step i s = Some s' \<longrightarrow> opened s' = (if i \<in> set (opened s) then [] else [i]))"
proof (intro conjI allI impI)
  show "length (opened s) \<le> 1" by (simp add: opened_iff)
  show "opened (faq_init items) = [0]" if "items \<noteq> []" using that by (simp add: opened_iff faq_init_def)
  fix i s' assume "faq_step i s = Some s'"
  then have "s' = toggle i s" "i < length (faqs s)" by (auto simp: faq_step_def faq_listeners split: if_splits)
  then show "opened s' = (if i \<in> set (opened s) then [] else [i])" by (auto simp: opened_iff toggle_def)
qed

definition demo_faq :: "faq_item list" where
  "demo_faq = [\<lparr>faq_q = ''q1'', faq_a = ''a1''\<rparr>, \<lparr>faq_q = ''q2'', faq_a = ''a2''\<rparr>]"

theorem faq_accordion_witness:
  "\<exists>s. run_events faq_step [1, 0] (faq_init demo_faq) = Some s \<and> length (opened s) \<le> 1"
proof -
  have "run_events faq_step [1, 0] (faq_init demo_faq) \<noteq> None" by code_simp
  then obtain s where "run_events faq_step [1, 0] (faq_init demo_faq) = Some s" by blast
  with faq_accordion show ?thesis by blast
qed

end
