(* ===== verification/Docs_Sections.thy ===== *)
theory Docs_Sections
  imports Dom
begin

text \<open>
  The sections of the documentation's home page that show the data of its front matter (\<open>HomeBands.vue\<close>,
  \<open>HomeBandVisual.vue\<close>, \<open>HomeFlags.vue\<close>, \<open>HomePersonas.vue\<close>, \<open>HomeEditions.vue\<close>, \<open>HomeHeroImage.vue\<close>), each as the tree its
  template yields, and the registration of the components (\<open>index.ts\<close>). Optional fields are options; the empty string and an
  absent field are both falsy in a template. \<open>v-html\<close> is shown as an attribute.
\<close>

section \<open>Building blocks\<close>

text \<open>The sections have no listeners.\<close>

type_synonym sdom = "unit dom"

definition tag :: "string \<Rightarrow> string \<Rightarrow> sdom list \<Rightarrow> sdom" where
  "tag t c kids = Elem t [(''class'', c)] kids []"

definition given :: "string option \<Rightarrow> (string \<Rightarrow> 'b list) \<Rightarrow> 'b list" where
  "given x f = (case x of None \<Rightarrow> [] | Some s \<Rightarrow> if s = [] then [] else f s)"

definition rarr :: string where
  "rarr = [CHR 0xE2, CHR 0x86, CHR 0x92]"

definition hidden_span :: "string \<Rightarrow> sdom list \<Rightarrow> sdom" where
  "hidden_span c kids = Elem ''span'' [(''class'', c), (''aria-hidden'', ''true'')] kids []"

definition html_span :: "string \<Rightarrow> string \<Rightarrow> sdom" where
  "html_span c h = Elem ''span'' [(''class'', c), (''innerHTML'', h)] [] []"

section \<open>Illustrations\<close>

text \<open>A template literal: each line after a line end.\<close>

definition markup :: "string list \<Rightarrow> string" where
  "markup ls = concat (map (\<lambda>l. CHR 0x0A # l) ls)"

definition scene_proxying :: string where
  \<open>scene_proxying = markup [
      ''    <path class="bv-line" d="M44 78V44c0-14 11-24 28-24h16c17 0 28 10 28 24v34"/>'',
      ''    <path class="bv-dash bv-teal" d="M6 62h208"/>'',
      ''    <g class="bv-flow"><circle class="bv-dot" cx="14" cy="62" r="4"/></g>'']\<close>

definition scene_reqresp :: string where
  \<open>scene_reqresp = markup [
      ''    <path class="bv-dash" d="M14 26h186"/>'',
      ''    <path class="bv-line" d="M198 20l12 6-12 6"/>'',
      ''    <path class="bv-dash bv-teal bv-march-r" d="M14 58h186"/>'',
      ''    <path class="bv-line" d="M22 52l-12 6 12 6"/>'',
      ''    <g class="bv-slide"><circle class="bv-dot" cx="76" cy="58" r="7"/></g>'']\<close>

definition scene_translation :: string where
  \<open>scene_translation = markup [
      ''    <circle class="bv-line" cx="34" cy="42" r="15"/>'',
      ''    <rect class="bv-line" x="94" y="27" width="30" height="30" rx="6"/>'',
      ''    <path class="bv-line" d="M154 57l15-25 15 25z"/>'',
      ''    <path class="bv-dash bv-teal" d="M52 42h36m44 0h18"/>'']\<close>

definition scene_traffic :: string where
  \<open>scene_traffic = markup [
      ''    <path class="bv-line" d="M58 64a52 52 0 0 1 104 0"/>'',
      ''    <path class="bv-line" d="M50 64h14M156 64h14"/>'',
      ''    <g class="bv-needle">'',
      ''      <path class="bv-teal bv-stroke2" d="M110 64l26-22"/>'',
      ''      <circle class="bv-dot" cx="110" cy="64" r="4"/>'',
      ''    </g>'']\<close>

definition scene_security :: string where
  \<open>scene_security = markup [
      ''    <path class="bv-line" d="M56 10 24 24v20c0 19 14 30 32 36 18-6 32-17 32-36V24L56 10Z"/>'',
      ''    <circle class="bv-ringpulse" cx="56" cy="40" r="17"/>'',
      ''    <circle class="bv-line" cx="128" cy="40" r="9"/>'',
      ''    <path class="bv-dash bv-teal" d="M137 40h58"/>'',
      ''    <path class="bv-teal" d="M180 40v12M191 40v8"/>'']\<close>

definition scene_ai :: string where
  \<open>scene_ai = markup [
      ''    <path class="bv-teal" d="M110 24l5 13 13 5-13 5-5 13-5-13-13-5 13-5 5-13Z"/>'',
      ''    <circle class="bv-dash" cx="110" cy="42" r="30"/>'',
      ''    <g class="bv-orbit">'',
      ''      <circle class="bv-dot" cx="140" cy="42" r="4"/>'',
      ''      <circle class="bv-dot bv-dim" cx="80" cy="42" r="3"/>'',
      ''    </g>'']\<close>

definition scene_extensibility :: string where
  \<open>scene_extensibility = markup [
      ''    <rect class="bv-line" x="16" y="28" width="46" height="28" rx="7"/>'',
      ''    <path class="bv-line" d="M62 36h16M62 48h16"/>'',
      ''    <g class="bv-plug">'',
      ''      <rect class="bv-teal" x="96" y="28" width="42" height="28" rx="7"/>'',
      ''      <path class="bv-teal" d="M138 36h14M138 48h14"/>'',
      ''    </g>'',
      ''    <path class="bv-dash" d="M162 42h34"/>'']\<close>

definition scene_observability :: string where
  \<open>scene_observability = markup [
      ''    <path class="bv-draw bv-teal" d="M8 46h30l10-24 14 44 12-28 8 8h24"/>'',
      ''    <path class="bv-bar" d="M148 66V52"/>'',
      ''    <path class="bv-bar" d="M164 66V36"/>'',
      ''    <path class="bv-bar" d="M180 66V44"/>'',
      ''    <path class="bv-bar" d="M196 66V28"/>'']\<close>

definition scene_operations :: string where
  \<open>scene_operations = markup [
      ''    <g class="bv-spin">'',
      ''      <path class="bv-dash bv-teal" d="M136 42a28 28 0 1 1-8-20"/>'',
      ''      <path class="bv-teal" d="M132 12v14h-14"/>'',
      ''    </g>'',
      ''    <circle class="bv-dot" cx="110" cy="42" r="5"/>'',
      ''    <path class="bv-dash" d="M156 42h52M110 78H52"/>'']\<close>

definition scene_fleet :: string where
  \<open>scene_fleet = markup [
      ''    <circle class="bv-dot" cx="110" cy="42" r="6"/>'',
      ''    <circle class="bv-ringpulse" cx="110" cy="42" r="18"/>'',
      ''    <path class="bv-dash" d="M34 16 110 42M34 68 110 42M186 42 110 42"/>'',
      ''    <circle class="bv-dot bv-dim" cx="34" cy="16" r="4"/>'',
      ''    <circle class="bv-dot bv-dim" cx="34" cy="68" r="4"/>'',
      ''    <circle class="bv-dot bv-dim" cx="186" cy="42" r="4"/>'']\<close>

definition scenes :: "(string \<times> string) list" where
  "scenes =
    [(''proxying'', scene_proxying),
     (''reqresp'', scene_reqresp),
     (''translation'', scene_translation),
     (''traffic'', scene_traffic),
     (''security'', scene_security),
     (''ai'', scene_ai),
     (''extensibility'', scene_extensibility),
     (''observability'', scene_observability),
     (''operations'', scene_operations),
     (''fleet'', scene_fleet)]"

text \<open>
  \<open>variant \&\& scenes[variant]\<close>: a scene, or a method that every object inherits.
\<close>

definition scene_value :: "string option \<Rightarrow> jv" where
  "scene_value variant = (case variant of None \<Rightarrow> JUndef | Some v \<Rightarrow> if v = [] then JStr []
     else (case js_get (JObj (map (\<lambda>(k, s). (k, JStr s)) scenes)) v of None \<Rightarrow> JUndef | Some x \<Rightarrow> x))"

definition band_visual :: "string option \<Rightarrow> sdom list" where
  "band_visual variant = (let x = scene_value variant in if \<not> truthy x then []
     else [Elem ''svg'' [(''class'', ''band-visual''), (''viewBox'', ''0 0 220 84''), (''fill'', ''none''), (''aria-hidden'', ''true''),
        (''innerHTML'', js_string x)] [] []])"

section \<open>Capability bands\<close>

record band_item =
  bname :: string
  bdesc :: "string option"
  blink :: "string option"
  bbadge :: "string option"

record domain =
  dtitle :: string
  dblurb :: "string option"
  dlink :: "string option"
  dicon :: "string option"
  dvisual :: "string option"
  dbadge :: "string option"
  ditems :: "band_item list"

definition href_attr :: "(string \<Rightarrow> string) \<Rightarrow> string option \<Rightarrow> (string \<times> string) list" where
  "href_attr withBase l = given l (\<lambda>s. [(''href'', withBase s)])"

definition band_card :: "(string \<Rightarrow> string) \<Rightarrow> band_item \<Rightarrow> sdom" where
  "band_card withBase x = Elem ''a'' (href_attr withBase (blink x) @ [(''class'', ''band-card'')])
     (tag ''span'' ''band-card-name'' (Text (bname x) #
        given (bbadge x) (\<lambda>b. [tag ''span'' (''vp-sb-badge '' @ b) [Text (if b = ''ent'' then ''enterprise'' else b)]])) #
      given (bdesc x) (\<lambda>d. [tag ''span'' ''band-card-desc'' [Text d]])) []"

definition band_head :: "(string \<Rightarrow> string) \<Rightarrow> domain \<Rightarrow> sdom list" where
  "band_head withBase d = given (dlink d) (\<lambda>l. [Elem ''a'' [(''href'', withBase l), (''class'', ''home-band-head'')]
     (given (dicon d) (\<lambda>h. [html_span ''home-band-icon'' h]) @ [tag ''span'' ''home-band-title'' [Text (dtitle d)]] @
      given (dbadge d) (\<lambda>b. [tag ''span'' (''vp-sb-badge '' @ b) [Text ''enterprise'']]) @
      [hidden_span ''home-band-arrow'' [Text rarr]]) []])"

definition band_section :: "(string \<Rightarrow> string) \<Rightarrow> domain \<Rightarrow> sdom" where
  "band_section withBase d = tag ''section'' ''home-band''
     [tag ''div'' ''home-band-top'' (tag ''div'' ''home-band-meta'' (band_head withBase d @
         given (dblurb d) (\<lambda>b. [tag ''p'' ''home-band-blurb'' [Text b]])) #
       given (dvisual d) (\<lambda>v. band_visual (Some v))),
      tag ''div'' ''home-band-grid'' (map (band_card withBase) (ditems d))]"

definition bands_view :: "(string \<Rightarrow> string) \<Rightarrow> domain list option \<Rightarrow> sdom" where
  "bands_view withBase domains = tag ''div'' ''home-bands'' (map (band_section withBase) (case domains of None \<Rightarrow> [] | Some ds \<Rightarrow> ds))"

section \<open>Feature flags\<close>

record flag_item =
  fflag :: string
  fdesc :: string
  flink :: "string option"
  fstatus :: "string option"

record flag_group =
  fgroup :: string
  fitems :: "flag_item list"

definition flag_chip :: "(string \<Rightarrow> string) \<Rightarrow> flag_item \<Rightarrow> sdom" where
  "flag_chip withBase x = Elem ''a'' (href_attr withBase (flink x) @
       [(''class'', ''flag-chip status-'' @ (case fstatus x of None \<Rightarrow> ''wired'' | Some s \<Rightarrow> s))])
     [tag ''span'' ''flag-chip-head'' [hidden_span ''flag-dot'' [], Elem ''code'' [] [Text (fflag x)] []],
      tag ''span'' ''flag-desc'' [Text (fdesc x)]] []"

definition legend_entry :: "string \<Rightarrow> string \<Rightarrow> sdom" where
  "legend_entry c t = Elem ''span'' [] [hidden_span (''flag-dot '' @ c) [], Text ('' '' @ t)] []"

definition flags_view :: "(string \<Rightarrow> string) \<Rightarrow> flag_group list option \<Rightarrow> sdom" where
  "flags_view withBase groups = tag ''div'' ''home-flags''
     (map (\<lambda>g. tag ''section'' ''home-flags-group'' [Elem ''h3'' [] [Text (fgroup g)] [],
         tag ''div'' ''home-flags-grid'' (map (flag_chip withBase) (fitems g))]) (case groups of None \<Rightarrow> [] | Some gs \<Rightarrow> gs) @
      [tag ''p'' ''flag-legend'' [legend_entry ''wired'' ''wired end to end'', legend_entry ''partial'' ''partially wired'',
         legend_entry ''stubbed'' ''runtime stubbed'', Text ('' '' @ [CHR 0xE2, CHR 0x80, CHR 0x94] @ '' see the ''),
         Elem ''a'' [(''href'', withBase ''/guide/feature-reference'')] [Text ''feature reference''] [],
         Text '' for dependency chains, build recipes, and maturity detail.'']])"

section \<open>Personas and editions\<close>

record persona =
  ptitle :: string
  picon :: "string option"
  pblurb :: "string option"
  plinks :: "(string \<times> string) list option"

definition persona_card :: "(string \<Rightarrow> string) \<Rightarrow> persona \<Rightarrow> sdom" where
  "persona_card withBase p = tag ''div'' ''persona-card''
     (given (picon p) (\<lambda>h. [html_span ''persona-icon'' h]) @ [tag ''h3'' ''persona-title'' [Text (ptitle p)]] @
      given (pblurb p) (\<lambda>b. [tag ''p'' ''persona-blurb'' [Text b]]) @
      (case plinks p of None \<Rightarrow> [] | Some ls \<Rightarrow> if ls = [] then [] else [tag ''div'' ''persona-links''
        (map (\<lambda>(t, l). Elem ''a'' [(''href'', withBase l), (''class'', ''persona-link'')] [Text (t @ '' '' @ rarr)] []) ls)]))"

definition personas_view :: "(string \<Rightarrow> string) \<Rightarrow> persona list option \<Rightarrow> sdom" where
  "personas_view withBase personas = tag ''div'' ''home-personas'' (map (persona_card withBase) (case personas of None \<Rightarrow> [] | Some ps \<Rightarrow> ps))"

record edition_card =
  ctitle :: string
  tagline :: string
  points :: "string list"
  clink :: string
  linkText :: string
  highlight :: bool

definition edition_el :: "(string \<Rightarrow> string) \<Rightarrow> edition_card \<Rightarrow> sdom" where
  "edition_el withBase c = Elem ''a'' [(''href'', withBase (clink c)), (''class'', ''edition-card'' @ (if highlight c then '' highlight'' else []))]
     [Elem ''h3'' [] [Text (ctitle c)] [], Elem ''p'' [] [Text (tagline c)] [],
      Elem ''ul'' [] (map (\<lambda>t. Elem ''li'' [] [Text t] []) (points c)) [],
      tag ''span'' ''edition-cta'' [Text (linkText c @ '' '' @ rarr)]] []"

definition editions_view :: "(string \<Rightarrow> string) \<Rightarrow> edition_card list option \<Rightarrow> sdom" where
  "editions_view withBase cards = tag ''div'' ''home-editions'' (map (edition_el withBase) (case cards of None \<Rightarrow> [] | Some cs \<Rightarrow> cs))"

definition hero_image :: "(string \<Rightarrow> string) \<Rightarrow> sdom" where
  "hero_image withBase = tag ''div'' ''hero-mark'' [hidden_span ''hero-glow'' [], hidden_span ''hero-ring r1'' [], hidden_span ''hero-ring r2'' [],
     Elem ''img'' [(''class'', ''hero-mark-img''), (''src'', withBase ''/mark-color.svg''), (''alt'', ''Dwara torana gateway mark'')] [] []]"

definition home_badges :: sdom where
  "home_badges = tag ''div'' ''home-badges'' (map (\<lambda>t. tag ''span'' ''home-badge'' [Text t])
     [''Single Rust binary'', ''Zero-buffer streaming'', ''Declarative YAML''])"

section \<open>Registration\<close>

text \<open>\<open>enhanceApp\<close>: each \<open>app.component(name, c)\<close> replaces what was registered under the name before.\<close>

datatype theme_component = Mermaid | HomeBands | HomeEditions | HomeFlags | HomePersonas | HomeFAQ | Other string

definition enhanceApp :: "(string \<rightharpoonup> theme_component) \<Rightarrow> (string \<rightharpoonup> theme_component)" where
  "enhanceApp reg = reg(''Mermaid'' \<mapsto> Mermaid, ''HomeBands'' \<mapsto> HomeBands, ''HomeEditions'' \<mapsto> HomeEditions,
     ''HomeFlags'' \<mapsto> HomeFlags, ''HomePersonas'' \<mapsto> HomePersonas, ''HomeFAQ'' \<mapsto> HomeFAQ)"

section \<open>Laws\<close>

text \<open>The diagram component of the theme wins over the one the plugin registered, the other components stay.\<close>

lemma mermaid_overridden: "enhanceApp reg ''Mermaid'' = Some Mermaid"
  and others_kept: "n \<notin> {''Mermaid'', ''HomeBands'', ''HomeEditions'', ''HomeFlags'', ''HomePersonas'', ''HomeFAQ''} \<Longrightarrow> enhanceApp reg n = reg n"
  by (simp_all add: enhanceApp_def)

text \<open>The addresses of the links below a node.\<close>

fun hrefs :: "sdom \<Rightarrow> string list" where
  "hrefs (Elem t as ks ls) = map snd (filter (\<lambda>a. fst a = ''href'') as) @ concat (map hrefs ks)"
| "hrefs _ = []"

lemma hrefs_simps [simp]:
  "hrefs (tag t c ks) = concat (map hrefs ks)" "hrefs (hidden_span c ks) = concat (map hrefs ks)" "hrefs (html_span c h) = []"
  by (simp_all add: tag_def hidden_span_def html_span_def)

lemma hrefs_given: "concat (map hrefs (given x f)) = (case x of None \<Rightarrow> [] | Some s \<Rightarrow> if s = [] then [] else concat (map hrefs (f s)))"
  by (simp add: given_def split: option.split)

text \<open>Every link of a persona and of an edition is rooted at the site's base, in the order of the data.\<close>

lemma editions_hrefs: "hrefs (editions_view withBase (Some cs)) = map (\<lambda>c. withBase (clink c)) cs"
proof -
  have "hrefs (edition_el withBase c) = [withBase (clink c)]" for c by (simp add: edition_el_def map_concat comp_def)
  then show ?thesis by (simp add: editions_view_def comp_def concat_map_singleton)
qed

text \<open>An illustration is shown for the ten scenes, and for the name of any method that objects inherit.\<close>

lemma scenes_nonempty: "list_all (\<lambda>p. snd p \<noteq> []) scenes"
  by code_simp

lemma band_visual_shown: "band_visual (Some v) \<noteq> [] \<longleftrightarrow> v \<noteq> [] \<and> (v \<in> fst ` set scenes \<or> v \<in> set object_proto)"
proof (cases "map_of scenes v")
  case None
  then have "v \<notin> fst ` set scenes" by (simp add: map_of_eq_None_iff)
  then show ?thesis by (simp add: None band_visual_def scene_value_def Let_def map_of_map proto_read_def)
next
  case (Some t)
  then have m: "(v, t) \<in> set scenes" by (rule map_of_SomeD)
  then have "t \<noteq> []" using scenes_nonempty by (auto simp: list_all_iff)
  then show ?thesis using Some m by (force simp: band_visual_def scene_value_def Let_def map_of_map)
qed

end
