(* ===== verification/Docs_Config.thy ===== *)
theory Docs_Config
  imports Freeze
begin

text \<open>
  The configuration of the documentation site (\<open>docs-site/.vitepress/config.mts\<close>): the fence rule for terminal blocks, the
  navigation and the sidebar, and how the sidebar agrees with the one that the freeze script writes. VitePress, its
  plugins and the fence renderer of markdown-it are not part of the sources; the renderer and \<open>escapeHtml\<close> are arguments.
\<close>

section \<open>Terminal fences\<close>

definition not_blank :: "char \<Rightarrow> bool" where
  "not_blank c = (let b = of_char c :: nat in \<not> (b = 32 \<or> 9 \<le> b \<and> b \<le> 13))"

definition no_line_end :: "string \<Rightarrow> bool" where
  "no_line_end s = list_all (\<lambda>c. let b = of_char c :: nat in b \<noteq> 10 \<and> b \<noteq> 13) s"

text \<open>
  \<open>\\[terminal(?::\\s*(.*))?\\]$\<close> on a whole text: the group of the title, \<open>Some None\<close> when there is no colon.
\<close>

definition terminal_tail :: "string \<Rightarrow> string option option" where
  "terminal_tail s = (if \<not> is_prefix ''[terminal'' s then None
     else let r = drop 9 s in
       if r = '']'' then Some None
       else if r \<noteq> [] \<and> hd r = CHR '':'' \<and> tl r \<noteq> [] \<and> last r = CHR '']'' then
         (let t = dropWhile (\<lambda>c. \<not> not_blank c) (butlast (tl r)) in if no_line_end t then Some (Some t) else None)
       else None)"

text \<open>
  \<open>info.match(/^(\\S+?)\\[terminal(?::\\s*(.*))?\\]$/)\<close>: the shortest language that lets the rest match; \<open>pre\<close> is the language read so far.
\<close>

fun fence_match_from :: "string \<Rightarrow> string \<Rightarrow> (string \<times> string option) option" where
  "fence_match_from pre [] = None"
| "fence_match_from pre (c # cs) =
     (case (if pre = [] then None else terminal_tail (c # cs)) of
        Some title \<Rightarrow> Some (pre, title)
      | None \<Rightarrow> if not_blank c then fence_match_from (pre @ [c]) cs else None)"

definition fence_match :: "string \<Rightarrow> (string \<times> string option) option" where
  "fence_match info = fence_match_from [] info"

text \<open>A token as far as the rule reads it; the other fields belong to markdown-it.\<close>

record 'x token =
  info :: string
  rest :: 'x

definition terminal_html :: "string \<Rightarrow> string \<Rightarrow> string" where
  "terminal_html title inner =
     ''<div class='' @ [CHR 0x22] @ ''custom-block terminal'' @ [CHR 0x22] @ ''><p class='' @ [CHR 0x22] @ ''custom-block-title'' @
     [CHR 0x22] @ ''>'' @ title @ ''</p>'' @ inner @ ''</div>''"

text \<open>
  The rule installed by \<open>config(md)\<close>. The wrapped renderer \<open>fence\<close> yields its text (\<open>None\<close> when it throws) and the tokens as it
  leaves them.
\<close>

definition fence_rule :: "('x token list \<Rightarrow> nat \<Rightarrow> string option \<times> 'x token list) \<Rightarrow> (string \<Rightarrow> string) \<Rightarrow>
    'x token list \<Rightarrow> nat \<Rightarrow> string option \<times> 'x token list" where
  "fence_rule fence escapeHtml tokens idx = (case fence_match (info (tokens ! idx)) of
     None \<Rightarrow> fence tokens idx
   | Some (lang, title) \<Rightarrow>
       (case fence (tokens[idx := (tokens ! idx)\<lparr>info := lang\<rparr>]) idx of
          (None, tokens') \<Rightarrow> (None, tokens')
        | (Some inner, tokens') \<Rightarrow>
            (Some (terminal_html (escapeHtml (case title of Some t \<Rightarrow> if t = [] then ''terminal'' else t | None \<Rightarrow> ''terminal'')) inner),
             tokens'[idx := (tokens' ! idx)\<lparr>info := info (tokens ! idx)\<rparr>])))"

section \<open>Navigation and sidebar\<close>

definition nav_items :: "jv list" where
  "nav_items = [link_item ''Guide'' ''/guide/getting-started'', link_item ''Demos'' ''/demos/oss-quickstart'',
     link_item ''Architecture'' ''/architecture/overview'', link_item ''Reference'' ''/reference/environment-variables'']"

definition badge :: "string \<Rightarrow> string" where
  "badge k = ''<span class='' @ [CHR 0x22] @ ''vp-sb-badge '' @ k @ [CHR 0x22] @ ''>'' @ k @ ''</span>''"

text \<open>A collapsed group with a page of its own, and a group without one.\<close>

definition landing_group :: "string \<Rightarrow> string \<Rightarrow> jv list \<Rightarrow> jv" where
  "landing_group t l items = JObj [(''text'', JStr t), (''link'', JStr l), (''collapsed'', JBool True), (''items'', JArr items)]"

definition plain_group :: "string \<Rightarrow> jv list \<Rightarrow> jv" where
  "plain_group t items = JObj [(''text'', JStr t), (''items'', JArr items)]"

definition sidebar_getting_started :: jv where
  "sidebar_getting_started =
     landing_group ''Getting started'' ''/guide/getting-started'' [
      link_item ''Getting started'' ''/guide/getting-started'',
      link_item ''Installation'' ''/guide/installation'',
      link_item ''Concepts and taxonomy'' ''/guide/concepts'',
      link_item ''Configuration'' ''/guide/configuration'',
      link_item ''First scenarios'' ''/guide/first-scenarios'']"

definition sidebar_proxying_transport :: jv where
  "sidebar_proxying_transport =
     landing_group ''Proxying and transport'' ''/guide/proxying-transport'' [
      link_item ''Overview'' ''/guide/proxying-transport'',
      link_item ''Routing and matching'' ''/guide/routing'',
      link_item ''Load balancing and traffic splitting'' ''/guide/traffic-splitting'',
      link_item ''Dynamic upstream discovery'' ''/guide/dynamic-discovery'',
      link_item ''gRPC proxying'' ''/guide/grpc'',
      link_item ''WebSockets'' ''/guide/websockets'',
      link_item ''HTTP/3 ingress'' ''/guide/http3'',
      link_item ''H3/QUIC upstream transport'' ''/guide/h3-quic-upstream'',
      link_item (''L4 TCP/UDP proxying'' @ badge ''partial'') ''/guide/l4-proxying'',
      link_item ''Post-quantum TLS'' ''/guide/post-quantum-tls'',
      link_item ''SPIFFE/SPIRE workload identity'' ''/guide/spiffe-spire'']"

definition sidebar_request_response :: jv where
  "sidebar_request_response =
     landing_group ''Request and response control'' ''/guide/request-response-control'' [
      link_item ''Overview'' ''/guide/request-response-control'',
      link_item ''CORS'' ''/guide/cors'',
      link_item ''Compression'' ''/guide/compression'',
      link_item ''Request limits and validation'' ''/guide/request-limits'',
      link_item ''Transforms'' ''/guide/transforms'',
      link_item ''Security headers'' ''/guide/security-headers'',
      link_item ''Response field masking'' ''/guide/masking'',
      link_item ''Response caching'' ''/guide/caching'',
      link_item ''API versioning'' ''/guide/api-versioning'',
      link_item ''Filter-chain ordering'' ''/guide/filter-chain-ordering'']"

definition sidebar_protocol_translation :: jv where
  "sidebar_protocol_translation =
     landing_group ''Protocol translation and API management'' ''/guide/protocol-translation'' [
      link_item ''Overview'' ''/guide/protocol-translation'',
      link_item ''gRPC-Web and transcoding'' ''/guide/grpc-web'',
      link_item ''Protocol translation (REST, gRPC, GraphQL, SOAP)'' ''/guide/protocol-translation'',
      link_item (''GraphQL awareness'' @ badge ''partial'') ''/guide/graphql'',
      link_item ''API aggregation'' ''/guide/api-aggregation'',
      link_item ''OpenAPI import and mock mode'' ''/guide/openapi-import'',
      link_item ''OpenAPI response validation'' ''/guide/openapi-response-validation'',
      link_item (''API lifecycle and dev portal'' @ badge ''partial'') ''/guide/api-lifecycle'']"

definition sidebar_traffic_policy :: jv where
  "sidebar_traffic_policy =
     landing_group ''Traffic policy and resilience'' ''/guide/traffic-policy'' [
      link_item ''Overview'' ''/guide/traffic-policy'',
      link_item ''Timeouts'' ''/guide/timeouts'',
      link_item ''Retries'' ''/guide/retries'',
      link_item ''Circuit breaking'' ''/guide/circuit-breaking'',
      link_item ''Health checks'' ''/guide/health-checks'',
      link_item ''Rate limiting'' ''/guide/rate-limiting'',
      link_item ''Admission queues'' ''/guide/admission-queue'',
      link_item ''Request hedging'' ''/guide/request-hedging'',
      link_item ''Consumer quotas'' ''/guide/quotas'',
      link_item ''WAF-lite filtering'' ''/guide/waf-lite'',
      link_item ''Maintenance mode and dry-run'' ''/guide/maintenance'',
      link_item ''Mirroring'' ''/guide/mirroring'',
      link_item ''Fault injection'' ''/guide/fault-injection'']"

definition sidebar_security_identity :: jv where
  "sidebar_security_identity =
     landing_group ''Security and identity'' ''/guide/security'' [
      link_item ''Overview'' ''/guide/security'',
      link_item ''Authentication methods'' ''/guide/authentication-methods'',
      link_item ''HMAC request signing'' ''/guide/hmac-signing'',
      link_item ''OAuth2'' ''/guide/oauth2'',
      link_item ''mTLS'' ''/guide/mtls'',
      link_item ''OpenID Connect'' ''/guide/oidc'',
      link_item ''Authorization rules'' ''/guide/authorization'',
      link_item ''Cedar authorization'' ''/guide/cedar-authz'',
      link_item ''OPA authorization'' ''/guide/opa-authz'',
      link_item ''CEL expressions'' ''/guide/cel-expressions'',
      link_item ''Secrets and references'' ''/guide/secrets'',
      link_item (''ACME certificate automation'' @ badge ''experimental'') ''/guide/acme'',
      link_item ''FIPS mode'' ''/guide/fips-mode'']"

definition sidebar_ai_gateway :: jv where
  "sidebar_ai_gateway =
     landing_group ''AI gateway'' ''/guide/ai-gateway'' [
      link_item ''Overview'' ''/guide/ai-gateway'',
      link_item ''Routing policies'' ''/guide/ai-routing-policies'',
      link_item ''Prompt experimentation'' ''/guide/ai-prompt-experimentation'',
      link_item ''Token budgets and cost attribution'' ''/guide/ai-token-budgets'',
      link_item ''Prompt and response logging'' ''/guide/ai-prompt-logging'',
      link_item ''Governance and agent principals'' ''/guide/ai-governance'',
      link_item ''Guardrails'' ''/guide/ai-guardrails'',
      link_item ''Semantic caching'' ''/guide/ai-semantic-caching'',
      link_item (''MCP gateway'' @ badge ''experimental'') ''/guide/ai-mcp-gateway'',
      link_item (''A2A protocol'' @ badge ''partial'') ''/guide/a2a-protocol'']"

definition use_cases_group :: jv where
  "use_cases_group =
     landing_group ''Use cases and recipes'' ''/guide/use-cases/'' [
      link_item ''Overview'' ''/guide/use-cases/'',
      link_item ''User-subset API migration'' ''/guide/use-cases/user-subset-migration'',
      link_item ''Response PII redaction'' ''/guide/use-cases/response-pii-redaction'',
      link_item ''Custom request authentication'' ''/guide/use-cases/custom-request-auth'',
      link_item ''Zero-upstream feature flags'' ''/guide/use-cases/zero-upstream-feature-flags'',
      link_item ''Tenant-aware routing'' ''/guide/use-cases/tenant-aware-routing'',
      link_item ''Custom backends (extension traits)'' ''/guide/use-cases/custom-backends-traits'',
      link_item ''Per-request external decisions'' ''/guide/use-cases/per-request-external-decisions'']"

definition sidebar_extensibility_plugins :: jv where
  "sidebar_extensibility_plugins =
     landing_group ''Extensibility and plugins'' ''/guide/extensibility-overview'' [
      link_item ''Overview'' ''/guide/extensibility-overview'',
      link_item ''Getting started'' ''/guide/extensibility-getting-started'',
      use_cases_group,
      landing_group ''Proxy-Wasm plugins'' ''/guide/proxy-wasm-plugins'' [
        link_item ''Overview'' ''/guide/proxy-wasm-plugins'',
        link_item ''Plugin SDK'' ''/guide/plugin-sdk'',
        link_item ''Hostcall API reference'' ''/guide/proxy-wasm-hostcalls''],
      landing_group ''Native plugin filters'' ''/guide/native-plugins'' [
        link_item ''Overview'' ''/guide/native-plugins'',
        link_item ''Building a native filter'' ''/guide/building-native-filter'',
        link_item ''Native filter API'' ''/guide/native-filter-api''],
      landing_group ''Nano-services'' ''/guide/nano-services'' [
        link_item ''Overview'' ''/guide/nano-services'',
        link_item ''Building a nano-service'' ''/guide/building-nano-service'',
        link_item ''Nano-service ABI'' ''/guide/nano-service-abi''],
      link_item ''Plugin lifecycle'' ''/guide/plugin-lifecycle'',
      link_item ''Plugin registry'' ''/guide/plugin-registry'',
      link_item ''Plugin compatibility'' ''/guide/plugin-compat'',
      link_item ''Plugin testing'' ''/guide/plugin-testing'',
      landing_group ''Extension traits'' ''/guide/extension-traits'' [
        link_item ''Overview'' ''/guide/extension-traits'',
        link_item ''Building an extension'' ''/guide/building-extension'',
        link_item ''Extension trait API'' ''/guide/extension-trait-api'']]"

definition sidebar_observability_analytics :: jv where
  "sidebar_observability_analytics =
     landing_group ''Observability and analytics'' ''/guide/observability-analytics'' [
      link_item ''Overview'' ''/guide/observability-analytics'',
      link_item ''Observability'' ''/guide/observability'',
      link_item ''Analytics'' ''/guide/analytics'',
      link_item ''Analytics stream'' ''/guide/analytics-stream'',
      link_item ''Alert and event webhooks'' ''/guide/webhooks'',
      link_item ''OTel metrics export'' ''/guide/otel-metrics-export'',
      link_item ''Synthetic monitoring'' ''/guide/synthetic-monitoring'']"

definition sidebar_operations_management :: jv where
  "sidebar_operations_management =
     landing_group ''Operations and management'' ''/guide/deployment-operations'' [
      link_item ''Overview'' ''/guide/deployment-operations'',
      link_item ''Deployment'' ''/guide/deployment'',
      link_item ''Operations'' ''/guide/operations'',
      link_item ''Performance metrics'' ''/guide/performance-metrics'',
      link_item ''Zero-downtime upgrade'' ''/guide/zero-downtime-upgrade'',
      link_item ''CLI'' ''/guide/cli'',
      link_item ''Admin API'' ''/guide/admin-api'',
      link_item ''Web console'' ''/guide/web-console'',
      link_item ''Agent-operable administration'' ''/guide/agent-operable-admin'',
      link_item ''Terraform state tool'' ''/guide/terraform-state'',
      link_item ''Replay time-travel debugging'' ''/guide/replay-debugging'',
      link_item ''Config import (NGINX, Kong, Envoy)'' ''/guide/config-import'',
      link_item ''Kubernetes Gateway API'' ''/guide/kubernetes-gateway-api'']"

definition sidebar_troubleshooting :: jv where
  "sidebar_troubleshooting =
     landing_group ''Troubleshooting'' ''/guide/troubleshooting/'' [
      link_item ''Overview'' ''/guide/troubleshooting/'',
      link_item ''503 Service Unavailable'' ''/guide/troubleshooting/503-upstream-health'',
      link_item ''429 Too Many Requests'' ''/guide/troubleshooting/429-rate-limit-quota-budget'',
      link_item ''Config reload failure'' ''/guide/troubleshooting/config-reload-failure'',
      link_item ''High latency'' ''/guide/troubleshooting/high-latency'',
      link_item ''AI request failures'' ''/guide/troubleshooting/ai-request-failures'',
      link_item ''mTLS handshake failures'' ''/guide/troubleshooting/mtls-handshake-failures'']"

definition sidebar_enterprise_fleet :: jv where
  "sidebar_enterprise_fleet =
     landing_group ''Enterprise and fleet'' ''/guide/enterprise'' [
      link_item ''Overview'' ''/guide/enterprise'',
      link_item ''Editions: OSS vs Enterprise'' ''/guide/editions'',
      link_item ''Feature reference and maturity'' ''/guide/feature-reference'',
      link_item ''Enterprise licensing'' ''/guide/licensing'',
      link_item ''Distributed Redis rate limiter'' ''/guide/redis-rate-limiter'',
      link_item ''Distributed cache'' ''/guide/distributed-cache'',
      link_item ''Config convergence'' ''/guide/config-convergence'',
      link_item ''Vault secrets'' ''/guide/vault-secrets'',
      link_item ''KMS secrets'' ''/guide/kms-secrets'',
      link_item ''Workspaces'' ''/guide/workspaces'',
      link_item ''RBAC'' ''/guide/rbac'',
      link_item ''Audit log'' ''/guide/audit-log'',
      link_item ''CP/DP split'' ''/guide/cp-dp-split'',
      link_item ''Cluster sync (GA)'' ''/guide/cluster-sync'',
      link_item ''Ent controller persistence'' ''/guide/ent-controller-persistence'',
      link_item (''Service mesh mode'' @ badge ''experimental'') ''/guide/service-mesh'']"

definition sidebar_research_roadmap :: jv where
  "sidebar_research_roadmap =
     landing_group ''Research and roadmap'' ''/guide/ebpf-hooks'' [
      link_item ''eBPF hooks (research spike)'' ''/guide/ebpf-hooks'']"

definition sidebar_architecture_pages :: jv where
  "sidebar_architecture_pages =
     plain_group ''Architecture'' [
      link_item ''Overview'' ''/architecture/overview'',
      link_item ''Request pipeline'' ''/architecture/request-pipeline'',
      link_item ''Connection and TLS'' ''/architecture/connection-and-tls'',
      link_item ''Config, state, and extensions'' ''/architecture/config-and-state'',
      link_item ''Error handling'' ''/architecture/error-handling'',
      link_item ''Resilience'' ''/architecture/resilience'',
      link_item ''Security'' ''/architecture/security'',
      link_item ''AI gateway'' ''/architecture/ai-gateway'',
      link_item ''Plugins and extensibility'' ''/architecture/plugins-and-extensibility'',
      link_item ''Observability'' ''/architecture/observability'']"

definition sidebar_reference_pages :: jv where
  "sidebar_reference_pages =
     plain_group ''Reference'' [
      link_item ''Environment variables'' ''/reference/environment-variables'',
      link_item ''Configuration schema'' ''/reference/configuration-schema'',
      link_item ''Extension API'' ''/reference/extension-api'']"

definition sidebar_demos_pages :: jv where
  "sidebar_demos_pages =
     plain_group ''Demos'' [
      link_item ''OSS quickstart'' ''/demos/oss-quickstart'',
      link_item ''Enterprise quickstart'' ''/demos/enterprise-quickstart'']"

definition site_sidebar :: jv where
  "site_sidebar = JObj
    [(''/guide/'', JArr [
        sidebar_getting_started, sidebar_proxying_transport, sidebar_request_response, sidebar_protocol_translation,
        sidebar_traffic_policy, sidebar_security_identity, sidebar_ai_gateway,
        sidebar_extensibility_plugins, sidebar_observability_analytics, sidebar_operations_management,
        sidebar_troubleshooting, sidebar_enterprise_fleet, sidebar_research_roadmap]),
     (''/architecture/'', JArr [sidebar_architecture_pages]),
     (''/reference/'', JArr [sidebar_reference_pages]),
     (''/demos/'', JArr [sidebar_demos_pages])]"

text \<open>The object passed to the plugins, without the function \<open>markdown.config\<close>.\<close>

definition head_icon :: "string \<Rightarrow> string \<Rightarrow> jv" where
  "head_icon dims href = JArr [JStr ''link'', JObj [(''rel'', JStr ''icon''), (''type'', JStr ''image/png''), (''sizes'', JStr dims), (''href'', JStr href)]]"

definition site_head :: jv where
  "site_head = JArr
    [JArr [JStr ''link'', JObj [(''rel'', JStr ''icon''), (''href'', JStr ''/dwara/favicon.ico''), (''sizes'', JStr ''any'')]],
     head_icon ''32x32'' ''/dwara/favicon-32x32.png'', head_icon ''16x16'' ''/dwara/favicon-16x16.png'',
     JArr [JStr ''link'', JObj [(''rel'', JStr ''apple-touch-icon''), (''sizes'', JStr ''180x180''), (''href'', JStr ''/dwara/apple-touch-icon.png'')]],
     JArr [JStr ''link'', JObj [(''rel'', JStr ''manifest''), (''href'', JStr ''/dwara/site.webmanifest'')]],
     JArr [JStr ''meta'', JObj [(''name'', JStr ''theme-color''), (''content'', JStr ''#1B1650'')]]]"

definition theme_config :: jv where
  "theme_config = JObj [(''versionSwitcher'', JBool False), (''logo'', JStr ''/mark-icon.svg''), (''nav'', JArr nav_items),
     (''sidebar'', site_sidebar),
     (''socialLinks'', JArr [JObj [(''icon'', JStr ''github''), (''link'', JStr ''https://github.com/shristilabs/dwara'')]]),
     (''editLink'', JObj [(''pattern'', JStr ''https://github.com/shristilabs/dwara/edit/main/docs-site/:path''),
        (''text'', JStr ''Edit this page on GitHub'')]),
     (''search'', JObj [(''provider'', JStr ''local'')])]"

definition site_config :: jv where
  "site_config = JObj [(''title'', JStr ''Dwara''), (''description'', JStr ''API gateway documentation''), (''lastUpdated'', JBool True),
     (''cleanUrls'', JBool True), (''base'', JStr ''/dwara/''), (''head'', site_head), (''srcExclude'', JArr [JStr ''README.md'']),
     (''versioning'', JObj [(''latestVersion'', JStr ''unstable'')]), (''themeConfig'', theme_config), (''mermaid'', JObj [])]"
section \<open>Pages of the sidebar\<close>

text \<open>Every link of a section, of its groups and of their entries, in order.\<close>

fun page_links :: "jv \<Rightarrow> string list" where
  "page_links (JArr vs) = concat (map page_links vs)"
| "page_links (JObj kvs) = concat (map (\<lambda>p. if fst p = ''link'' then [js_string (snd p)]
     else if fst p = ''items'' then page_links (snd p) else []) kvs)"
| "page_links _ = []"

definition section_of :: "string \<Rightarrow> jv \<Rightarrow> jv" where
  "section_of k sb = (case js_get sb k of Some g \<Rightarrow> g | None \<Rightarrow> JUndef)"

definition section_keys :: "jv \<Rightarrow> string list" where
  "section_keys sb = (case object_keys sb of Some ks \<Rightarrow> ks | None \<Rightarrow> [])"

text \<open>A group with a page of its own lists that page first.\<close>

fun landings_first :: "jv \<Rightarrow> bool" where
  "landings_first (JArr vs) = list_all landings_first vs"
| "landings_first (JObj kvs) = (list_all (\<lambda>p. landings_first (snd p)) kvs \<and>
     (case (map_of kvs ''link'', map_of kvs ''items'') of
        (Some l, Some (JArr (i # _))) \<Rightarrow> js_get i ''link'' = Some l | (Some _, Some _) \<Rightarrow> False | _ \<Rightarrow> True))"
| "landings_first _ = True"

definition nav_links :: "string list" where
  "nav_links = page_links (JArr nav_items)"

lemma fence_match_from_lang:
  "list_all not_blank l \<Longrightarrow> (\<And>u v. l = u @ v \<Longrightarrow> v \<noteq> [] \<Longrightarrow> terminal_tail (v @ s) = None) \<Longrightarrow> pre @ l \<noteq> [] \<Longrightarrow> s \<noteq> []
   \<Longrightarrow> terminal_tail s = Some t \<Longrightarrow> fence_match_from pre (l @ s) = Some (pre @ l, t)"
proof (induction l arbitrary: pre)
  case Nil
  then show ?case by (cases s) auto
next
  case (Cons c l)
  have "terminal_tail (c # l @ s) = None" using Cons.prems(2) [of "[]" "c # l"] by simp
  moreover have "fence_match_from (pre @ [c]) (l @ s) = Some ((pre @ [c]) @ l, t)"
  proof (rule Cons.IH)
    show "terminal_tail (v @ s) = None" if "l = u @ v" "v \<noteq> []" for u v using Cons.prems(2) [of "c # u" v] that by simp
  qed (use Cons.prems in auto)
  ultimately show ?case using Cons.prems(1) by (cases pre) auto
qed

lemma no_bracket_no_tail: "v \<noteq> [] \<Longrightarrow> hd v \<noteq> CHR ''['' \<Longrightarrow> terminal_tail (v @ s) = None"
  by (cases v) (auto simp: terminal_tail_def)

lemma fence_match_terminal:
  assumes "lang \<noteq> []" "list_all (\<lambda>c. not_blank c \<and> c \<noteq> CHR ''['') lang" "list_all is_wsp b" "is_wsp = (\<lambda>c. \<not> not_blank c)"
    "title = [] \<or> not_blank (hd title)" "no_line_end title"
  shows "fence_match (lang @ ''[terminal:'' @ b @ title @ '']'') = Some (lang, Some title)"
proof -
  have d: "dropWhile (\<lambda>c. \<not> not_blank c) (b @ title) = title"
    using assms(3-5) by (cases title) (auto simp: list_all_iff dropWhile_append dropWhile_eq_Nil_conv)
  have "terminal_tail (''[terminal:'' @ b @ title @ '']'') = Some (Some title)"
    using d assms(6) by (simp add: terminal_tail_def Let_def butlast_append)
  moreover have "hd v \<noteq> CHR ''[''" if "lang = u @ v" "v \<noteq> []" for u v using assms(2) that by (cases v) auto
  moreover have "list_all not_blank lang" using assms(2) by (simp add: list_all_iff)
  ultimately show ?thesis using fence_match_from_lang [of lang _ "[]" "Some title"] no_bracket_no_tail assms(1)
    unfolding fence_match_def by fastforce
qed
lemma terminal_tail_end: "terminal_tail s = Some t \<Longrightarrow> s \<noteq> [] \<and> last s = CHR '']''"
proof -
  assume t: "terminal_tail s = Some t"
  then have p: "is_prefix ''[terminal'' s" by (auto simp: terminal_tail_def split: if_splits)
  then obtain r where s: "s = ''[terminal'' @ r" by (auto simp: is_prefix_iff)
  have "r = '']'' \<or> r \<noteq> [] \<and> last r = CHR '']''" using t unfolding terminal_tail_def s by (auto simp: Let_def split: if_splits)
  then show ?thesis unfolding s by auto
qed

lemma fence_match_from_end: "fence_match_from pre s = Some r \<Longrightarrow> s \<noteq> [] \<and> last s = CHR '']''"
proof (induction pre s rule: fence_match_from.induct)
  case (2 pre c cs)
  show ?case
  proof (cases "if pre = [] then None else terminal_tail (c # cs)")
    case None
    then have n: "not_blank c" "fence_match_from (pre @ [c]) cs = Some r" using "2.prems" by (auto split: if_splits)
    then show ?thesis using "2.IH" [OF None n] by (cases cs) auto
  next
    case (Some t)
    then show ?thesis using terminal_tail_end [of "c # cs"] by (auto split: if_splits)
  qed
qed simp

section \<open>Properties\<close>

text \<open>
  The fence rule renders a block marked as a terminal inside the window chrome, with the title escaped (or the default
  title) and the body rendered by the wrapped rule under the bare language, and leaves the tokens as they were; a block
  whose info string does not end in a bracket is rendered by the wrapped rule untouched.
\<close>

theorem terminal_fence:
  assumes "idx < length tokens" and "info (tokens ! idx) = lang @ ''[terminal:'' @ b @ title @ '']''"
    and "lang \<noteq> []" and "list_all (\<lambda>c. not_blank c \<and> c \<noteq> CHR ''['') lang" and "list_all (\<lambda>c. \<not> not_blank c) b"
    and "title = [] \<or> not_blank (hd title)" and "no_line_end title"
    and "fence (tokens[idx := (tokens ! idx)\<lparr>info := lang\<rparr>]) idx = (Some inner, tokens[idx := (tokens ! idx)\<lparr>info := lang\<rparr>])"
  shows "fence_rule fence escapeHtml tokens idx = (Some (terminal_html (escapeHtml (if title = [] then ''terminal'' else title)) inner), tokens) \<and>
    (\<forall>i. info (tokens ! i) = [] \<or> last (info (tokens ! i)) \<noteq> CHR '']'' \<longrightarrow> fence_rule fence escapeHtml tokens i = fence tokens i)"
proof (intro conjI allI impI)
  have "fence_match (info (tokens ! idx)) = Some (lang, Some title)"
    unfolding assms(2) by (rule fence_match_terminal [OF assms(3,4,5) refl assms(6,7)])
  then show "fence_rule fence escapeHtml tokens idx = (Some (terminal_html (escapeHtml (if title = [] then ''terminal'' else title)) inner), tokens)"
    using assms(1,8) by (simp add: fence_rule_def)
next
  fix i assume "info (tokens ! i) = [] \<or> last (info (tokens ! i)) \<noteq> CHR '']''"
  then have "fence_match (info (tokens ! i)) = None"
    unfolding fence_match_def using fence_match_from_end [of "[]" "info (tokens ! i)"] by (cases "fence_match_from [] (info (tokens ! i))") auto
  then show "fence_rule fence escapeHtml tokens i = fence tokens i" by (simp add: fence_rule_def)
qed

definition demo_tokens :: "string token list" where
  "demo_tokens = [\<lparr>info = ''js'', rest = ''let x'' \<rparr>, \<lparr>info = ''sh[terminal: dwara -- quickstart]'', rest = ''make'' \<rparr>]"

definition demo_fence :: "string token list \<Rightarrow> nat \<Rightarrow> string option \<times> string token list" where
  "demo_fence ts i = (Some (info (ts ! i) @ ''|'' @ rest (ts ! i)), ts)"

theorem terminal_fence_witness:
  "fence_rule demo_fence id demo_tokens 1 = (Some (terminal_html ''dwara -- quickstart'' ''sh|make''), demo_tokens) \<and>
   fence_rule demo_fence id demo_tokens 0 = demo_fence demo_tokens 0"
proof -
  have 1: "1 < length demo_tokens" "info (demo_tokens ! 1) = ''sh'' @ ''[terminal:'' @ '' '' @ ''dwara -- quickstart'' @ '']''"
    by (simp_all add: demo_tokens_def)
  have 2: "list_all (\<lambda>c. not_blank c \<and> c \<noteq> CHR ''['') ''sh''" "list_all (\<lambda>c. \<not> not_blank c) '' ''"
    "not_blank (hd ''dwara -- quickstart'')" "no_line_end ''dwara -- quickstart''" by code_simp+
  have 3: "demo_fence (demo_tokens[1 := (demo_tokens ! 1)\<lparr>info := ''sh''\<rparr>]) 1 = (Some ''sh|make'', demo_tokens[1 := (demo_tokens ! 1)\<lparr>info := ''sh''\<rparr>])"
    by (simp add: demo_fence_def demo_tokens_def)
  have ne: "''sh'' \<noteq> ([] :: string)" "''dwara -- quickstart'' = ([] :: string) \<or> not_blank (hd ''dwara -- quickstart'')" using 2(3) by simp_all
  have z: "last (info (demo_tokens ! 0)) \<noteq> CHR '']''" by (simp add: demo_tokens_def)
  show ?thesis using terminal_fence [of 1 demo_tokens "''sh''" "'' ''" "''dwara -- quickstart''" demo_fence "''sh|make''" id, OF 1 ne(1) 2(1,2) ne(2) 2(4) 3] z
    by simp
qed

text \<open>
  The sidebar is coherent: every link of a section lies under the section's key, a group with a page of its own
  lists that page first, each link of the navigation bar is listed in its section, and every link of the sidebar that the
  freeze script writes is listed in the same section of the site. All sections but the demos, which the navigation
  offers too, are frozen with a version.
\<close>

theorem sidebar_coherent:
  "list_all (\<lambda>k. page_links (section_of k site_sidebar) \<noteq> [] \<and> list_all (is_prefix k) (page_links (section_of k site_sidebar)) \<and>
     landings_first (section_of k site_sidebar)) (section_keys site_sidebar) \<and>
   list_all (\<lambda>l. list_ex (\<lambda>k. l \<in> set (page_links (section_of k site_sidebar))) (section_keys site_sidebar)) nav_links \<and>
   list_all (\<lambda>k. set (page_links (section_of k sidebar)) \<subseteq> set (page_links (section_of k site_sidebar))) (section_keys sidebar) \<and>
   filter (\<lambda>k. \<not> list_ex (\<lambda>e. k = ''/'' @ e @ ''/'') content_entries) (section_keys site_sidebar) = [''/demos/''] \<and>
   list_ex (is_prefix ''/demos/'') nav_links"
  by (intro conjI) code_simp+

end
