(* ===== verification/Spec2Isabelle.thy ===== *)
theory Spec2Isabelle
  imports Console_Isolation Console_Requests Console_Promises Console_Settling Console_Workspace Console_Dialogs
    Console_Editor Console_Pages Freeze Studio_Highlight Studio_Overview Studio_Help Docs_Zoom Docs_Home Docs_Sections Docs_Config
begin

text \<open>
  Verification of the JavaScript parts of Dwara, an API gateway.

  \<^bold>\<open>The programs.\<close> The admin console, \<open>crates/dwara-console/static/app.js\<close>, is a single-page application without
  dependencies that the gateway serves on its admin listener. It renders ten views into \<open>#content\<close>, polls the admin
  API every five seconds, edits and publishes the configuration and offers CRUD dialogs for the gateway's
  entities. The documentation site (\<open>docs-site\<close>) is built with VitePress: its theme (\<open>.vitepress/theme\<close>) has a diagram viewer and
  the sections of the home page, its configuration (\<open>.vitepress/config.mts\<close>) the navigation and a rule for terminal blocks, and the
  release script \<open>scripts/freeze-version.mjs\<close> freezes the documentation of a version. Config studio
  (\<open>tools/config-studio\<close>) is a single-page editor for configurations.

  \<^bold>\<open>Values.\<close> Theory \<open>Js_Values\<close> models JavaScript values (numbers are rationals with NaN and the infinities; no
  rounding), property access with prototypes, and objects as ordered association lists with the engine's key
  order; a \<open>TypeError\<close> is \<open>None\<close>. Theory \<open>Json\<close> models \<open>JSON.stringify\<close>, \<open>JSON.parse\<close> (with fuel, the length of the text,
  which the round-trip lemmas show to be enough) and \<open>Number(...)\<close>; theory \<open>Js_Numbers\<close> adds \<open>parseFloat\<close>, \<open>toFixed(2)\<close> and the round
  trips of printed numbers with at most 400 decimals (the fuel of \<open>find_scale\<close>, more than a double has). Strings are their UTF-8 bytes. Objects with an own
  \<open>toString\<close> or \<open>valueOf\<close>, getters and cyclic values do not occur in JSON data and are left out.

  \<^bold>\<open>The page.\<close> Theory \<open>Dom\<close>: nodes that are built and appended once are values; nodes kept in variables are
  containers, referred to by number. Theory \<open>Console_State\<close>: the record \<open>console\<close> holds the containers, the children of
  \<open>#content\<close>, the open dialogs, badge, navigation, timers, the script's variables, the requests sent and the promises
  in flight. Closures are data: \<open>action\<close> names a click listener with what it captured, \<open>cont\<close> a pair of \<open>then\<close> and
  \<open>catch\<close> callbacks. Statements are effects (type \<open>eff\<close>, executed by \<open>do_eff\<close>); a callback body is a list of effects in
  which \<open>None\<close> marks a statement that throws, after which the \<open>catch\<close> callback runs on the state reached.

  \<^bold>\<open>The code.\<close> \<open>Console_Chart\<close>: \<open>drawLatencyChart\<close> as a list of canvas calls, and the window \<open>liveState.history\<close>.
  \<open>Console_Views\<close>: the read-only views (\<open>renderOverview\<close>, \<open>renderRoutes\<close>, \<open>renderUpstreams\<close>, \<open>renderHealth\<close>,
  \<open>renderAnalytics\<close>, \<open>renderConfig\<close>, \<open>renderFleet\<close>, \<open>renderLive\<close>, \<open>renderAiOps\<close>) with their callbacks. \<open>Console_Edit\<close>:
  \<open>renderEditor\<close> with validate, publish and reset, \<open>renderCrudEntity\<close> with its dialogs, the options of the workspace
  switcher. \<open>Console_App\<close>: navigation, the refresh timer, click dispatch, \<open>Promise.all\<close>, start-up, and the event
  loop as the step relation \<open>console_step\<close> with its reachable states: navigation, a click on a listener of the page, typing
  into a text area of the page, an answer (any status, any body, any failure) to any pending request in any order, the timer,
  a workspace selection, the passing of time.

  \<^bold>\<open>The documentation site.\<close> \<open>Event_Systems\<close>: components as partial step functions on events, with a locale for invariants and one for
  refinements. \<open>Docs_Svg\<close>: \<open>fixSvgClipping\<close> on the text and attributes of an SVG, \<open>fixNodeClipping\<close> on the list of rendered elements with their
  measured sizes. \<open>Docs_Mermaid\<close>: the component of \<open>Mermaid.vue\<close>, its template as a tree with listeners, its handlers and its life cycle
  (import of the settings, observer, renders in flight, image refresh, unmounting) as the step function \<open>mm_step\<close>; the Mermaid library and the
  browser's XML routines and layout are fields of the environment. \<open>Docs_Home\<close>: the accordion of \<open>HomeFAQ.vue\<close> and the motion of
  \<open>HomeLayout.vue\<close> on an element tree, whose loop is a \<open>while_option\<close>. \<open>Docs_Sections\<close>: the templates of the other sections. \<open>Docs_Config\<close>: the
  fence rule, navigation and sidebar of \<open>config.mts\<close>. 

  \<^bold>\<open>Config studio.\<close> \<open>Studio_Doc\<close>: the document, its paths and editors; a write that leaves the JSON values is the outcome \<open>Outside\<close>.
  \<open>Studio_Check\<close>: schemas as a datatype with the keywords the code reads, \<open>deref\<close>, \<open>coreOf\<close>, \<open>checkNode\<close> with fuel; a document of size \<open>s\<close> needs at
  most \<open>(K + 1) * s + K + 1\<close> for a schema whose unions are \<open>K\<close> deep. \<open>Studio_Issues\<close>: \<open>validateAll\<close> with the references between sections, the status
  line, \<open>applyYaml\<close> and start-up; a \<open>TypeError\<close> is \<open>None\<close>, the YAML library and the rest of the drawing are arguments. \<open>Studio_Yaml\<close>: \<open>yamlScalar\<close>, \<open>emitYaml\<close>, \<open>docToYaml\<close>, and a
  reader for YAML block style as the meaning of a text (its fuel is four times the length of the text). \<open>Studio_Defaults\<close>: \<open>isOptional\<close>,
  \<open>typeName\<close>, \<open>unionInfo\<close>, \<open>variantDefault\<close>, \<open>defaultValue\<close>, the add buttons and the editor of a union with a discriminator.
  \<open>Studio_Diagram\<close>: \<open>genRequestFlow\<close> with the texts and tables it uses, a diagram as a list of lines. \<open>Studio_Attachments\<close>: the other three
  diagrams. \<open>Studio_Forms\<close>: what the fields of the forms make of an input (\<open>fieldEditor\<close>, \<open>leafInput\<close>, \<open>objectForm\<close>, \<open>mapEditor\<close>).
  \<open>Studio_Overview\<close>: the tables of \<open>renderOverview\<close> as texts and classes, and the editor of a union without a discriminator.
  \<open>Studio_Highlight\<close>: \<open>highlightYaml\<close>, and a reader for the HTML it makes. \<open>Studio_App\<close> puts the parts together: the record \<open>app\<close> is the whole
  page, an \<open>act\<close> a call that may throw, \<open>run_acts\<close> a sequence of calls that ends with the first exception and keeps what was done before,
  \<open>app_handler\<close> the listener of an event where the page offers it, \<open>app_run\<close> a session from the first paint on. The forms are the field
  \<open>forms\<close> of the environment: the message of what drawing them throws, if anything; their events are arbitrary edits below the path they were
  drawn for.

  \<^bold>\<open>What is shown.\<close>
  \<^item> \<open>Console_Frame\<close>, \<open>Console_Invariants\<close>: a callback touches only the containers its closure captured; locales
    \<open>loop_step\<close>, \<open>loop_invariant\<close> and \<open>effect_invariant\<close> state what an invariant of the event loop has to survive and
    are interpreted for navigation and timer, container bounds, pending promises, the window and the dirty flag.
  \<^item> \<open>Console_Isolation\<close>: stale responses never reach the page that is shown.
  \<^item> \<open>Console_Requests\<close>: requests that change the gateway need a click, and a confirmation where one is asked.
  \<^item> \<open>Console_Promises\<close>: order independence, first rejection and settling of \<open>Promise.all\<close>.
  \<^item> \<open>Console_Settling\<close>, \<open>Console_Pages\<close>, \<open>Console_Editor\<close>, \<open>Console_Dialogs\<close>, \<open>Console_Workspace\<close>: what each view, dialog
    and the switcher show on every branch, and the places where the code falls short of its intent.
  \<^item> \<open>Freeze\<close>: the release script over a file system map: exact snapshot, permanence, success, the sidebar.
  \<^item> \<open>Docs_Svg\<close>: repairs only enlarge, reach their aim and settle in one pass (locale \<open>repairs\<close>); the root repair reads back.
  \<^item> \<open>Docs_Zoom\<close>: the viewer refines a small specification of zoom and overlay; range of the scale and independence of rounding; the overlay as
    a round trip; what leaving the page leaves behind; sources that cannot be decoded.
  \<^item> \<open>Docs_Home\<close>: the descent of the motion set-up ends, no section stays hidden, one answer at a time. \<open>Docs_Config\<close>: terminal
    fences; sidebar, navigation and frozen sidebar agree.
  \<^item> \<open>Studio_Doc\<close>: writes are local and read back (locale \<open>path_store\<close>), removal is minimal, moving and reloading.
  \<^item> \<open>Studio_Check\<close>, \<open>Studio_Issues\<close>: the validator decides the declared meaning of a schema (\<open>conforms\<close>) and ends; the status line is free of errors
    exactly for conforming documents whose references resolve; where the cross checks throw, and what is lost then.
  \<^item> \<open>Yaml_Roundtrip\<close>: the YAML text reads back as the document, so applying it unchanged keeps the document.
  \<^item> \<open>Studio_Defaults\<close>: when a new entry passes the validator, and the required unions that never do; a picked variant is the one drawn.
  \<^item> \<open>Studio_Diagram\<close>: the diagram is a graph over its nodes, its missing nodes are the dangling references.
  \<^item> \<open>Studio_Attachments\<close>: labels cannot break out in any diagram; the dangling references and the mapping that are not drawn.
  \<^item> \<open>Studio_Session\<close>: the locale \<open>page_invariant\<close> says what an invariant of a session owes to the drawing functions and edits; it is interpreted for
    the status bar, the draft, the YAML pane and (in \<open>Studio_Help\<close>) the pending notes of the bar.
  \<^item> \<open>Studio_Help\<close>: the status bar, pane and stored draft belong to the document in every session; what becomes of typed text, where a click on an
    issue leads, what a template does, and the notes that come back.
  \<^item> \<open>Studio_Highlight\<close>: the pane shows the text, whatever the document holds. \<open>Studio_Forms\<close>: which edits the fields make, which members they hide,
    and the inputs they lose. \<open>Studio_Overview\<close>: which chips of the overview agree with the validator, when it is drawn, and which shape of a union is.

  \<^bold>\<open>Not modelled.\<close> Layout, styles and the text of confirmation dialogs (the answer is an argument of the click); the
  text of engine exceptions (a parameter of the state); the local time format of the refresh line (the time is
  kept instead); rounding of floating-point numbers (the zoom is shown not to depend on it). The gateway itself and its admin API are Rust code: the
  network is arbitrary here. The keyboard focus in the diagram viewer, style sheets, VitePress and its plugins, vendored libraries and the generated API pages
  are left out. Of config studio the nesting of the form elements, links and styles are left out: drawing them changes nothing but the page, and
  what their listeners do is in the model. Of the remaining lines of the JavaScript files most are imports, closing braces and the minified
  code that rustdoc generates.
\<close>

end
